(* ===== verification/Prelude.thy ===== *)
theory Prelude
  imports Main "HOL-Library.Word" "HOL-Library.Stream" "HOL-Library.AList"
begin

text \<open>
  The shared vocabulary of the development: bytes, the explicit wrap-around of the
  C++ unsigned types, the association lists that stand for \<^verbatim>\<open>std::unordered_map\<close>,
  the exceptions the sources throw, and the generic list lemmas the components use.

  A \<^verbatim>\<open>uint64_t\<close> (\<^verbatim>\<open>uint32_t\<close>) is a natural number below \<open>two64\<close> (\<open>two32\<close>); every
  addition and subtraction of the sources on such a value is written \<open>u64_add\<close>,
  \<open>u64_sub\<close>, \<open>u64_inc\<close>, \<open>u64_dec\<close> or \<open>u32_add\<close>, which reduce modulo the width. Bytes and checksums are
  words.
\<close>

named_theorems wrap_simps \<open>removing the wrap-around of an in-range unsigned operation\<close>

named_theorems umap_simps \<open>lookup, size and key facts of association lists\<close>

type_synonym byte = "8 word"

type_synonym bytes = "byte list"

subsection \<open>Unsigned arithmetic\<close>

definition two64 :: nat where
  "two64 = 18446744073709551616"

definition two32 :: nat where
  "two32 = 4294967296"

definition u64 :: "nat \<Rightarrow> nat" where
  "u64 n = n mod two64"

definition u32 :: "nat \<Rightarrow> nat" where
  "u32 n = n mod two32"

definition u64_add :: "nat \<Rightarrow> nat \<Rightarrow> nat" where
  "u64_add a b = u64 (a + b)"

definition u64_sub :: "nat \<Rightarrow> nat \<Rightarrow> nat" where
  "u64_sub a b = u64 (a + two64 - b)"

definition u32_add :: "nat \<Rightarrow> nat \<Rightarrow> nat" where
  "u32_add a b = u32 (a + b)"

definition u64_inc :: "nat \<Rightarrow> nat" where
  "u64_inc n = u64_add n 1"

definition u64_dec :: "nat \<Rightarrow> nat" where
  "u64_dec n = u64_sub n 1"

definition u32_inc :: "nat \<Rightarrow> nat" where
  "u32_inc n = u32_add n 1"

lemma two64_pos [simp]: "0 < two64"
  by (simp add: two64_def)

lemma two32_pos [simp]: "0 < two32"
  by (simp add: two32_def)

lemma u64_lt [simp]: "u64 n < two64"
  by (simp add: u64_def)

lemma u64_id [wrap_simps]: "n < two64 \<Longrightarrow> u64 n = n"
  by (simp add: u64_def)

lemma u64_add_id [wrap_simps]: "a + b < two64 \<Longrightarrow> u64_add a b = a + b"
  by (simp add: u64_add_def u64_id)

lemma u64_add_lt [simp]: "u64_add a b < two64"
  by (simp add: u64_add_def)

lemma u64_sub_lt [simp]: "u64_sub a b < two64"
  by (simp add: u64_sub_def)

lemma u64_sub_id [wrap_simps]: "b \<le> a \<Longrightarrow> a < two64 \<Longrightarrow> u64_sub a b = a - b"
proof -
  assume le: "b \<le> a" and lt: "a < two64"
  have "(a + two64 - b) mod two64 = (a - b + two64) mod two64"
    using le by (simp only: Nat.add_diff_assoc2)
  also have "\<dots> = a - b"
    using lt by (simp only: mod_add_self2) (simp add: less_imp_diff_less)
  finally show "u64_sub a b = a - b" by (simp only: u64_sub_def u64_def)
qed

lemma u32_add_id [wrap_simps]: "a + b < two32 \<Longrightarrow> u32_add a b = a + b"
  by (simp add: u32_add_def u32_def)

lemma u64_inc_id [wrap_simps]: "Suc n < two64 \<Longrightarrow> u64_inc n = Suc n"
  by (simp add: u64_inc_def u64_add_def u64_id)

lemma u64_dec_id [wrap_simps]: "0 < n \<Longrightarrow> n < two64 \<Longrightarrow> u64_dec n = n - 1"
  by (simp add: u64_dec_def u64_sub_id)

lemma u64_inc_lt [simp]: "u64_inc n < two64"
  by (simp add: u64_inc_def)

lemma u64_dec_lt [simp]: "u64_dec n < two64"
  by (simp add: u64_dec_def)

subsection \<open>Exceptions\<close>

text \<open>The exception classes the modelled sources throw; \<open>Inl\<close> of a sum carries one.\<close>

datatype exn =
    Invalid_argument
  | Length_error
  | Out_of_range
  | Runtime_error
  | Type_error
  | Resp_protocol_error

subsection \<open>Unordered maps as association lists\<close>

text \<open>
  The sources iterate over their \<^verbatim>\<open>unordered_map\<close>s only to count or to collect, so an
  association list with distinct keys carries all they observe. \<open>umap_at\<close> is
  \<^verbatim>\<open>operator[]\<close>: it inserts the default value when the key is absent.
\<close>

type_synonym 'v umap = "(nat \<times> 'v) list"

definition umap_put :: "'v umap \<Rightarrow> nat \<Rightarrow> 'v \<Rightarrow> 'v umap" where
  "umap_put m k v = AList.update k v m"

definition umap_at :: "'v umap \<Rightarrow> nat \<Rightarrow> 'v \<Rightarrow> 'v" where
  "umap_at m k dflt = (case map_of m k of None \<Rightarrow> dflt | Some v \<Rightarrow> v)"

definition umap_touch :: "'v umap \<Rightarrow> nat \<Rightarrow> 'v \<Rightarrow> 'v umap" where
  "umap_touch m k dflt = umap_put m k (umap_at m k dflt)"

definition umap_erase :: "'v umap \<Rightarrow> nat \<Rightarrow> 'v umap" where
  "umap_erase m k = AList.delete k m"

definition umap_ok :: "'v umap \<Rightarrow> bool" where
  "umap_ok m \<longleftrightarrow> distinct (map fst m)"

definition count_true :: "bool umap \<Rightarrow> nat" where
  "count_true m = length (filter snd m)"

lemma umap_ok_Nil [simp]: "umap_ok []"
  by (simp add: umap_ok_def)

lemma umap_ok_put [simp]: "umap_ok m \<Longrightarrow> umap_ok (umap_put m k v)"
  by (simp add: umap_ok_def umap_put_def distinct_update)

lemma umap_ok_touch [simp]: "umap_ok m \<Longrightarrow> umap_ok (umap_touch m k d)"
  by (simp add: umap_touch_def)

lemma map_of_put [umap_simps]: "map_of (umap_put m k v) = (map_of m)(k \<mapsto> v)"
  by (simp add: umap_put_def update_conv')

lemma umap_at_put [umap_simps]:
  "umap_at (umap_put m k v) j d = (if j = k then v else umap_at m j d)"
  by (simp add: umap_at_def umap_simps)

lemma umap_at_touch [umap_simps]: "umap_at (umap_touch m k d) j d = umap_at m j d"
  by (simp add: umap_touch_def umap_simps)

lemma keys_put [umap_simps]: "fst ` set (umap_put m k v) = insert k (fst ` set m)"
  by (simp add: umap_put_def dom_update)

lemma keys_touch [umap_simps]: "fst ` set (umap_touch m k d) = insert k (fst ` set m)"
  by (simp add: umap_touch_def umap_simps)

text \<open>The number of \<^verbatim>\<open>true\<close> entries is the number of keys bound to \<^verbatim>\<open>true\<close>.\<close>

lemma count_true_card:
  assumes "umap_ok m"
  shows "count_true m = card {k. map_of m k = Some True}"
proof -
  have d: "distinct (map fst (filter snd m))"
    using assms by (simp add: umap_ok_def distinct_map_filter)
  have "{k. map_of m k = Some True} = set (map fst (filter snd m))"
    using assms by (force simp: umap_ok_def map_of_eq_Some_iff)
  then have "card {k. map_of m k = Some True} = length (map fst (filter snd m))"
    using d by (simp only: distinct_card)
  then show ?thesis by (simp add: count_true_def)
qed

subsection \<open>Lists\<close>

lemma drop_append_one: "n \<le> length xs \<Longrightarrow> drop n (xs @ [x]) = drop n xs @ [x]"
  by simp

lemma map_nth_upt_drop: "map ((!) xs) [n..<length xs] = drop n xs"
  by (rule nth_equalityI) auto

end
