(* ===== verification/Raft_Proto.thy ===== *)
theory Raft_Proto
  imports Prelude
begin

text \<open>
  The data types of \<^verbatim>\<open>src/raft/proto.h\<close>, \<^verbatim>\<open>src/raft/config.h\<close> and the persisted
  records of \<^verbatim>\<open>src/wal/proto.h\<close>: log entries, the one message structure all RPCs
  share, the configuration, the hard state and the snapshot.
\<close>

subsection \<open>Log entries\<close>

definition EntryNormal :: nat where
  "EntryNormal = 0"

definition EntryConfChange :: nat where
  "EntryConfChange = 1"

record entry =
  entry_type :: nat
  entry_term :: nat
  entry_index :: nat
  entry_data :: bytes

definition default_entry :: entry where
  "default_entry = \<lparr>entry_type = EntryNormal, entry_term = 0, entry_index = 0, entry_data = []\<rparr>"

subsection \<open>Messages\<close>

text \<open>
  \<^verbatim>\<open>MessageType\<close> is a \<^verbatim>\<open>uint8_t\<close> with eight named values; a value read from the
  network can be any other one, and the dispatchers have a default branch for it.
\<close>

type_synonym message_type = nat

definition MsgRequestVote :: message_type where "MsgRequestVote = 0"
definition MsgRequestVoteResponse :: message_type where "MsgRequestVoteResponse = 1"
definition MsgAppendEntries :: message_type where "MsgAppendEntries = 2"
definition MsgAppendEntriesResponse :: message_type where "MsgAppendEntriesResponse = 3"
definition MsgPreVote :: message_type where "MsgPreVote = 4"
definition MsgPreVoteResponse :: message_type where "MsgPreVoteResponse = 5"
definition MsgInstallSnapshot :: message_type where "MsgInstallSnapshot = 6"
definition MsgInstallSnapshotResponse :: message_type where "MsgInstallSnapshotResponse = 7"

lemmas msg_type_defs =
  MsgRequestVote_def MsgRequestVoteResponse_def MsgAppendEntries_def
  MsgAppendEntriesResponse_def MsgPreVote_def MsgPreVoteResponse_def
  MsgInstallSnapshot_def MsgInstallSnapshotResponse_def

record message =
  m_type :: message_type
  m_from :: nat
  m_to :: nat
  m_term :: nat
  m_last_log_index :: nat
  m_last_log_term :: nat
  m_vote_granted :: bool
  m_prev_log_index :: nat
  m_prev_log_term :: nat
  m_entries :: "entry list"
  m_leader_commit :: nat
  m_success :: bool
  m_match_index :: nat
  m_snapshot_index :: nat
  m_snapshot_term :: nat
  m_snapshot_data :: bytes
  m_read_context :: nat
  m_pre_vote_term :: nat

definition default_message :: message where
  "default_message = \<lparr>m_type = MsgRequestVote, m_from = 0, m_to = 0, m_term = 0,
     m_last_log_index = 0, m_last_log_term = 0, m_vote_granted = False,
     m_prev_log_index = 0, m_prev_log_term = 0, m_entries = [], m_leader_commit = 0,
     m_success = False, m_match_index = 0, m_snapshot_index = 0, m_snapshot_term = 0,
     m_snapshot_data = [], m_read_context = 0, m_pre_vote_term = 0\<rparr>"

subsection \<open>Configuration\<close>

record config =
  cfg_id :: nat
  cfg_peers :: "nat list"
  cfg_election_tick :: nat
  cfg_heartbeat_tick :: nat
  cfg_snapshot_threshold :: nat
  cfg_random_seed :: nat

definition default_config :: config where
  "default_config = \<lparr>cfg_id = 0, cfg_peers = [], cfg_election_tick = 10,
     cfg_heartbeat_tick = 1, cfg_snapshot_threshold = 100, cfg_random_seed = 0\<rparr>"

subsection \<open>Persisted state\<close>

record hard_state =
  hs_term :: nat
  hs_vote :: nat
  hs_commit :: nat

definition empty_hard_state :: hard_state where
  "empty_hard_state = \<lparr>hs_term = 0, hs_vote = 0, hs_commit = 0\<rparr>"

definition hs_is_empty :: "hard_state \<Rightarrow> bool" where
  "hs_is_empty h \<longleftrightarrow> hs_term h = 0 \<and> hs_vote h = 0 \<and> hs_commit h = 0"

record snapshot_meta =
  snap_index :: nat
  snap_term :: nat
  snap_state :: bytes
  snap_discard_suffix :: bool

definition empty_snapshot :: snapshot_meta where
  "empty_snapshot = \<lparr>snap_index = 0, snap_term = 0, snap_state = [], snap_discard_suffix = False\<rparr>"

definition snap_is_empty :: "snapshot_meta \<Rightarrow> bool" where
  "snap_is_empty s \<longleftrightarrow> snap_index s = 0 \<and> snap_term s = 0 \<and> snap_state s = []"

lemma hs_is_empty_iff: "hs_is_empty h \<longleftrightarrow> h = empty_hard_state"
  by (cases h) (simp add: hs_is_empty_def empty_hard_state_def)

end
