(* ===== verification/Wal.thy ===== *)
theory Wal
  imports Raft_Proto
begin

text \<open>
  The write-ahead log as its client, the Raft core, sees it: a handle that buffers typed
  records, a \<open>wal_sync\<close> that makes the buffered records durable or fails for good, and a
  recovery that replays the durable records (\<^verbatim>\<open>src/wal/wal.h\<close>, the operations of
  \<^verbatim>\<open>src/wal/wal.cpp\<close> above the byte layout). Theory \<open>Wal_Bytes\<close> models the byte layout
  and relates it to the records used here.
\<close>

subsection \<open>Records and the handle\<close>

datatype wal_record =
    RecEntry entry
  | RecHardState hard_state
  | RecSnapshot snapshot_meta

text \<open>
  What the operating system does with one flush of a non-empty buffer: everything is
  written and synchronised, or one of \<^verbatim>\<open>fwrite\<close>, \<^verbatim>\<open>fflush\<close>, \<^verbatim>\<open>fsync\<close> reports an error
  after some number of whole records reached the file.
\<close>

datatype sync_outcome = Sync_ok | Sync_error nat

text \<open>
  \<open>w_disk\<close> is the content of the open file, \<open>w_io\<close> the outcomes of the flushes still to
  come. \<open>w_packed_size\<close> is the size of the MessagePack encoding of a record, a function
  of the MessagePack library.
\<close>

record wal =
  w_disk :: "wal_record list"
  w_buffer :: "wal_record list"
  w_failed :: bool
  w_io :: "sync_outcome stream"
  w_packed_size :: "wal_record \<Rightarrow> nat"

definition kMaxRecordPayload :: nat where
  "kMaxRecordPayload = 16777215"

definition append_record :: "wal_record \<Rightarrow> wal \<Rightarrow> exn + wal" where
  "append_record r w =
     (if w_packed_size w r > kMaxRecordPayload then Inl Length_error
      else Inr (w\<lparr>w_buffer := w_buffer w @ [r]\<rparr>))"

text \<open>
  A hard state is three integers, at most 28 bytes when packed, so saving one never meets
  the size limit (\<open>Wal_Bytes\<close> carries this as a hypothesis on the encoder).
\<close>

definition save_hard_state :: "hard_state \<Rightarrow> wal \<Rightarrow> wal" where
  "save_hard_state hs w =
     (if hs_is_empty hs then w else w\<lparr>w_buffer := w_buffer w @ [RecHardState hs]\<rparr>)"

definition save_entry :: "entry \<Rightarrow> wal \<Rightarrow> exn + wal" where
  "save_entry e w = append_record (RecEntry e) w"

definition save_snapshot :: "snapshot_meta \<Rightarrow> wal \<Rightarrow> exn + wal" where
  "save_snapshot snap w =
     (if snap_is_empty snap then Inr w else append_record (RecSnapshot snap) w)"

definition wal_sync :: "wal \<Rightarrow> bool \<times> wal" where
  "wal_sync w =
     (if w_failed w then (False, w)
      else if w_buffer w = [] then (True, w)
      else (case shd (w_io w) of
              Sync_ok \<Rightarrow>
                (True, w\<lparr>w_disk := w_disk w @ w_buffer w, w_buffer := [], w_io := stl (w_io w)\<rparr>)
            | Sync_error k \<Rightarrow>
                (False, w\<lparr>w_disk := w_disk w @ take k (w_buffer w), w_buffer := [],
                          w_failed := True, w_io := stl (w_io w)\<rparr>)))"

subsection \<open>Recovery\<close>

text \<open>
  \<^verbatim>\<open>std::lower_bound\<close> and \<^verbatim>\<open>std::upper_bound\<close> search a range partitioned by the
  comparison; on such a range the elements before their result are the longest prefix that
  satisfies it.
\<close>

record recovered =
  rec_hard_state :: hard_state
  rec_entries :: "entry list"
  rec_snapshot :: snapshot_meta

definition recovered_init :: recovered where
  "recovered_init = \<lparr>rec_hard_state = empty_hard_state, rec_entries = [],
     rec_snapshot = empty_snapshot\<rparr>"

fun recover_record :: "wal_record \<Rightarrow> recovered \<Rightarrow> recovered" where
  "recover_record (RecHardState hs) a = a\<lparr>rec_hard_state := hs\<rparr>"
| "recover_record (RecEntry e) a =
     a\<lparr>rec_entries := takeWhile (\<lambda>x. entry_index x < entry_index e) (rec_entries a) @ [e]\<rparr>"
| "recover_record (RecSnapshot snap) a =
     a\<lparr>rec_entries :=
          (if snap_discard_suffix snap then []
           else dropWhile (\<lambda>x. entry_index x \<le> snap_index snap) (rec_entries a)),
        rec_snapshot := snap\<rparr>"

definition recover_records :: "wal_record list \<Rightarrow> recovered" where
  "recover_records rs = fold recover_record rs recovered_init"

end
