(* ===== verification/Raft.thy ===== *)
theory Raft
  imports Wal
begin

text \<open>
  The consensus core, \<^verbatim>\<open>src/raft/raft.h\<close> and \<^verbatim>\<open>src/raft/raft.cpp\<close>: the state of one
  node and one definition per method, in the order of the source. A method that can
  unwind with an exception of the write-ahead log returns the exception beside the state
  it leaves.
\<close>

subsection \<open>State\<close>

datatype role = Follower | PreCandidate | Candidate | Leader

record read_index_token =
  ri_context :: nat
  ri_safe_index :: nat

record progress =
  p_match :: nat
  p_next :: nat

definition default_progress :: progress where
  "default_progress = \<lparr>p_match = 0, p_next = 1\<rparr>"

text \<open>
  \<open>r_election_rng\<close> is the sequence of draws of the random engine still to come. The
  optional \<open>r_snapshot_restore\<close> is the callback that hands a received snapshot to the
  state machine and reports whether that succeeded; \<open>r_wal\<close> is the attached log, if any.
\<close>

record raft =
  r_id :: nat
  r_term :: nat
  r_lead :: nat
  r_voted_for :: nat
  r_commit_index :: nat
  r_last_applied :: nat
  r_state :: role
  r_log :: "entry list"
  r_log_offset :: nat
  r_log_offset_term :: nat
  r_progress :: "progress umap"
  r_peers :: "nat list"
  r_election_timeout :: nat
  r_heartbeat_timeout :: nat
  r_snapshot_threshold :: nat
  r_last_snapshot_index :: nat
  r_election_elapsed :: nat
  r_randomized_election_timeout :: nat
  r_heartbeat_elapsed :: nat
  r_election_rng :: "nat stream"
  r_votes :: "bool umap"
  r_pre_votes :: "bool umap"
  r_pending_pre_vote_term :: nat
  r_read_index_pending :: bool
  r_pending_read_index :: nat
  r_pending_read_context :: nat
  r_next_read_context :: nat
  r_read_index_acks :: "bool umap"
  r_last_snapshot_data :: bytes
  r_snapshot_restore :: "(nat \<Rightarrow> bytes \<Rightarrow> bool) option"
  r_wal :: "wal option"
  r_storage_failed :: bool
  r_msgs :: "message list"

type_synonym 'a outcome = "(exn + 'a) \<times> raft"

subsection \<open>Log index helpers\<close>

definition last_log_index :: "raft \<Rightarrow> nat" where
  "last_log_index s = u64_add (r_log_offset s) (length (r_log s))"

text \<open>An index outside the retained log reads past the vector; \<open>(!)\<close> is unspecified there.\<close>

definition log_entry :: "raft \<Rightarrow> nat \<Rightarrow> entry" where
  "log_entry s i = r_log s ! u64_dec (u64_sub i (r_log_offset s))"

definition last_log_term :: "raft \<Rightarrow> nat" where
  "last_log_term s = (if r_log s = [] then r_log_offset_term s else entry_term (last (r_log s)))"

definition term_at :: "raft \<Rightarrow> nat \<Rightarrow> nat" where
  "term_at s i =
     (if i = 0 then 0
      else if i = r_log_offset s then r_log_offset_term s
      else if i < r_log_offset s \<or> i > last_log_index s then 0
      else entry_term (log_entry s i))"

subsection \<open>Construction and recovery\<close>

definition reset_randomized_election_timeout :: "raft \<Rightarrow> raft" where
  "reset_randomized_election_timeout s =
     s\<lparr>r_election_elapsed := 0,
       r_randomized_election_timeout :=
         u32_add (r_election_timeout s) (shd (r_election_rng s) mod r_election_timeout s),
       r_election_rng := stl (r_election_rng s)\<rparr>"

definition raft_new :: "config \<Rightarrow> nat stream \<Rightarrow> exn + raft" where
  "raft_new c rng =
     (if cfg_id c = 0 \<or> cfg_election_tick c = 0 \<or> cfg_heartbeat_tick c = 0
         \<or> length (cfg_peers c) \<noteq> 3 \<or> card (set (cfg_peers c)) \<noteq> length (cfg_peers c)
         \<or> 0 \<in> set (cfg_peers c) \<or> cfg_id c \<notin> set (cfg_peers c)
      then Inl Invalid_argument
      else Inr (reset_randomized_election_timeout
        \<lparr>r_id = cfg_id c, r_term = 0, r_lead = 0, r_voted_for = 0, r_commit_index = 0,
         r_last_applied = 0, r_state = Follower, r_log = [], r_log_offset = 0,
         r_log_offset_term = 0, r_progress = [], r_peers = cfg_peers c,
         r_election_timeout = cfg_election_tick c,
         r_heartbeat_timeout = cfg_heartbeat_tick c,
         r_snapshot_threshold = cfg_snapshot_threshold c, r_last_snapshot_index = 0,
         r_election_elapsed = 0, r_randomized_election_timeout = 0,
         r_heartbeat_elapsed = 0, r_election_rng = rng, r_votes = [], r_pre_votes = [],
         r_pending_pre_vote_term = 0, r_read_index_pending = False,
         r_pending_read_index = 0, r_pending_read_context = 0, r_next_read_context = 1,
         r_read_index_acks = [], r_last_snapshot_data = [], r_snapshot_restore = None,
         r_wal = None, r_storage_failed = False, r_msgs = []\<rparr>))"

definition set_wal :: "wal \<Rightarrow> raft \<Rightarrow> raft" where
  "set_wal w s = s\<lparr>r_wal := Some w, r_storage_failed := False\<rparr>"

definition set_snapshot_restore_callback :: "(nat \<Rightarrow> bytes \<Rightarrow> bool) \<Rightarrow> raft \<Rightarrow> raft" where
  "set_snapshot_restore_callback f s = s\<lparr>r_snapshot_restore := Some f\<rparr>"

fun restore_log :: "nat \<Rightarrow> nat \<Rightarrow> entry list \<Rightarrow> exn + entry list" where
  "restore_log offset expected [] = Inr []"
| "restore_log offset expected (e # es) =
     (if entry_index e > offset then
        if entry_index e \<noteq> expected then Inl Invalid_argument
        else (case restore_log offset (u64_inc expected) es of
                Inl x \<Rightarrow> Inl x | Inr log \<Rightarrow> Inr (e # log))
      else restore_log offset expected es)"

definition restore :: "hard_state \<Rightarrow> entry list \<Rightarrow> snapshot_meta \<Rightarrow> raft \<Rightarrow> exn + raft" where
  "restore hs entries snap s =
     (case restore_log (snap_index snap) (u64_inc (snap_index snap)) entries of
        Inl x \<Rightarrow> Inl x
      | Inr log \<Rightarrow>
          (let s1 = s\<lparr>r_log_offset := snap_index snap, r_log_offset_term := snap_term snap,
                      r_last_snapshot_index := snap_index snap,
                      r_last_snapshot_data := snap_state snap, r_log := log,
                      r_term := hs_term hs, r_voted_for := hs_vote hs,
                      r_commit_index := max (snap_index snap) (hs_commit hs)\<rparr>
           in if r_commit_index s1 > last_log_index s1 then Inl Invalid_argument
              else Inr (s1\<lparr>r_last_applied := snap_index snap\<rparr>)))"

subsection \<open>Persistence\<close>

definition sync_wal :: "raft \<Rightarrow> bool \<times> raft" where
  "sync_wal s =
     (case r_wal s of
        None \<Rightarrow> (True, s)
      | Some w \<Rightarrow>
          (case wal_sync w of (ok, w') \<Rightarrow>
             if ok then (True, s\<lparr>r_wal := Some w'\<rparr>)
             else (False, s\<lparr>r_wal := Some w', r_storage_failed := True\<rparr>)))"

text \<open>
  \<^verbatim>\<open>if (wal_) { wal_->save_hard_state({term_, voted_for_, commit_index_}); sync_wal(); }\<close>,
  the block that ends most state changes.
\<close>

definition current_hard_state :: "raft \<Rightarrow> hard_state" where
  "current_hard_state s =
     \<lparr>hs_term = r_term s, hs_vote = r_voted_for s, hs_commit = r_commit_index s\<rparr>"

definition persist_hard_state :: "raft \<Rightarrow> bool \<times> raft" where
  "persist_hard_state s =
     (case r_wal s of
        None \<Rightarrow> (True, s)
      | Some w \<Rightarrow> sync_wal (s\<lparr>r_wal := Some (save_hard_state (current_hard_state s) w)\<rparr>))"

definition wal_save_entry :: "entry \<Rightarrow> raft \<Rightarrow> unit outcome" where
  "wal_save_entry e s =
     (case r_wal s of
        None \<Rightarrow> (Inr (), s)
      | Some w \<Rightarrow>
          (case save_entry e w of
             Inl x \<Rightarrow> (Inl x, s)
           | Inr w' \<Rightarrow> (Inr (), s\<lparr>r_wal := Some w'\<rparr>)))"

definition wal_save_snapshot :: "snapshot_meta \<Rightarrow> raft \<Rightarrow> unit outcome" where
  "wal_save_snapshot snap s =
     (case r_wal s of
        None \<Rightarrow> (Inr (), s)
      | Some w \<Rightarrow>
          (case save_snapshot snap w of
             Inl x \<Rightarrow> (Inl x, s)
           | Inr w' \<Rightarrow> (Inr (), s\<lparr>r_wal := Some w'\<rparr>)))"

subsection \<open>Role changes\<close>

definition become_follower :: "nat \<Rightarrow> nat \<Rightarrow> raft \<Rightarrow> raft" where
  "become_follower t leader s =
     (if t < r_term s then s
      else
        let advanced_term = t > r_term s;
            s1 = reset_randomized_election_timeout
                   (s\<lparr>r_state := Follower, r_term := t, r_lead := leader,
                      r_voted_for := (if advanced_term then 0 else r_voted_for s),
                      r_read_index_pending := False, r_pending_read_index := 0,
                      r_pending_read_context := 0, r_read_index_acks := [],
                      r_pending_pre_vote_term := 0\<rparr>)
        in if advanced_term then snd (persist_hard_state s1) else s1)"

definition is_log_up_to_date :: "raft \<Rightarrow> nat \<Rightarrow> nat \<Rightarrow> bool" where
  "is_log_up_to_date s candidate_index candidate_term =
     (if candidate_term \<noteq> last_log_term s then candidate_term > last_log_term s
      else candidate_index \<ge> last_log_index s)"

definition is_member :: "raft \<Rightarrow> nat \<Rightarrow> bool" where
  "is_member s n \<longleftrightarrow> n \<noteq> 0 \<and> n \<in> set (r_peers s)"

text \<open>\<^verbatim>\<open>msg.to != id_ || msg.from == id_ || !is_member(msg.from)\<close>, the guard of every handler.\<close>

definition misaddressed :: "message \<Rightarrow> raft \<Rightarrow> bool" where
  "misaddressed msg s \<longleftrightarrow>
     m_to msg \<noteq> r_id s \<or> m_from msg = r_id s \<or> \<not> is_member s (m_from msg)"

definition prepare_for_leader_rpc :: "message \<Rightarrow> raft \<Rightarrow> bool \<times> raft" where
  "prepare_for_leader_rpc msg s =
     (if misaddressed msg s then (False, s)
      else
        let s1 = (if m_term msg > r_term s then become_follower (m_term msg) (m_from msg) s else s)
        in if r_storage_failed s1 \<or> m_term msg < r_term s1 then (False, s1)
           else
             let s2 = (if r_state s1 \<noteq> Follower
                       then become_follower (m_term msg) (m_from msg) s1 else s1);
                 s3 = reset_randomized_election_timeout s2
             in (True, s3\<lparr>r_lead := m_from msg\<rparr>))"

definition has_committed_entry_in_current_term :: "raft \<Rightarrow> bool" where
  "has_committed_entry_in_current_term s \<longleftrightarrow>
     r_commit_index s > 0 \<and> term_at s (r_commit_index s) = r_term s"

definition become_pre_candidate :: "raft \<Rightarrow> raft" where
  "become_pre_candidate s =
     reset_randomized_election_timeout
       (s\<lparr>r_state := PreCandidate, r_lead := 0, r_pre_votes := [],
          r_pending_pre_vote_term := 0\<rparr>)"

definition become_candidate :: "raft \<Rightarrow> raft" where
  "become_candidate s =
     snd (persist_hard_state (reset_randomized_election_timeout
       (s\<lparr>r_state := Candidate, r_term := u64_inc (r_term s), r_lead := 0,
          r_voted_for := r_id s, r_votes := [], r_pending_pre_vote_term := 0\<rparr>)))"

subsection \<open>Outgoing messages\<close>

definition send :: "message \<Rightarrow> raft \<Rightarrow> raft" where
  "send msg s = s\<lparr>r_msgs := r_msgs s @ [msg]\<rparr>"

definition read_messages :: "raft \<Rightarrow> message list \<times> raft" where
  "read_messages s = (r_msgs s, s\<lparr>r_msgs := []\<rparr>)"

definition make_install_snapshot :: "raft \<Rightarrow> nat \<Rightarrow> message" where
  "make_install_snapshot s peer =
     default_message\<lparr>m_type := MsgInstallSnapshot, m_from := r_id s, m_to := peer,
       m_term := r_term s, m_snapshot_index := r_log_offset s,
       m_snapshot_term := r_log_offset_term s, m_snapshot_data := r_last_snapshot_data s\<rparr>"

text \<open>The AppendEntries message for a peer whose next index is \<open>next_index\<close>.\<close>

definition make_append_entries :: "raft \<Rightarrow> nat \<Rightarrow> nat \<Rightarrow> message" where
  "make_append_entries s peer next_index =
     (let prev_index = u64_dec next_index
      in default_message\<lparr>m_type := MsgAppendEntries, m_from := r_id s, m_to := peer,
           m_term := r_term s, m_prev_log_index := prev_index,
           m_prev_log_term := (if prev_index = 0 then 0 else term_at s prev_index),
           m_entries := map (log_entry s) [next_index..<Suc (last_log_index s)],
           m_leader_commit := r_commit_index s,
           m_read_context := (if r_read_index_pending s then r_pending_read_context s else 0)\<rparr>)"

definition heartbeat_peer :: "nat \<Rightarrow> raft \<Rightarrow> raft" where
  "heartbeat_peer peer s =
     (if peer = r_id s then s
      else
        let next_index = p_next (umap_at (r_progress s) peer default_progress);
            s1 = s\<lparr>r_progress := umap_touch (r_progress s) peer default_progress\<rparr>
        in if next_index \<le> r_log_offset s1 then send (make_install_snapshot s1 peer) s1
           else send (make_append_entries s1 peer next_index) s1)"

definition broadcast_heartbeat :: "raft \<Rightarrow> raft" where
  "broadcast_heartbeat s = fold heartbeat_peer (r_peers s) s"

definition become_leader :: "raft \<Rightarrow> raft" where
  "become_leader s =
     broadcast_heartbeat
       (s\<lparr>r_state := Leader, r_lead := r_id s, r_heartbeat_elapsed := 0,
          r_progress :=
            fold (\<lambda>peer m. if peer = r_id s then m
                    else umap_put m peer
                           \<lparr>p_match = 0, p_next = u64_inc (last_log_index s)\<rparr>)
              (r_peers s) []\<rparr>)"

subsection \<open>Elections\<close>

definition vote_request :: "message_type \<Rightarrow> nat \<Rightarrow> raft \<Rightarrow> nat \<Rightarrow> message" where
  "vote_request ty t s peer =
     default_message\<lparr>m_type := ty, m_from := r_id s, m_to := peer, m_term := t,
       m_last_log_index := last_log_index s, m_last_log_term := last_log_term s\<rparr>"

definition pre_campaign :: "raft \<Rightarrow> raft" where
  "pre_campaign s =
     (if r_storage_failed s then s
      else
        let s1 = s\<lparr>r_pending_pre_vote_term := u64_inc (r_term s),
                   r_pre_votes := umap_put (r_pre_votes s) (r_id s) True\<rparr>
        in s1\<lparr>r_msgs := r_msgs s1 @
                 map (vote_request MsgPreVote (r_pending_pre_vote_term s1) s1)
                   (filter (\<lambda>p. p \<noteq> r_id s1) (r_peers s1))\<rparr>)"

definition campaign :: "raft \<Rightarrow> raft" where
  "campaign s =
     (if r_storage_failed s then s
      else
        let s1 = s\<lparr>r_votes := umap_put (r_votes s) (r_id s) True\<rparr>
        in s1\<lparr>r_msgs := r_msgs s1 @
                 map (vote_request MsgRequestVote (r_term s1) s1)
                   (filter (\<lambda>p. p \<noteq> r_id s1) (r_peers s1))\<rparr>)"

definition tick :: "raft \<Rightarrow> raft" where
  "tick s =
     (if r_storage_failed s then s
      else if r_state s = Leader then
        let s1 = s\<lparr>r_heartbeat_elapsed := u32_inc (r_heartbeat_elapsed s)\<rparr>
        in if r_heartbeat_elapsed s1 \<ge> r_heartbeat_timeout s1
           then broadcast_heartbeat (s1\<lparr>r_heartbeat_elapsed := 0\<rparr>) else s1
      else
        let s1 = s\<lparr>r_election_elapsed := u32_inc (r_election_elapsed s)\<rparr>
        in if r_election_elapsed s1 \<ge> r_randomized_election_timeout s1
           then pre_campaign (become_pre_candidate (s1\<lparr>r_election_elapsed := 0\<rparr>)) else s1)"

definition handle_request_vote :: "message \<Rightarrow> raft \<Rightarrow> message \<times> raft" where
  "handle_request_vote msg s =
     (let response = default_message\<lparr>m_type := MsgRequestVoteResponse, m_from := r_id s,
                       m_to := m_from msg, m_vote_granted := False\<rparr>
      in if misaddressed msg s then (response\<lparr>m_term := r_term s\<rparr>, s)
         else
           let s1 = (if m_term msg > r_term s then become_follower (m_term msg) 0 s else s)
           in if r_storage_failed s1 then (response\<lparr>m_term := r_term s1\<rparr>, s1)
              else if m_term msg = r_term s1
                      \<and> (r_voted_for s1 = 0 \<or> r_voted_for s1 = m_from msg)
                      \<and> is_log_up_to_date s1 (m_last_log_index msg) (m_last_log_term msg)
              then
                (case persist_hard_state
                        (reset_randomized_election_timeout (s1\<lparr>r_voted_for := m_from msg\<rparr>)) of
                   (ok, s2) \<Rightarrow> (response\<lparr>m_vote_granted := ok, m_term := r_term s2\<rparr>, s2))
              else (response\<lparr>m_term := r_term s1\<rparr>, s1))"

definition handle_request_vote_response :: "message \<Rightarrow> raft \<Rightarrow> raft" where
  "handle_request_vote_response msg s =
     (if misaddressed msg s then s
      else if m_term msg > r_term s then become_follower (m_term msg) 0 s
      else if m_term msg < r_term s \<or> r_state s \<noteq> Candidate then s
      else
        let s1 = (if m_vote_granted msg
                  then s\<lparr>r_votes := umap_put (r_votes s) (m_from msg) True\<rparr> else s)
        in if count_true (r_votes s1) > length (r_peers s1) div 2 then become_leader s1 else s1)"

definition handle_pre_vote :: "message \<Rightarrow> raft \<Rightarrow> message \<times> raft" where
  "handle_pre_vote msg s =
     (let response = default_message\<lparr>m_type := MsgPreVoteResponse, m_from := r_id s,
                       m_to := m_from msg, m_pre_vote_term := m_term msg,
                       m_vote_granted := False, m_term := r_term s\<rparr>
      in if misaddressed msg s then (response, s)
         else if r_storage_failed s \<or> m_term msg \<le> r_term s then (response, s)
         else if r_lead s \<noteq> 0 \<and> r_election_elapsed s < r_election_timeout s then (response, s)
         else if is_log_up_to_date s (m_last_log_index msg) (m_last_log_term msg)
         then (response\<lparr>m_vote_granted := True\<rparr>, s)
         else (response, s))"

definition handle_pre_vote_response :: "message \<Rightarrow> raft \<Rightarrow> raft" where
  "handle_pre_vote_response msg s =
     (if misaddressed msg s then s
      else if m_term msg > r_term s then become_follower (m_term msg) 0 s
      else if r_state s \<noteq> PreCandidate then s
      else if m_pre_vote_term msg = 0 \<or> m_pre_vote_term msg \<noteq> r_pending_pre_vote_term s then s
      else
        let s1 = (if m_vote_granted msg
                  then s\<lparr>r_pre_votes := umap_put (r_pre_votes s) (m_from msg) True\<rparr> else s)
        in if count_true (r_pre_votes s1) > length (r_peers s1) div 2
           then campaign (become_candidate s1) else s1)"

end
