(* ===== verification/Raft_Log.thy ===== *)
theory Raft_Log
  imports Raft
begin

text \<open>
  The second half of \<^verbatim>\<open>src/raft/raft.cpp\<close>: log replication, proposals, the apply
  hand-off, snapshots and ReadIndex; and the events the runtime feeds one node with.
\<close>

subsection \<open>AppendEntries\<close>

text \<open>
  The loop over the entries of an AppendEntries message; \<open>index\<close> is
  \<^verbatim>\<open>msg.prev_log_index + i + 1\<close>. \<open>Some c\<close> is the early return that refuses to overwrite
  a committed entry, with the commit index as the match index.
\<close>

fun append_entries_loop :: "nat \<Rightarrow> entry list \<Rightarrow> raft \<Rightarrow> nat option outcome" where
  "append_entries_loop index [] s = (Inr None, s)"
| "append_entries_loop index (e # es) s =
     (if index \<le> r_log_offset s then append_entries_loop (u64_inc index) es s
      else if index \<le> last_log_index s then
        if term_at s index \<noteq> entry_term e then
          if index \<le> r_commit_index s then (Inr (Some (r_commit_index s)), s)
          else
            (case wal_save_entry e
                    (s\<lparr>r_log := take (u64_dec (u64_sub index (r_log_offset s))) (r_log s) @ [e]\<rparr>) of
               (Inl x, s1) \<Rightarrow> (Inl x, s1)
             | (Inr _, s1) \<Rightarrow> append_entries_loop (u64_inc index) es s1)
        else append_entries_loop (u64_inc index) es s
      else
        (case wal_save_entry e (s\<lparr>r_log := r_log s @ [e]\<rparr>) of
           (Inl x, s1) \<Rightarrow> (Inl x, s1)
         | (Inr _, s1) \<Rightarrow> append_entries_loop (u64_inc index) es s1))"

definition log_ok :: "message \<Rightarrow> raft \<Rightarrow> bool" where
  "log_ok msg s \<longleftrightarrow>
     (if m_prev_log_index msg = 0 then True
      else if m_prev_log_index msg \<ge> r_log_offset s \<and> last_log_index s \<ge> m_prev_log_index msg
      then term_at s (m_prev_log_index msg) = m_prev_log_term msg
      else False)"

text \<open>The part of the handler after the entries are durable: success and the commit index.\<close>

definition append_entries_commit :: "message \<Rightarrow> message \<Rightarrow> raft \<Rightarrow> message \<times> raft" where
  "append_entries_commit msg response s =
     (let response1 = response\<lparr>m_success := True,
            m_match_index := u64_add (m_prev_log_index msg) (length (m_entries msg))\<rparr>
      in if m_leader_commit msg > r_commit_index s then
           (case persist_hard_state
                   (s\<lparr>r_commit_index := min (m_leader_commit msg) (last_log_index s)\<rparr>) of
              (ok, s1) \<Rightarrow>
                (if ok then (response1, s1)
                 else (response1\<lparr>m_success := False, m_term := r_term s1\<rparr>, s1)))
         else (response1, s))"

definition handle_append_entries :: "message \<Rightarrow> raft \<Rightarrow> message outcome" where
  "handle_append_entries msg s =
     (let response0 = default_message\<lparr>m_type := MsgAppendEntriesResponse, m_from := r_id s,
                        m_to := m_from msg, m_success := False,
                        m_read_context := m_read_context msg\<rparr>
      in case prepare_for_leader_rpc msg s of
           (False, s1) \<Rightarrow> (Inr (response0\<lparr>m_term := r_term s1\<rparr>), s1)
         | (True, s1) \<Rightarrow>
             let response = response0\<lparr>m_term := r_term s1\<rparr>
             in if \<not> log_ok msg s1 then (Inr (response\<lparr>m_match_index := 0\<rparr>), s1)
                else
                  (case append_entries_loop (u64_inc (m_prev_log_index msg)) (m_entries msg) s1 of
                     (Inl x, s2) \<Rightarrow> (Inl x, s2)
                   | (Inr (Some c), s2) \<Rightarrow> (Inr (response\<lparr>m_match_index := c\<rparr>), s2)
                   | (Inr None, s2) \<Rightarrow>
                       if r_wal s2 \<noteq> None \<and> m_entries msg \<noteq> [] then
                         (case sync_wal s2 of
                            (False, s3) \<Rightarrow> (Inr (response\<lparr>m_term := r_term s3\<rparr>), s3)
                          | (True, s3) \<Rightarrow>
                              (case append_entries_commit msg response s3 of
                                 (r, s4) \<Rightarrow> (Inr r, s4)))
                       else
                         (case append_entries_commit msg response s2 of
                            (r, s4) \<Rightarrow> (Inr r, s4))))"

text \<open>
  Advancing the commit index on the leader: every index above the commit index is looked
  at once, in order, and committed if it holds an entry of the current term that a
  majority of the nodes has.
\<close>

definition replicas :: "raft \<Rightarrow> nat \<Rightarrow> nat" where
  "replicas s i = 1 + length (filter (\<lambda>(_, p). p_match p \<ge> i) (r_progress s))"

definition advance_commit :: "raft \<Rightarrow> nat" where
  "advance_commit s =
     fold (\<lambda>i c. if entry_term (log_entry s i) \<noteq> r_term s then c
                 else if replicas s i > length (r_peers s) div 2 then i else c)
       [u64_inc (r_commit_index s)..<Suc (last_log_index s)] (r_commit_index s)"

definition set_match :: "nat \<Rightarrow> nat \<Rightarrow> raft \<Rightarrow> raft" where
  "set_match peer i s =
     s\<lparr>r_progress := umap_put (r_progress s) peer \<lparr>p_match = i, p_next = u64_inc i\<rparr>\<rparr>"

definition handle_append_entries_response :: "message \<Rightarrow> raft \<Rightarrow> raft" where
  "handle_append_entries_response msg s =
     (if misaddressed msg s then s
      else if m_term msg > r_term s then become_follower (m_term msg) 0 s
      else if r_storage_failed s then s
      else if r_state s \<noteq> Leader then s
      else if m_term msg < r_term s then s
      else if m_success msg then
        let s1 = set_match (m_from msg) (m_match_index msg) s;
            s2 = (if r_read_index_pending s1 \<and> m_read_context msg \<noteq> 0
                     \<and> m_read_context msg = r_pending_read_context s1
                  then s1\<lparr>r_read_index_acks := umap_put (r_read_index_acks s1) (m_from msg) True\<rparr>
                  else s1);
            s3 = s2\<lparr>r_commit_index := advance_commit s2\<rparr>
        in if r_commit_index s3 > r_commit_index s then snd (persist_hard_state s3) else s3
      else
        let p = umap_at (r_progress s) (m_from msg) default_progress;
            p' = (if p_next p > 1 then p\<lparr>p_next := u64_dec (p_next p)\<rparr> else p);
            s1 = s\<lparr>r_progress := umap_put (r_progress s) (m_from msg) p'\<rparr>
        in if r_log_offset s1 > 0 \<and> p_next p' \<le> r_log_offset s1
           then send (make_install_snapshot s1 (m_from msg)) s1
           else broadcast_heartbeat s1)"

subsection \<open>Proposals and the apply hand-off\<close>

definition propose :: "bytes \<Rightarrow> raft \<Rightarrow> nat option outcome" where
  "propose data s =
     (if r_state s \<noteq> Leader \<or> r_storage_failed s then (Inr None, s)
      else
        let e = \<lparr>entry_type = EntryNormal, entry_term = r_term s,
                 entry_index = u64_inc (last_log_index s), entry_data = data\<rparr>
        in case wal_save_entry e (s\<lparr>r_log := r_log s @ [e]\<rparr>) of
             (Inl x, s1) \<Rightarrow> (Inl x, s1)
           | (Inr _, s1) \<Rightarrow>
               (case sync_wal s1 of
                  (False, s2) \<Rightarrow> (Inr None, s2\<lparr>r_log := butlast (r_log s2)\<rparr>)
                | (True, s2) \<Rightarrow> (Inr (Some (entry_index e)), broadcast_heartbeat s2)))"

definition next_entry_to_apply :: "raft \<Rightarrow> entry option" where
  "next_entry_to_apply s =
     (if r_last_applied s \<ge> r_commit_index s then None
      else Some (log_entry s (u64_inc (r_last_applied s))))"

definition advance :: "nat \<Rightarrow> raft \<Rightarrow> raft" where
  "advance i s =
     (if i > r_commit_index s \<or> i \<noteq> u64_inc (r_last_applied s) then s
      else s\<lparr>r_last_applied := i\<rparr>)"

subsection \<open>Snapshots\<close>

definition should_snapshot :: "raft \<Rightarrow> bool" where
  "should_snapshot s \<longleftrightarrow>
     r_snapshot_threshold s > 0 \<and> r_last_applied s \<ge> r_last_snapshot_index s
     \<and> r_last_applied s - r_last_snapshot_index s \<ge> r_snapshot_threshold s"

text \<open>The position of the first entry newer than the snapshot, 0 if there is none.\<close>

fun keep_from :: "nat \<Rightarrow> nat \<Rightarrow> entry list \<Rightarrow> nat" where
  "keep_from applied i [] = 0"
| "keep_from applied i (e # es) =
     (if entry_index e > applied then i else keep_from applied (Suc i) es)"

definition compact_log :: "nat \<Rightarrow> entry list \<Rightarrow> entry list" where
  "compact_log applied log =
     (let k = keep_from applied 0 log
      in if k > 0 then drop k log
         else if log \<noteq> [] \<and> entry_index (last log) \<le> applied then [] else log)"

definition take_snapshot :: "nat \<Rightarrow> bytes \<Rightarrow> raft \<Rightarrow> unit outcome" where
  "take_snapshot applied_index state s =
     (if applied_index = 0 \<or> applied_index \<le> r_log_offset s \<or> applied_index > r_last_applied s
      then (Inr (), s)
      else
        let snap_t = term_at s applied_index;
            snap = \<lparr>snap_index = applied_index, snap_term = snap_t, snap_state = state,
                    snap_discard_suffix = False\<rparr>
        in case wal_save_snapshot snap s of
             (Inl x, s1) \<Rightarrow> (Inl x, s1)
           | (Inr _, s1) \<Rightarrow>
               (case sync_wal s1 of
                  (False, s2) \<Rightarrow> (Inr (), s2)
                | (True, s2) \<Rightarrow>
                    (Inr (), s2\<lparr>r_log := compact_log applied_index (r_log s2),
                                r_log_offset := applied_index, r_log_offset_term := snap_t,
                                r_last_snapshot_index := applied_index,
                                r_last_snapshot_data := state\<rparr>)))"

definition stale_snapshot :: "message \<Rightarrow> raft \<Rightarrow> bool" where
  "stale_snapshot msg s \<longleftrightarrow>
     r_commit_index s > m_snapshot_index msg \<or> r_last_applied s \<ge> m_snapshot_index msg"

definition handle_install_snapshot :: "message \<Rightarrow> raft \<Rightarrow> message outcome" where
  "handle_install_snapshot msg s =
     (let response0 = default_message\<lparr>m_type := MsgInstallSnapshotResponse, m_from := r_id s,
                        m_to := m_from msg, m_success := False\<rparr>
      in case prepare_for_leader_rpc msg s of
           (False, s1) \<Rightarrow> (Inr (response0\<lparr>m_term := r_term s1\<rparr>), s1)
         | (True, s1) \<Rightarrow>
             let response = response0\<lparr>m_term := r_term s1\<rparr>
             in if m_snapshot_index msg = 0 \<or> m_snapshot_term msg = 0
                   \<or> m_snapshot_term msg > m_term msg \<or> m_snapshot_data msg = []
                then (Inr response, s1)
                else if stale_snapshot msg s1
                then (Inr (response\<lparr>m_success := True,
                        m_match_index := max (r_commit_index s1) (r_last_applied s1)\<rparr>), s1)
                else
                  (case r_snapshot_restore s1 of
                     None \<Rightarrow> (Inr response, s1)
                   | Some callback \<Rightarrow>
                       if \<not> callback (m_snapshot_index msg) (m_snapshot_data msg)
                       then (Inr response, s1)
                       else
                         (case wal_save_snapshot
                                 \<lparr>snap_index = m_snapshot_index msg, snap_term = m_snapshot_term msg,
                                  snap_state = m_snapshot_data msg, snap_discard_suffix = True\<rparr> s1 of
                            (Inl x, s2) \<Rightarrow> (Inl x, s2)
                          | (Inr _, s2) \<Rightarrow>
                              (case sync_wal s2 of
                                 (False, s3) \<Rightarrow> (Inr (response\<lparr>m_term := r_term s3\<rparr>), s3)
                               | (True, s3) \<Rightarrow>
                                   (case persist_hard_state
                                           (s3\<lparr>r_log := [], r_log_offset := m_snapshot_index msg,
                                               r_log_offset_term := m_snapshot_term msg,
                                               r_last_snapshot_index := m_snapshot_index msg,
                                               r_last_snapshot_data := m_snapshot_data msg,
                                               r_last_applied := m_snapshot_index msg,
                                               r_commit_index := m_snapshot_index msg\<rparr>) of
                                      (False, s4) \<Rightarrow> (Inr (response\<lparr>m_term := r_term s4\<rparr>), s4)
                                    | (True, s4) \<Rightarrow>
                                        (Inr (response\<lparr>m_term := r_term s4, m_success := True,
                                                m_match_index := m_snapshot_index msg\<rparr>), s4))))))"

definition handle_install_snapshot_response :: "message \<Rightarrow> raft \<Rightarrow> raft" where
  "handle_install_snapshot_response msg s =
     (if misaddressed msg s then s
      else if m_term msg > r_term s then become_follower (m_term msg) 0 s
      else if r_state s \<noteq> Leader then s
      else if m_term msg < r_term s then s
      else if m_success msg
      then broadcast_heartbeat (set_match (m_from msg) (m_match_index msg) s)
      else s)"

subsection \<open>ReadIndex\<close>

definition pending_token :: "raft \<Rightarrow> read_index_token" where
  "pending_token s =
     \<lparr>ri_context = r_pending_read_context s, ri_safe_index = r_pending_read_index s\<rparr>"

definition finish_read_index :: "read_index_token \<Rightarrow> raft \<Rightarrow> raft" where
  "finish_read_index tok s =
     (if ri_context tok \<noteq> r_pending_read_context s \<or> ri_safe_index tok \<noteq> r_pending_read_index s
      then s
      else s\<lparr>r_read_index_pending := False, r_pending_read_index := 0,
             r_pending_read_context := 0, r_read_index_acks := []\<rparr>)"

definition read_index :: "raft \<Rightarrow> read_index_token option outcome" where
  "read_index s =
     (if r_state s \<noteq> Leader \<or> r_storage_failed s then (Inr None, s)
      else if r_read_index_pending s then (Inr (Some (pending_token s)), s)
      else
        let next_context = u64_inc (r_next_read_context s);
            s1 = s\<lparr>r_read_index_pending := True,
                   r_pending_read_context := r_next_read_context s,
                   r_next_read_context := (if next_context = 0 then 1 else next_context),
                   r_read_index_acks := []\<rparr>
        in if \<not> has_committed_entry_in_current_term s1 then
             (case propose [] (s1\<lparr>r_pending_read_index := u64_inc (last_log_index s1)\<rparr>) of
                (Inl x, s2) \<Rightarrow> (Inl x, s2)
              | (Inr None, s2) \<Rightarrow> (Inr None, finish_read_index (pending_token s2) s2)
              | (Inr (Some _), s2) \<Rightarrow> (Inr (Some (pending_token s2)), s2))
           else
             let s2 = broadcast_heartbeat (s1\<lparr>r_pending_read_index := r_commit_index s1\<rparr>)
             in (Inr (Some (pending_token s2)), s2))"

definition read_index_ready :: "read_index_token \<Rightarrow> raft \<Rightarrow> bool" where
  "read_index_ready tok s =
     (if r_state s \<noteq> Leader \<or> r_storage_failed s then False
      else if ri_context tok \<noteq> r_pending_read_context s
              \<or> ri_safe_index tok \<noteq> r_pending_read_index s then False
      else if \<not> has_committed_entry_in_current_term s then False
      else if r_last_applied s < ri_safe_index tok then False
      else 1 + count_true (r_read_index_acks s) \<ge> length (r_peers s) div 2 + 1)"

subsection \<open>The events of one node\<close>

text \<open>
  What the Raft loop of \<^verbatim>\<open>src/app/node_runtime.cpp\<close> does with a node: a timer tick, a
  received message (\<^verbatim>\<open>handle_raft_message\<close>, which queues the reply of the four request
  handlers), a proposal, a read, the end of a read round, an apply acknowledgement, and a
  captured snapshot. An exception leaves the loop, which stops the node.
\<close>

datatype event =
    Tick
  | Receive message
  | Propose bytes
  | Read_index
  | Finish_read read_index_token
  | Advance nat
  | Take_snapshot nat bytes

definition returns :: "raft \<Rightarrow> unit outcome" where
  "returns s = (Inr (), s)"

definition reply :: "message \<times> raft \<Rightarrow> unit outcome" where
  "reply x = returns (send (fst x) (snd x))"

definition reply_outcome :: "message outcome \<Rightarrow> unit outcome" where
  "reply_outcome x =
     (case x of (Inl e, s) \<Rightarrow> (Inl e, s) | (Inr m, s) \<Rightarrow> returns (send m s))"

definition drop_result :: "'a outcome \<Rightarrow> unit outcome" where
  "drop_result x = (case x of (Inl e, s) \<Rightarrow> (Inl e, s) | (Inr _, s) \<Rightarrow> returns s)"

definition handle_raft_message :: "message \<Rightarrow> raft \<Rightarrow> unit outcome" where
  "handle_raft_message msg s =
     (if m_type msg = MsgRequestVote then reply (handle_request_vote msg s)
      else if m_type msg = MsgRequestVoteResponse
      then returns (handle_request_vote_response msg s)
      else if m_type msg = MsgPreVote then reply (handle_pre_vote msg s)
      else if m_type msg = MsgPreVoteResponse then returns (handle_pre_vote_response msg s)
      else if m_type msg = MsgAppendEntries then reply_outcome (handle_append_entries msg s)
      else if m_type msg = MsgAppendEntriesResponse
      then returns (handle_append_entries_response msg s)
      else if m_type msg = MsgInstallSnapshot then reply_outcome (handle_install_snapshot msg s)
      else if m_type msg = MsgInstallSnapshotResponse
      then returns (handle_install_snapshot_response msg s)
      else returns s)"

fun raft_step :: "event \<Rightarrow> raft \<Rightarrow> unit outcome" where
  "raft_step Tick s = returns (tick s)"
| "raft_step (Receive msg) s = handle_raft_message msg s"
| "raft_step (Propose data) s = drop_result (propose data s)"
| "raft_step Read_index s = drop_result (read_index s)"
| "raft_step (Finish_read tok) s = returns (finish_read_index tok s)"
| "raft_step (Advance i) s = returns (advance i s)"
| "raft_step (Take_snapshot i state) s = take_snapshot i state s"

end
