(* ===== verification/Raft_Frame.thy ===== *)
theory Raft_Frame
  imports Raft_Log
begin

text \<open>
  Closed forms of the operations that every handler ends with. Each equation writes an
  operation as one explicit update of the state, so that the simplifier computes the
  fields it leaves alone; the collection \<open>closed_forms\<close> holds them.
\<close>

named_theorems closed_forms \<open>operations as one explicit state update\<close>

subsection \<open>The write-ahead log\<close>

definition sync_ok :: "raft \<Rightarrow> bool" where
  "sync_ok s \<longleftrightarrow> (case r_wal s of None \<Rightarrow> True | Some w \<Rightarrow> fst (wal_sync w))"

definition synced_wal :: "raft \<Rightarrow> wal option" where
  "synced_wal s = map_option (\<lambda>w. snd (wal_sync w)) (r_wal s)"

definition with_hard_state :: "raft \<Rightarrow> raft" where
  "with_hard_state s =
     s\<lparr>r_wal := map_option (save_hard_state (current_hard_state s)) (r_wal s)\<rparr>"

lemma sync_wal_eq [closed_forms]:
  "sync_wal s =
     (sync_ok s, s\<lparr>r_wal := synced_wal s, r_storage_failed := (r_storage_failed s \<or> \<not> sync_ok s)\<rparr>)"
  by (cases "r_wal s") (auto simp: sync_wal_def sync_ok_def synced_wal_def split: prod.split)

lemma persist_hard_state_eq [closed_forms]:
  "persist_hard_state s =
     (sync_ok (with_hard_state s),
      s\<lparr>r_wal := synced_wal (with_hard_state s),
        r_storage_failed := (r_storage_failed s \<or> \<not> sync_ok (with_hard_state s))\<rparr>)"
  by (cases "r_wal s")
    (auto simp: persist_hard_state_def with_hard_state_def sync_wal_eq sync_ok_def synced_wal_def)

definition save_result :: "(wal \<Rightarrow> exn + wal) \<Rightarrow> raft \<Rightarrow> exn + unit" where
  "save_result f s =
     (case r_wal s of None \<Rightarrow> Inr () | Some w \<Rightarrow> (case f w of Inl x \<Rightarrow> Inl x | Inr _ \<Rightarrow> Inr ()))"

definition saved_wal :: "(wal \<Rightarrow> exn + wal) \<Rightarrow> raft \<Rightarrow> wal option" where
  "saved_wal f s =
     (case r_wal s of None \<Rightarrow> None | Some w \<Rightarrow> (case f w of Inl _ \<Rightarrow> Some w | Inr w' \<Rightarrow> Some w'))"

lemma wal_save_entry_eq [closed_forms]:
  "wal_save_entry e s = (save_result (save_entry e) s, s\<lparr>r_wal := saved_wal (save_entry e) s\<rparr>)"
  by (auto simp: wal_save_entry_def save_result_def saved_wal_def split: option.split sum.split)

lemma wal_save_snapshot_eq [closed_forms]:
  "wal_save_snapshot sn s =
     (save_result (save_snapshot sn) s, s\<lparr>r_wal := saved_wal (save_snapshot sn) s\<rparr>)"
  by (auto simp: wal_save_snapshot_def save_result_def saved_wal_def split: option.split sum.split)

lemmas io_forms = sync_wal_eq persist_hard_state_eq wal_save_entry_eq wal_save_snapshot_eq

subsection \<open>Heartbeats\<close>

text \<open>The message a heartbeat round sends to one peer.\<close>

definition heartbeat_msg :: "raft \<Rightarrow> nat \<Rightarrow> message" where
  "heartbeat_msg s peer =
     (let next_index = p_next (umap_at (r_progress s) peer default_progress)
      in if next_index \<le> r_log_offset s then make_install_snapshot s peer
         else make_append_entries s peer next_index)"

definition other_peers :: "raft \<Rightarrow> nat list" where
  "other_peers s = filter (\<lambda>p. p \<noteq> r_id s) (r_peers s)"

definition touched_progress :: "nat list \<Rightarrow> progress umap \<Rightarrow> progress umap" where
  "touched_progress ps m = fold (\<lambda>p m. umap_touch m p default_progress) ps m"

lemma log_fields_cong:
  assumes "r_log s' = r_log s" "r_log_offset s' = r_log_offset s"
    "r_log_offset_term s' = r_log_offset_term s"
  shows "last_log_index s' = last_log_index s" "log_entry s' = log_entry s"
    "term_at s' = term_at s" "last_log_term s' = last_log_term s"
  using assms
  by (auto simp: last_log_index_def log_entry_def term_at_def last_log_term_def fun_eq_iff)

lemma heartbeat_msg_cong:
  assumes "s' = s\<lparr>r_progress := m, r_msgs := ms\<rparr>"
    and "umap_at m p default_progress = umap_at (r_progress s) p default_progress"
  shows "heartbeat_msg s' p = heartbeat_msg s p"
  using assms log_fields_cong [of s' s]
  by (simp add: heartbeat_msg_def make_install_snapshot_def make_append_entries_def Let_def)

lemma umap_at_touched [umap_simps]:
  "umap_at (touched_progress ps m) p default_progress = umap_at m p default_progress"
  by (induction ps arbitrary: m) (auto simp: touched_progress_def umap_simps)

lemma heartbeat_peer_eq:
  "heartbeat_peer p s =
     (if p = r_id s then s
      else s\<lparr>r_progress := umap_touch (r_progress s) p default_progress,
             r_msgs := r_msgs s @ [heartbeat_msg s p]\<rparr>)"
proof -
  let ?s1 = "s\<lparr>r_progress := umap_touch (r_progress s) p default_progress\<rparr>"
  have "heartbeat_msg ?s1 p = heartbeat_msg s p"
    by (rule heartbeat_msg_cong [where ms = "r_msgs s" and m = "r_progress ?s1"])
      (simp_all add: umap_simps)
  then show ?thesis
    by (auto simp: heartbeat_peer_def heartbeat_msg_def send_def Let_def umap_simps split: if_splits)
qed

lemma fold_heartbeat_peer:
  "fold heartbeat_peer ps s =
     s\<lparr>r_progress := touched_progress (filter (\<lambda>p. p \<noteq> r_id s) ps) (r_progress s),
       r_msgs := r_msgs s @ map (heartbeat_msg s) (filter (\<lambda>p. p \<noteq> r_id s) ps)\<rparr>"
proof (induction ps arbitrary: s)
  case Nil
  show ?case by (simp add: touched_progress_def)
next
  case (Cons p ps)
  let ?m = "umap_touch (r_progress s) p default_progress"
  let ?s1 = "s\<lparr>r_progress := ?m, r_msgs := r_msgs s @ [heartbeat_msg s p]\<rparr>"
  have "heartbeat_msg ?s1 q = heartbeat_msg s q" for q
    by (rule heartbeat_msg_cong [where ms = "r_msgs ?s1" and m = ?m]) (simp_all add: umap_simps)
  then have hb: "heartbeat_msg ?s1 = heartbeat_msg s" by (simp add: fun_eq_iff)
  show ?case
    using Cons.IH [of ?s1] Cons.IH [of s] hb
    by (simp add: heartbeat_peer_eq touched_progress_def)
qed

lemma broadcast_heartbeat_eq [closed_forms]:
  "broadcast_heartbeat s =
     s\<lparr>r_progress := touched_progress (other_peers s) (r_progress s),
       r_msgs := r_msgs s @ map (heartbeat_msg s) (other_peers s)\<rparr>"
  by (simp add: broadcast_heartbeat_def fold_heartbeat_peer other_peers_def)

subsection \<open>Role changes\<close>

text \<open>The two forms of a step down: to a newer term, and within the current one.\<close>

lemma become_follower_newer [closed_forms]:
  "t > r_term s \<Longrightarrow>
   become_follower t l s =
     snd (persist_hard_state (reset_randomized_election_timeout
       (s\<lparr>r_state := Follower, r_term := t, r_lead := l, r_voted_for := 0,
          r_read_index_pending := False, r_pending_read_index := 0,
          r_pending_read_context := 0, r_read_index_acks := [],
          r_pending_pre_vote_term := 0\<rparr>)))"
  by (simp add: become_follower_def Let_def)

lemma become_follower_same [closed_forms]:
  "become_follower (r_term s) l s =
     reset_randomized_election_timeout
       (s\<lparr>r_state := Follower, r_lead := l, r_read_index_pending := False,
          r_pending_read_index := 0, r_pending_read_context := 0, r_read_index_acks := [],
          r_pending_pre_vote_term := 0\<rparr>)"
  by (simp add: become_follower_def Let_def)

end
