(* ===== verification/Raft_Inv.thy ===== *)
theory Raft_Inv
  imports Raft_Frame
begin

text \<open>
  The well-formedness invariant of a node and its preservation by every event.
\<close>

subsection \<open>The invariant\<close>

definition log_end :: "raft \<Rightarrow> nat" where
  "log_end s = r_log_offset s + length (r_log s)"

definition config_wf :: "raft \<Rightarrow> bool" where
  "config_wf s \<longleftrightarrow>
     length (r_peers s) = 3 \<and> distinct (r_peers s) \<and> 0 \<notin> set (r_peers s)
     \<and> r_id s \<in> set (r_peers s) \<and> 0 < r_election_timeout s \<and> 0 < r_heartbeat_timeout s"

definition log_wf :: "raft \<Rightarrow> bool" where
  "log_wf s \<longleftrightarrow>
     (\<forall>k < length (r_log s). entry_index (r_log s ! k) = r_log_offset s + Suc k)
     \<and> r_log_offset s \<le> r_last_applied s \<and> r_last_applied s \<le> r_commit_index s
     \<and> r_commit_index s \<le> log_end s \<and> log_end s + 1 < two64
     \<and> r_last_snapshot_index s = r_log_offset s"

definition maps_wf :: "raft \<Rightarrow> bool" where
  "maps_wf s \<longleftrightarrow>
     umap_ok (r_votes s) \<and> fst ` set (r_votes s) \<subseteq> set (r_peers s)
     \<and> umap_ok (r_pre_votes s) \<and> fst ` set (r_pre_votes s) \<subseteq> set (r_peers s)
     \<and> umap_ok (r_read_index_acks s) \<and> fst ` set (r_read_index_acks s) \<subseteq> set (other_peers s)
     \<and> umap_ok (r_progress s) \<and> fst ` set (r_progress s) \<subseteq> set (other_peers s)
     \<and> (\<forall>p. p_next (umap_at (r_progress s) p default_progress) < two64)"

definition raft_wf :: "raft \<Rightarrow> bool" where
  "raft_wf s \<longleftrightarrow> config_wf s \<and> log_wf s \<and> maps_wf s \<and> r_term s < two64"

definition msg_wf :: "message \<Rightarrow> bool" where
  "msg_wf m \<longleftrightarrow>
     m_term m < two64
     \<and> (\<forall>k < length (m_entries m). entry_index (m_entries m ! k) = m_prev_log_index m + Suc k)
     \<and> m_prev_log_index m + length (m_entries m) + 1 < two64
     \<and> m_snapshot_index m + 1 < two64"

definition out_wf :: "raft \<Rightarrow> bool" where
  "out_wf s \<longleftrightarrow> (\<forall>m \<in> set (r_msgs s). msg_wf m)"

lemmas wf_defs = raft_wf_def config_wf_def log_wf_def maps_wf_def log_end_def other_peers_def

subsection \<open>Log access under the invariant\<close>

lemma last_log_index_end: "log_wf s \<Longrightarrow> last_log_index s = log_end s"
  by (simp add: last_log_index_def log_wf_def log_end_def wrap_simps)

lemma log_pos:
  assumes "log_wf s" "r_log_offset s < i" "i \<le> log_end s"
  shows "u64_dec (u64_sub i (r_log_offset s)) = i - r_log_offset s - 1"
    and "i - r_log_offset s - 1 < length (r_log s)"
  using assms by (auto simp: log_wf_def log_end_def wrap_simps)

lemma log_entry_nth:
  assumes "log_wf s" "r_log_offset s < i" "i \<le> log_end s"
  shows "log_entry s i = r_log s ! (i - r_log_offset s - 1)"
  by (simp only: log_entry_def log_pos(1) [OF assms])

lemma log_entry_index:
  assumes "log_wf s" "r_log_offset s < i" "i \<le> log_end s"
  shows "entry_index (log_entry s i) = i"
proof -
  have "entry_index (r_log s ! (i - r_log_offset s - 1)) = r_log_offset s + Suc (i - r_log_offset s - 1)"
    using assms log_pos(2) [OF assms] by (auto simp: log_wf_def)
  with assms show ?thesis by (simp add: log_entry_nth)
qed

lemma term_at_entry:
  assumes "log_wf s" "r_log_offset s < i" "i \<le> log_end s"
  shows "term_at s i = entry_term (r_log s ! (i - r_log_offset s - 1))"
  using assms by (simp add: term_at_def last_log_index_end log_entry_nth)

lemma log_suffix:
  assumes "log_wf s" "r_log_offset s < n" "n \<le> Suc (log_end s)"
  shows "map (log_entry s) [n..<Suc (log_end s)] = drop (n - r_log_offset s - 1) (r_log s)"
proof (rule nth_equalityI)
  show "length (map (log_entry s) [n..<Suc (log_end s)]) = length (drop (n - r_log_offset s - 1) (r_log s))"
    using assms by (simp add: log_end_def del: upt_Suc)
next
  fix k assume "k < length (map (log_entry s) [n..<Suc (log_end s)])"
  then have k: "k < Suc (log_end s) - n" by (simp del: upt_Suc)
  then have "log_entry s (n + k) = r_log s ! (n + k - r_log_offset s - 1)"
    using assms by (intro log_entry_nth) auto
  moreover have "n + k - r_log_offset s - 1 = n - r_log_offset s - 1 + k"
    using assms by auto
  ultimately show "map (log_entry s) [n..<Suc (log_end s)] ! k
      = drop (n - r_log_offset s - 1) (r_log s) ! k"
    using k assms by (simp add: log_end_def del: upt_Suc)
qed

subsection \<open>Fields the invariant does not read\<close>

lemma raft_wf_irrelevant [simp]:
  "raft_wf (reset_randomized_election_timeout s) = raft_wf s"
  "raft_wf (s\<lparr>r_lead := l\<rparr>) = raft_wf s"
  "raft_wf (s\<lparr>r_voted_for := v\<rparr>) = raft_wf s"
  "raft_wf (s\<lparr>r_state := st\<rparr>) = raft_wf s"
  "raft_wf (s\<lparr>r_log_offset_term := t\<rparr>) = raft_wf s"
  "raft_wf (s\<lparr>r_election_elapsed := n\<rparr>) = raft_wf s"
  "raft_wf (s\<lparr>r_heartbeat_elapsed := n\<rparr>) = raft_wf s"
  "raft_wf (s\<lparr>r_pending_pre_vote_term := t\<rparr>) = raft_wf s"
  "raft_wf (s\<lparr>r_read_index_pending := b\<rparr>) = raft_wf s"
  "raft_wf (s\<lparr>r_pending_read_index := n\<rparr>) = raft_wf s"
  "raft_wf (s\<lparr>r_pending_read_context := n\<rparr>) = raft_wf s"
  "raft_wf (s\<lparr>r_next_read_context := n\<rparr>) = raft_wf s"
  "raft_wf (s\<lparr>r_last_snapshot_data := d\<rparr>) = raft_wf s"
  "raft_wf (s\<lparr>r_wal := w\<rparr>) = raft_wf s"
  "raft_wf (s\<lparr>r_storage_failed := b\<rparr>) = raft_wf s"
  "raft_wf (s\<lparr>r_msgs := ms\<rparr>) = raft_wf s"
  by (simp_all add: wf_defs reset_randomized_election_timeout_def)

lemma raft_wf_clears:
  "raft_wf s \<Longrightarrow> raft_wf (s\<lparr>r_votes := []\<rparr>)"
  "raft_wf s \<Longrightarrow> raft_wf (s\<lparr>r_pre_votes := []\<rparr>)"
  "raft_wf s \<Longrightarrow> raft_wf (s\<lparr>r_read_index_acks := []\<rparr>)"
  "raft_wf s \<Longrightarrow> t < two64 \<Longrightarrow> raft_wf (s\<lparr>r_term := t\<rparr>)"
  by (simp_all add: wf_defs)

lemma raft_wf_sync [simp]:
  "raft_wf (snd (sync_wal s)) = raft_wf s"
  "raft_wf (snd (persist_hard_state s)) = raft_wf s"
  by (simp_all add: closed_forms)

lemma out_wf_sync [simp]:
  "out_wf (snd (sync_wal s)) = out_wf s"
  "out_wf (snd (persist_hard_state s)) = out_wf s"
  "out_wf (reset_randomized_election_timeout s) = out_wf s"
  by (simp_all add: closed_forms out_wf_def reset_randomized_election_timeout_def)

subsection \<open>Role changes\<close>

lemma become_follower_wf:
  "raft_wf s \<Longrightarrow> t < two64 \<Longrightarrow> raft_wf (become_follower t l s)"
  by (simp add: become_follower_def Let_def raft_wf_clears)

lemma become_follower_out [simp]: "r_msgs (become_follower t l s) = r_msgs s"
  by (simp add: become_follower_def Let_def closed_forms reset_randomized_election_timeout_def)

lemma prepare_for_leader_rpc_wf:
  "raft_wf s \<Longrightarrow> m_term msg < two64 \<Longrightarrow> raft_wf (snd (prepare_for_leader_rpc msg s))"
  by (auto simp: prepare_for_leader_rpc_def Let_def become_follower_wf)

lemma prepare_for_leader_rpc_out [simp]:
  "r_msgs (snd (prepare_for_leader_rpc msg s)) = r_msgs s"
  by (auto simp: prepare_for_leader_rpc_def Let_def reset_randomized_election_timeout_def)

lemma become_pre_candidate_wf: "raft_wf s \<Longrightarrow> raft_wf (become_pre_candidate s)"
  by (simp add: become_pre_candidate_def raft_wf_clears)

lemma become_candidate_wf: "raft_wf s \<Longrightarrow> raft_wf (become_candidate s)"
  by (simp add: become_candidate_def raft_wf_clears)


subsection \<open>Heartbeats\<close>

lemma touched_progress_keys [umap_simps]:
  "fst ` set (touched_progress ps m) = set ps \<union> fst ` set m"
  by (induction ps arbitrary: m) (auto simp: touched_progress_def umap_simps)

lemma touched_progress_ok [simp]: "umap_ok m \<Longrightarrow> umap_ok (touched_progress ps m)"
  by (induction ps arbitrary: m) (auto simp: touched_progress_def)

lemma make_install_snapshot_wf: "raft_wf s \<Longrightarrow> msg_wf (make_install_snapshot s p)"
  by (auto simp: msg_wf_def make_install_snapshot_def default_message_def wf_defs)

lemma make_append_entries_wf:
  assumes wf: "raft_wf s" and n: "r_log_offset s < n" "n < two64"
  shows "msg_wf (make_append_entries s p n)"
proof (cases "n \<le> Suc (log_end s)")
  case True
  let ?es = "drop (n - r_log_offset s - 1) (r_log s)"
  have lw: "log_wf s" using wf by (simp add: raft_wf_def)
  have prev: "u64_dec n = n - 1" using n by (simp add: wrap_simps)
  have "entry_index (?es ! k) = n - 1 + Suc k" if "k < length ?es" for k
  proof -
    have "r_log_offset s + Suc (n - r_log_offset s - 1 + k) = n - 1 + Suc k" using n by simp
    then show ?thesis using that lw by (simp add: log_wf_def)
  qed
  moreover have "n - 1 + length ?es = log_end s" using n True by (simp add: log_end_def)
  ultimately show ?thesis
    using wf True n prev
    by (simp add: msg_wf_def make_append_entries_def Let_def last_log_index_end [OF lw]
        log_suffix [OF lw] default_message_def raft_wf_def log_wf_def del: upt_Suc)
next
  case False
  then show ?thesis
    using wf n
    by (simp add: msg_wf_def make_append_entries_def Let_def last_log_index_end raft_wf_def
        default_message_def wrap_simps)
qed

lemma heartbeat_msg_wf: "raft_wf s \<Longrightarrow> msg_wf (heartbeat_msg s p)"
  by (auto simp: heartbeat_msg_def Let_def raft_wf_def maps_wf_def
      intro!: make_install_snapshot_wf make_append_entries_wf)

lemma broadcast_heartbeat_wf:
  assumes "raft_wf s"
  shows "raft_wf (broadcast_heartbeat s)"
  using assms by (auto simp: closed_forms wf_defs umap_simps)

lemma broadcast_heartbeat_out: "raft_wf s \<Longrightarrow> out_wf s \<Longrightarrow> out_wf (broadcast_heartbeat s)"
  by (auto simp: closed_forms out_wf_def heartbeat_msg_wf)

lemma fold_put_progress:
  fixes v :: progress
  defines "f \<equiv> \<lambda>i q m. if q = i then m else umap_put m q v"
  shows "umap_ok m \<Longrightarrow> umap_ok (fold (f i) ps m)"
    and "fst ` set (fold (f i) ps m) = fst ` set m \<union> {q \<in> set ps. q \<noteq> i}"
    and "umap_at (fold (f i) ps m) q d = (if q \<in> set ps \<and> q \<noteq> i then v else umap_at m q d)"
  by (induction ps arbitrary: m) (auto simp: f_def umap_simps)

lemma become_leader_wf:
  assumes "raft_wf s"
  shows "raft_wf (become_leader s)"
  unfolding become_leader_def
  using assms by (intro broadcast_heartbeat_wf)
    (auto simp: wf_defs fold_put_progress default_progress_def umap_at_def [of "[]"])

lemma become_leader_out:
  assumes "raft_wf s" "out_wf s"
  shows "out_wf (become_leader s)"
  unfolding become_leader_def
  using assms by (intro broadcast_heartbeat_out)
    (auto simp: wf_defs out_wf_def fold_put_progress default_progress_def umap_at_def [of "[]"])


subsection \<open>Elections\<close>

definition node_wf :: "raft \<Rightarrow> bool" where
  "node_wf s \<longleftrightarrow> raft_wf s \<and> out_wf s"

lemma msg_wf_plain:
  "m_entries m = [] \<Longrightarrow> m_prev_log_index m = 0 \<Longrightarrow> m_snapshot_index m = 0
   \<Longrightarrow> m_term m < two64 \<Longrightarrow> msg_wf m"
  by (simp add: msg_wf_def two64_def)

lemma node_wf_send: "node_wf s \<Longrightarrow> msg_wf m \<Longrightarrow> node_wf (send m s)"
  by (auto simp: node_wf_def out_wf_def send_def)

lemma out_wf_cong: "r_msgs s' = r_msgs s \<Longrightarrow> out_wf s' = out_wf s"
  by (simp add: out_wf_def)

lemma raft_wf_set_maps:
  "raft_wf s \<Longrightarrow> umap_ok v \<Longrightarrow> fst ` set v \<subseteq> set (r_peers s) \<Longrightarrow> raft_wf (s\<lparr>r_votes := v\<rparr>)"
  "raft_wf s \<Longrightarrow> umap_ok v \<Longrightarrow> fst ` set v \<subseteq> set (r_peers s) \<Longrightarrow> raft_wf (s\<lparr>r_pre_votes := v\<rparr>)"
  "raft_wf s \<Longrightarrow> umap_ok v \<Longrightarrow> fst ` set v \<subseteq> set (other_peers s) \<Longrightarrow>
     raft_wf (s\<lparr>r_read_index_acks := v\<rparr>)"
  "raft_wf s \<Longrightarrow> umap_ok m \<Longrightarrow> fst ` set m \<subseteq> set (other_peers s) \<Longrightarrow>
     \<forall>p. p_next (umap_at m p default_progress) < two64 \<Longrightarrow> raft_wf (s\<lparr>r_progress := m\<rparr>)"
  by (simp_all add: wf_defs)

lemma raft_wf_maps:
  assumes "raft_wf s"
  shows "umap_ok (r_votes s)" "fst ` set (r_votes s) \<subseteq> set (r_peers s)"
    "umap_ok (r_pre_votes s)" "fst ` set (r_pre_votes s) \<subseteq> set (r_peers s)"
    "umap_ok (r_read_index_acks s)" "fst ` set (r_read_index_acks s) \<subseteq> set (other_peers s)"
    "umap_ok (r_progress s)" "fst ` set (r_progress s) \<subseteq> set (other_peers s)"
    "p_next (umap_at (r_progress s) p default_progress) < two64"
    "r_term s < two64" "r_id s \<in> set (r_peers s)" "log_wf s"
  using assms by (simp_all add: wf_defs)

lemma not_misaddressed:
  "\<not> misaddressed msg s \<Longrightarrow>
     m_to msg = r_id s \<and> m_from msg \<noteq> r_id s \<and> m_from msg \<in> set (r_peers s)
     \<and> m_from msg \<in> set (other_peers s)"
  by (auto simp: misaddressed_def is_member_def other_peers_def)

lemma vote_request_wf: "t < two64 \<Longrightarrow> msg_wf (vote_request ty t s p)"
  by (rule msg_wf_plain) (simp_all add: vote_request_def default_message_def)

lemma node_wf_irrelevant [simp]:
  "node_wf (reset_randomized_election_timeout s) = node_wf s"
  "node_wf (s\<lparr>r_lead := l\<rparr>) = node_wf s"
  "node_wf (s\<lparr>r_voted_for := v\<rparr>) = node_wf s"
  "node_wf (s\<lparr>r_state := st\<rparr>) = node_wf s"
  "node_wf (s\<lparr>r_log_offset_term := t\<rparr>) = node_wf s"
  "node_wf (s\<lparr>r_election_elapsed := n\<rparr>) = node_wf s"
  "node_wf (s\<lparr>r_heartbeat_elapsed := n\<rparr>) = node_wf s"
  "node_wf (s\<lparr>r_pending_pre_vote_term := t\<rparr>) = node_wf s"
  "node_wf (s\<lparr>r_read_index_pending := b\<rparr>) = node_wf s"
  "node_wf (s\<lparr>r_pending_read_index := n\<rparr>) = node_wf s"
  "node_wf (s\<lparr>r_pending_read_context := n\<rparr>) = node_wf s"
  "node_wf (s\<lparr>r_next_read_context := n\<rparr>) = node_wf s"
  "node_wf (s\<lparr>r_last_snapshot_data := d\<rparr>) = node_wf s"
  "node_wf (s\<lparr>r_wal := w\<rparr>) = node_wf s"
  "node_wf (s\<lparr>r_storage_failed := b\<rparr>) = node_wf s"
  by (simp_all add: node_wf_def) (simp_all add: out_wf_def)

lemma node_wf_sync [simp]:
  "node_wf (snd (sync_wal s)) = node_wf s"
  "node_wf (snd (persist_hard_state s)) = node_wf s"
  by (simp_all add: node_wf_def)

lemma node_wf_maps:
  "node_wf s \<Longrightarrow> umap_ok v \<Longrightarrow> fst ` set v \<subseteq> set (r_peers s) \<Longrightarrow> node_wf (s\<lparr>r_votes := v\<rparr>)"
  "node_wf s \<Longrightarrow> umap_ok v \<Longrightarrow> fst ` set v \<subseteq> set (r_peers s) \<Longrightarrow> node_wf (s\<lparr>r_pre_votes := v\<rparr>)"
  "node_wf s \<Longrightarrow> umap_ok v \<Longrightarrow> fst ` set v \<subseteq> set (other_peers s) \<Longrightarrow>
     node_wf (s\<lparr>r_read_index_acks := v\<rparr>)"
  "node_wf s \<Longrightarrow> umap_ok m \<Longrightarrow> fst ` set m \<subseteq> set (other_peers s) \<Longrightarrow>
     \<forall>p. p_next (umap_at m p default_progress) < two64 \<Longrightarrow> node_wf (s\<lparr>r_progress := m\<rparr>)"
  "node_wf s \<Longrightarrow> t < two64 \<Longrightarrow> node_wf (s\<lparr>r_term := t\<rparr>)"
  by (simp_all add: node_wf_def raft_wf_set_maps raft_wf_clears) (simp_all add: out_wf_def)

lemma node_wf_raft: "node_wf s \<Longrightarrow> raft_wf s"
  by (simp add: node_wf_def)

lemma node_wf_out:
  "node_wf s \<Longrightarrow> \<forall>m \<in> set ms. msg_wf m \<Longrightarrow> node_wf (s\<lparr>r_msgs := r_msgs s @ ms\<rparr>)"
  by (auto simp: node_wf_def out_wf_def)

lemma pre_campaign_wf:
  assumes "node_wf s"
  shows "node_wf (pre_campaign s)"
proof -
  let ?s1 = "s\<lparr>r_pending_pre_vote_term := u64_inc (r_term s),
               r_pre_votes := umap_put (r_pre_votes s) (r_id s) True\<rparr>"
  have "node_wf ?s1"
    using assms raft_wf_maps [OF node_wf_raft [OF assms]]
    by (intro node_wf_maps) (auto simp: umap_simps)
  from node_wf_out [OF this] show ?thesis
    using assms by (auto simp: pre_campaign_def Let_def vote_request_wf)
qed

lemma campaign_wf:
  assumes "node_wf s"
  shows "node_wf (campaign s)"
proof -
  let ?s1 = "s\<lparr>r_votes := umap_put (r_votes s) (r_id s) True\<rparr>"
  have "node_wf ?s1"
    using assms raft_wf_maps [OF node_wf_raft [OF assms]]
    by (intro node_wf_maps) (auto simp: umap_simps)
  from node_wf_out [OF this] show ?thesis
    using assms raft_wf_maps(10) [OF node_wf_raft [OF assms]]
    by (auto simp: campaign_def Let_def vote_request_wf)
qed

lemma become_pre_candidate_node: "node_wf s \<Longrightarrow> node_wf (become_pre_candidate s)"
  by (simp add: become_pre_candidate_def node_wf_maps)

lemma become_candidate_node: "node_wf s \<Longrightarrow> node_wf (become_candidate s)"
  by (simp add: become_candidate_def node_wf_maps)

lemma become_follower_node: "node_wf s \<Longrightarrow> t < two64 \<Longrightarrow> node_wf (become_follower t l s)"
  by (simp add: become_follower_def Let_def node_wf_maps)

lemma broadcast_heartbeat_node: "node_wf s \<Longrightarrow> node_wf (broadcast_heartbeat s)"
  by (simp add: node_wf_def broadcast_heartbeat_wf broadcast_heartbeat_out)

lemma become_leader_node: "node_wf s \<Longrightarrow> node_wf (become_leader s)"
  by (simp add: node_wf_def become_leader_wf become_leader_out)

lemma tick_wf: "node_wf s \<Longrightarrow> node_wf (tick s)"
  by (simp add: tick_def Let_def broadcast_heartbeat_node pre_campaign_wf become_pre_candidate_node)

lemma reply_wf:
  "node_wf (snd x) \<Longrightarrow> msg_wf (fst x) \<Longrightarrow> node_wf (snd (reply x))"
  by (simp add: reply_def returns_def node_wf_send)

lemma handle_request_vote_wf:
  assumes "node_wf s" "m_term msg < two64"
  shows "node_wf (snd (handle_request_vote msg s))"
  using assms
  by (simp add: handle_request_vote_def Let_def case_prod_beta become_follower_node)

lemma handle_request_vote_fields:
  "m_entries (fst (handle_request_vote msg s)) = []"
  "m_prev_log_index (fst (handle_request_vote msg s)) = 0"
  "m_snapshot_index (fst (handle_request_vote msg s)) = 0"
  "m_term (fst (handle_request_vote msg s)) = r_term (snd (handle_request_vote msg s))"
  by (simp_all add: handle_request_vote_def Let_def case_prod_beta default_message_def)

lemma handle_request_vote_response_wf:
  assumes "node_wf s" "m_term msg < two64"
  shows "node_wf (handle_request_vote_response msg s)"
proof -
  have "node_wf (s\<lparr>r_votes := umap_put (r_votes s) (m_from msg) True\<rparr>)"
    if "\<not> misaddressed msg s"
    using assms(1) not_misaddressed [OF that] raft_wf_maps [OF node_wf_raft [OF assms(1)]]
    by (intro node_wf_maps) (auto simp: umap_simps)
  then show ?thesis
    using assms
    by (simp add: handle_request_vote_response_def Let_def become_follower_node become_leader_node)
qed

lemma handle_pre_vote_state [simp]: "snd (handle_pre_vote msg s) = s"
  by (simp add: handle_pre_vote_def Let_def)

lemma handle_pre_vote_fields:
  "m_entries (fst (handle_pre_vote msg s)) = []"
  "m_prev_log_index (fst (handle_pre_vote msg s)) = 0"
  "m_snapshot_index (fst (handle_pre_vote msg s)) = 0"
  "m_term (fst (handle_pre_vote msg s)) = r_term s"
  by (simp_all add: handle_pre_vote_def Let_def default_message_def)

lemma handle_pre_vote_response_wf:
  assumes "node_wf s" "m_term msg < two64"
  shows "node_wf (handle_pre_vote_response msg s)"
proof -
  have "node_wf (s\<lparr>r_pre_votes := umap_put (r_pre_votes s) (m_from msg) True\<rparr>)"
    if "\<not> misaddressed msg s"
    using assms(1) not_misaddressed [OF that] raft_wf_maps [OF node_wf_raft [OF assms(1)]]
    by (intro node_wf_maps) (auto simp: umap_simps)
  then show ?thesis
    using assms
    by (simp add: handle_pre_vote_response_def Let_def become_follower_node
        campaign_wf become_candidate_node)
qed

end
