(* ===== verification/Raft_Log_Inv.thy ===== *)
theory Raft_Log_Inv
  imports Raft_Inv
begin

text \<open>
  Replication, snapshots and reads keep the invariant of \<open>Raft_Inv\<close>; the log surgery of
  the code (the AppendEntries loop, the commit scan, the compaction scan) as closed
  operations on lists.
\<close>

subsection \<open>The AppendEntries loop\<close>

lemma save_outcome_cases:
  obtains (thrown) x where "save_result f s = Inl x"
  | (saved) "save_result f s = Inr ()"
  by (cases "save_result f s") auto

text \<open>The loop touches the log and the write buffer only.\<close>

lemma append_entries_loop_frame:
  "\<exists>r l w. append_entries_loop i es s = (r, s\<lparr>r_log := l, r_wal := w\<rparr>)"
proof (induction es arbitrary: i s)
  case Nil
  have "s = s\<lparr>r_log := r_log s, r_wal := r_wal s\<rparr>" by simp
  then show ?case by (metis append_entries_loop.simps(1))
next
  case (Cons e es)
  have step: "\<exists>r l w. (case wal_save_entry e (s\<lparr>r_log := l0\<rparr>) of
               (Inl x, s1) \<Rightarrow> (Inl x, s1)
             | (Inr _, s1) \<Rightarrow> append_entries_loop (u64_inc i) es s1) = (r, s\<lparr>r_log := l, r_wal := w\<rparr>)"
    for l0
  proof -
    let ?s1 = "s\<lparr>r_log := l0, r_wal := saved_wal (save_entry e) (s\<lparr>r_log := l0\<rparr>)\<rparr>"
    obtain r l w where "append_entries_loop (u64_inc i) es ?s1 = (r, ?s1\<lparr>r_log := l, r_wal := w\<rparr>)"
      using Cons.IH by blast
    then have "append_entries_loop (u64_inc i) es ?s1 = (r, s\<lparr>r_log := l, r_wal := w\<rparr>)"
      by simp
    then show ?thesis
      by (cases "save_result (save_entry e) (s\<lparr>r_log := l0\<rparr>)") (auto simp: closed_forms)
  qed
  have same: "\<exists>r l w. (Inr (Some (r_commit_index s)), s) = (r :: exn + nat option, s\<lparr>r_log := l, r_wal := w\<rparr>)"
    by (rule exI [of _ "Inr (Some (r_commit_index s))"], rule exI [of _ "r_log s"],
        rule exI [of _ "r_wal s"]) simp
  show ?case
    using Cons.IH [of "u64_inc i" s] step same by simp
qed

text \<open>
  What the loop does to a well-formed log, when the entries carry the indices
  \<open>i\<close>, \<open>i + 1\<close>, \dots{} and leave no gap.
\<close>

definition entries_from :: "nat \<Rightarrow> entry list \<Rightarrow> bool" where
  "entries_from i es \<longleftrightarrow> (\<forall>k < length es. entry_index (es ! k) = i + k)"

lemma entries_from_Cons [simp]:
  "entries_from i (e # es) \<longleftrightarrow> entry_index e = i \<and> entries_from (Suc i) es"
  by (auto simp: entries_from_def nth_Cons less_Suc_eq_0_disj split: nat.splits)

lemma entries_from_Nil [simp]: "entries_from i []"
  by (simp add: entries_from_def)

lemma log_wf_alt:
  "log_wf s \<longleftrightarrow> entries_from (Suc (r_log_offset s)) (r_log s)
     \<and> r_log_offset s \<le> r_last_applied s \<and> r_last_applied s \<le> r_commit_index s
     \<and> r_commit_index s \<le> log_end s \<and> log_end s + 1 < two64
     \<and> r_last_snapshot_index s = r_log_offset s"
  by (simp add: log_wf_def entries_from_def)

lemma entries_from_append [simp]:
  "entries_from i (xs @ ys) \<longleftrightarrow> entries_from i xs \<and> entries_from (i + length xs) ys"
  by (induction xs arbitrary: i) auto

lemma entries_from_take [simp]: "entries_from i xs \<Longrightarrow> entries_from i (take n xs)"
  by (simp add: entries_from_def)

lemma entries_from_drop: "entries_from i xs \<Longrightarrow> entries_from (i + n) (drop n xs)"
  by (simp add: entries_from_def)

text \<open>One iteration replaces the tail of the log from \<open>i\<close> on by the entry.\<close>

lemma log_wf_put:
  assumes "log_wf s" "r_commit_index s < i" "r_log_offset s < i" "i \<le> Suc (log_end s)"
    "entry_index e = i" "i + 1 < two64"
  shows "log_wf (s\<lparr>r_log := take (i - r_log_offset s - 1) (r_log s) @ [e], r_wal := w\<rparr>)"
    and "log_end (s\<lparr>r_log := take (i - r_log_offset s - 1) (r_log s) @ [e], r_wal := w\<rparr>) = i"
proof -
  have len: "length (take (i - r_log_offset s - 1) (r_log s)) = i - r_log_offset s - 1"
    using assms by (simp add: log_end_def)
  then show "log_end (s\<lparr>r_log := take (i - r_log_offset s - 1) (r_log s) @ [e], r_wal := w\<rparr>) = i"
    using assms by (simp add: log_end_def)
  then show "log_wf (s\<lparr>r_log := take (i - r_log_offset s - 1) (r_log s) @ [e], r_wal := w\<rparr>)"
    using assms len by (auto simp: log_wf_alt)
qed

lemma append_entries_loop_log_wf:
  "log_wf s \<Longrightarrow> entries_from i es \<Longrightarrow> 0 < i \<Longrightarrow> i \<le> Suc (log_end s) \<Longrightarrow> i + length es < two64
   \<Longrightarrow> log_wf (snd (append_entries_loop i es s))"
proof (induction es arbitrary: i s)
  case Nil
  then show ?case by simp
next
  case (Cons e es)
  have nxt: "u64_inc i = Suc i" using Cons.prems by (simp add: wrap_simps)
  have lli: "last_log_index s = log_end s" using Cons.prems by (simp add: last_log_index_end)
  have put: "log_wf (snd (case wal_save_entry e
        (s\<lparr>r_log := take (i - r_log_offset s - 1) (r_log s) @ [e]\<rparr>) of
          (Inl x, s1) \<Rightarrow> (Inl x, s1) | (Inr _, s1) \<Rightarrow> append_entries_loop (u64_inc i) es s1))"
    if "r_commit_index s < i" "r_log_offset s < i"
  proof -
    note w = log_wf_put [OF Cons.prems(1) that Cons.prems(4)]
    show ?thesis
      using Cons.prems Cons.IH [OF w(1)] w
      by (cases "save_result (save_entry e)
            (s\<lparr>r_log := take (i - r_log_offset s - 1) (r_log s) @ [e]\<rparr>)")
        (auto simp: closed_forms nxt)
  qed
  consider (old) "i \<le> r_log_offset s" | (present) "r_log_offset s < i" "i \<le> log_end s"
    | (new) "i = Suc (log_end s)"
    using Cons.prems by linarith
  then show ?case
  proof cases
    case old
    then show ?thesis
      using Cons.prems by (simp add: nxt Cons.IH log_end_def)
  next
    case present
    then show ?thesis
      using Cons.prems put log_pos(1) [OF Cons.prems(1) present]
      by (simp add: nxt lli Cons.IH)
  next
    case new
    then have "r_commit_index s < i" "r_log_offset s < i" "\<not> i \<le> log_end s"
      "take (i - r_log_offset s - 1) (r_log s) = r_log s"
      using Cons.prems by (auto simp: log_wf_def log_end_def)
    with put show ?thesis by (simp add: lli)
  qed
qed


subsection \<open>Handlers of the log\<close>

lemma raft_wf_log:
  "raft_wf s \<Longrightarrow> log_wf (s\<lparr>r_log := l, r_wal := w\<rparr>) \<Longrightarrow> raft_wf (s\<lparr>r_log := l\<rparr>)"
  by (auto simp: wf_defs)

lemma node_wf_log:
  assumes "node_wf s" "log_wf (snd (append_entries_loop i es s))"
  shows "node_wf (snd (append_entries_loop i es s))"
proof -
  obtain r l w where "append_entries_loop i es s = (r, s\<lparr>r_log := l, r_wal := w\<rparr>)"
    using append_entries_loop_frame by blast
  with assms show ?thesis by (simp add: node_wf_def raft_wf_log out_wf_def)
qed

lemma append_entries_start_facts:
  assumes "log_wf s" "msg_wf msg" "log_ok msg s"
  shows "entries_from (u64_inc (m_prev_log_index msg)) (m_entries msg)"
    "0 < u64_inc (m_prev_log_index msg)" "u64_inc (m_prev_log_index msg) \<le> Suc (log_end s)"
    "u64_inc (m_prev_log_index msg) + length (m_entries msg) < two64"
proof -
  have i: "u64_inc (m_prev_log_index msg) = Suc (m_prev_log_index msg)"
    using assms(2) by (simp add: msg_wf_def wrap_simps)
  show "entries_from (u64_inc (m_prev_log_index msg)) (m_entries msg)"
    using assms(2) by (simp add: i msg_wf_def entries_from_def)
  show "0 < u64_inc (m_prev_log_index msg)" by (simp add: i)
  show "u64_inc (m_prev_log_index msg) \<le> Suc (log_end s)"
    using assms(3) by (auto simp: i log_ok_def last_log_index_end [OF assms(1)] split: if_splits)
  show "u64_inc (m_prev_log_index msg) + length (m_entries msg) < two64"
    using assms(2) by (simp add: i msg_wf_def)
qed

lemma append_entries_start:
  assumes "node_wf s" "msg_wf msg" "log_ok msg s"
  shows "node_wf (snd (append_entries_loop (u64_inc (m_prev_log_index msg)) (m_entries msg) s))"
proof -
  have lw: "log_wf s" using assms by (simp add: node_wf_def raft_wf_def)
  show ?thesis
    using append_entries_start_facts [OF lw assms(2,3)] lw
    by (intro node_wf_log [OF assms(1)] append_entries_loop_log_wf)
qed

lemma raft_wf_commit:
  "raft_wf s \<Longrightarrow> r_commit_index s \<le> c \<Longrightarrow> c \<le> log_end s \<Longrightarrow> raft_wf (s\<lparr>r_commit_index := c\<rparr>)"
  by (auto simp: wf_defs)

lemma node_wf_commit:
  "node_wf s \<Longrightarrow> r_commit_index s \<le> c \<Longrightarrow> c \<le> log_end s \<Longrightarrow> node_wf (s\<lparr>r_commit_index := c\<rparr>)"
  by (simp add: node_wf_def raft_wf_commit out_wf_def)

lemma append_entries_commit_wf:
  assumes "node_wf s"
  shows "node_wf (snd (append_entries_commit msg resp s))"
proof -
  have lw: "log_wf s" using assms by (simp add: node_wf_def raft_wf_def)
  have "node_wf (s\<lparr>r_commit_index := min (m_leader_commit msg) (log_end s)\<rparr>)"
    if "r_commit_index s < m_leader_commit msg"
    using that lw assms by (intro node_wf_commit) (auto simp: log_wf_def)
  then show ?thesis
    using assms
    by (simp add: append_entries_commit_def Let_def case_prod_beta last_log_index_end [OF lw])
qed

lemma prepare_for_leader_rpc_node:
  "node_wf s \<Longrightarrow> m_term msg < two64 \<Longrightarrow> node_wf (snd (prepare_for_leader_rpc msg s))"
  by (simp add: node_wf_def prepare_for_leader_rpc_wf out_wf_def)

lemma handle_append_entries_wf:
  assumes "node_wf s" "msg_wf msg"
  shows "node_wf (snd (handle_append_entries msg s))"
proof -
  obtain b s1 where p: "prepare_for_leader_rpc msg s = (b, s1)" by fastforce
  then have w1: "node_wf s1"
    using prepare_for_leader_rpc_node [of s msg] assms by (simp add: msg_wf_def)
  obtain r s2 where l: "append_entries_loop (u64_inc (m_prev_log_index msg)) (m_entries msg) s1 = (r, s2)"
    by fastforce
  then have w2: "node_wf s2" if "log_ok msg s1"
    using append_entries_start [OF w1 assms(2) that] by simp
  show ?thesis
  proof (cases "b \<and> log_ok msg s1")
    case True
    then show ?thesis
      using w2 append_entries_commit_wf
      by (auto simp: handle_append_entries_def Let_def p l case_prod_beta
          split: sum.split option.split bool.split)
  next
    case False
    then show ?thesis
      using w1 by (auto simp: handle_append_entries_def Let_def p split: bool.split)
  qed
qed


text \<open>The commit scan: the last index of the range that meets the commit rule, if any.\<close>

lemma fold_if_last: "fold (\<lambda>i c. if P i then i else c) xs c = last (c # filter P xs)"
  by (induction xs arbitrary: c) auto

definition committable :: "raft \<Rightarrow> nat \<Rightarrow> bool" where
  "committable s i \<longleftrightarrow>
     entry_term (log_entry s i) = r_term s \<and> replicas s i > length (r_peers s) div 2"

lemma advance_commit_last:
  "advance_commit s =
     last (r_commit_index s #
       filter (committable s) [u64_inc (r_commit_index s)..<Suc (last_log_index s)])"
proof -
  have "(\<lambda>i c. if entry_term (log_entry s i) \<noteq> r_term s then c
              else if replicas s i > length (r_peers s) div 2 then i else c)
        = (\<lambda>i c. if committable s i then i else c)"
    by (auto simp: fun_eq_iff committable_def)
  then show ?thesis by (simp only: advance_commit_def fold_if_last)
qed

lemma advance_commit_cases:
  assumes "log_wf s"
  shows "advance_commit s = r_commit_index s \<or>
     (r_commit_index s < advance_commit s \<and> advance_commit s \<le> log_end s
      \<and> committable s (advance_commit s))"
proof -
  let ?xs = "filter (committable s) [u64_inc (r_commit_index s)..<Suc (last_log_index s)]"
  have inc: "u64_inc (r_commit_index s) = Suc (r_commit_index s)"
    using assms by (simp add: log_wf_def wrap_simps)
  show ?thesis
  proof (cases "?xs = []")
    case True
    then show ?thesis by (simp only: advance_commit_last) simp
  next
    case False
    then have mem: "last ?xs \<in> set ?xs" by (rule last_in_set)
    have "last ?xs = advance_commit s"
      using False by (simp add: advance_commit_last del: upt_Suc)
    with mem have "advance_commit s \<in> set ?xs" by (simp only:)
    then show ?thesis
      by (simp add: inc last_log_index_end [OF assms] less_Suc_eq_le del: upt_Suc)
  qed
qed

lemma advance_commit_bounds:
  "log_wf s \<Longrightarrow> r_commit_index s \<le> advance_commit s \<and> advance_commit s \<le> log_end s"
  using advance_commit_cases [of s] by (auto simp: log_wf_def)

text \<open>The compaction scan drops exactly the entries the snapshot covers.\<close>

lemma keep_from_eq:
  "entries_from (Suc b) es \<Longrightarrow> b \<le> a \<Longrightarrow>
     keep_from a i es = (if a - b < length es then i + (a - b) else 0)"
proof (induction es arbitrary: b i)
  case Nil
  then show ?case by simp
next
  case (Cons e es)
  show ?case
  proof (cases "b = a")
    case True
    with Cons.prems show ?thesis by simp
  next
    case False
    with Cons.prems have "\<not> a < entry_index e" "Suc b \<le> a" by auto
    then show ?thesis
      using Cons.prems Cons.IH [of "Suc b" "Suc i"] by auto
  qed
qed

lemma compact_log_eq:
  assumes "entries_from (Suc b) es" "b < a" "a \<le> b + length es"
  shows "compact_log a es = drop (a - b) es"
proof (cases "a - b < length es")
  case True
  with assms show ?thesis by (simp add: compact_log_def keep_from_eq)
next
  case False
  with assms have len: "length es = a - b" by simp
  have "entry_index (es ! (length es - 1)) = Suc b + (length es - 1)"
    using assms len by (auto simp: entries_from_def)
  then have "entry_index (last es) \<le> a"
    using assms len by (subst last_conv_nth) auto
  with assms False len show ?thesis by (auto simp: compact_log_def keep_from_eq)
qed


lemma set_match_node:
  assumes "node_wf s" "p \<in> set (other_peers s)"
  shows "node_wf (set_match p i s)"
  unfolding set_match_def
  using assms raft_wf_maps [OF node_wf_raft [OF assms(1)]]
  by (intro node_wf_maps) (auto simp: umap_simps)

lemma set_match_fields [simp]:
  "log_end (set_match p i s) = log_end s" "r_commit_index (set_match p i s) = r_commit_index s"
  "log_wf (set_match p i s) = log_wf s" "other_peers (set_match p i s) = other_peers s"
  "r_term (set_match p i s) = r_term s" "r_log (set_match p i s) = r_log s"
  "r_log_offset (set_match p i s) = r_log_offset s" "r_peers (set_match p i s) = r_peers s"
  "r_read_index_acks (set_match p i s) = r_read_index_acks s"
  by (simp_all add: set_match_def log_end_def log_wf_def other_peers_def)

text \<open>The leader's state after it has recorded a successful response, before it commits.\<close>

definition record_success :: "message \<Rightarrow> raft \<Rightarrow> raft" where
  "record_success msg s =
     (let s1 = set_match (m_from msg) (m_match_index msg) s
      in if r_read_index_pending s1 \<and> m_read_context msg \<noteq> 0
            \<and> m_read_context msg = r_pending_read_context s1
         then s1\<lparr>r_read_index_acks := umap_put (r_read_index_acks s1) (m_from msg) True\<rparr>
         else s1)"

text \<open>And after a failed one: the next index moves back by one.\<close>

definition record_failure :: "message \<Rightarrow> raft \<Rightarrow> raft" where
  "record_failure msg s =
     (let p = umap_at (r_progress s) (m_from msg) default_progress
      in s\<lparr>r_progress := umap_put (r_progress s) (m_from msg)
              (if p_next p > 1 then p\<lparr>p_next := u64_dec (p_next p)\<rparr> else p)\<rparr>)"

lemma handle_append_entries_response_eq:
  "handle_append_entries_response msg s =
     (if misaddressed msg s then s
      else if m_term msg > r_term s then become_follower (m_term msg) 0 s
      else if r_storage_failed s \<or> r_state s \<noteq> Leader \<or> m_term msg < r_term s then s
      else if m_success msg then
        let s1 = record_success msg s; s2 = s1\<lparr>r_commit_index := advance_commit s1\<rparr>
        in if r_commit_index s2 > r_commit_index s then snd (persist_hard_state s2) else s2
      else
        let s1 = record_failure msg s
        in if r_log_offset s > 0
              \<and> p_next (umap_at (r_progress s1) (m_from msg) default_progress) \<le> r_log_offset s
           then send (make_install_snapshot s1 (m_from msg)) s1
           else broadcast_heartbeat s1)"
  by (simp add: handle_append_entries_response_def record_success_def record_failure_def Let_def
      umap_simps)

lemma record_success_node:
  assumes "node_wf s" "\<not> misaddressed msg s"
  shows "node_wf (record_success msg s)"
proof -
  have "node_wf (set_match (m_from msg) (m_match_index msg) s)" (is "node_wf ?s1")
    using assms not_misaddressed [OF assms(2)] by (simp add: set_match_node)
  then have "node_wf (?s1\<lparr>r_read_index_acks := umap_put (r_read_index_acks ?s1) (m_from msg) True\<rparr>)"
    using not_misaddressed [OF assms(2)] raft_wf_maps [OF node_wf_raft [OF \<open>node_wf ?s1\<close>]]
    by (intro node_wf_maps) (auto simp: umap_simps)
  then show ?thesis using \<open>node_wf ?s1\<close> by (simp add: record_success_def Let_def)
qed

lemma record_success_fields [simp]:
  "r_commit_index (record_success msg s) = r_commit_index s"
  "log_wf (record_success msg s) = log_wf s"
  "r_term (record_success msg s) = r_term s" "r_log (record_success msg s) = r_log s"
  "r_log_offset (record_success msg s) = r_log_offset s"
  "r_peers (record_success msg s) = r_peers s"
  by (simp_all add: record_success_def set_match_def Let_def log_wf_def log_end_def)

lemma record_failure_node:
  assumes "node_wf s" "\<not> misaddressed msg s"
  shows "node_wf (record_failure msg s)"
  unfolding record_failure_def Let_def
  using assms not_misaddressed [OF assms(2)] raft_wf_maps [OF node_wf_raft [OF assms(1)]]
  by (intro node_wf_maps) (auto simp: umap_simps)

lemma node_wf_commit_scan:
  assumes "node_wf s"
  shows "node_wf (s\<lparr>r_commit_index := advance_commit s\<rparr>)"
proof -
  have "log_wf s" using assms by (simp add: node_wf_def raft_wf_def)
  from advance_commit_bounds [OF this] show ?thesis using assms by (intro node_wf_commit) auto
qed

lemma handle_append_entries_response_wf:
  assumes "node_wf s" "m_term msg < two64"
  shows "node_wf (handle_append_entries_response msg s)"
  using assms
  by (simp add: handle_append_entries_response_eq Let_def become_follower_node
      node_wf_commit_scan record_success_node record_failure_node broadcast_heartbeat_node
      node_wf_send make_install_snapshot_wf node_wf_raft)

lemma raft_wf_append:
  assumes "raft_wf s" "entry_index e = Suc (log_end s)" "log_end s + 2 < two64"
  shows "raft_wf (s\<lparr>r_log := r_log s @ [e]\<rparr>)"
  using assms by (auto simp: wf_defs nth_append less_Suc_eq)

lemma node_wf_append:
  assumes "node_wf s" "entry_index e = Suc (log_end s)" "log_end s + 2 < two64"
  shows "node_wf (s\<lparr>r_log := r_log s @ [e]\<rparr>)"
  using assms by (simp add: node_wf_def raft_wf_append) (simp add: out_wf_def)

lemma propose_wf:
  assumes "node_wf s" "log_end s + 2 < two64"
  shows "node_wf (snd (propose data s))"
proof -
  let ?e = "\<lparr>entry_type = EntryNormal, entry_term = r_term s,
             entry_index = u64_inc (last_log_index s), entry_data = data\<rparr>"
  have lw: "log_wf s" using assms by (simp add: node_wf_def raft_wf_def)
  have "entry_index ?e = Suc (log_end s)"
    using assms by (simp add: last_log_index_end [OF lw] wrap_simps)
  from node_wf_append [OF assms(1) this assms(2)] show ?thesis
    using assms(1)
    by (auto simp: propose_def Let_def io_forms broadcast_heartbeat_node
        split: sum.split bool.split)
qed


lemma advance_wf:
  assumes "node_wf s"
  shows "node_wf (advance i s)"
proof (cases "i > r_commit_index s \<or> i \<noteq> u64_inc (r_last_applied s)")
  case True
  then show ?thesis using assms by (simp add: advance_def)
next
  case False
  have "log_wf s" using assms by (simp add: node_wf_def raft_wf_def)
  then have "u64_inc (r_last_applied s) = Suc (r_last_applied s)"
    by (simp add: log_wf_def wrap_simps)
  with False assms show ?thesis
    by (simp add: advance_def node_wf_def out_wf_def) (auto simp: wf_defs)
qed

lemma raft_wf_compact:
  assumes "raft_wf s" "r_log_offset s < a" "a \<le> r_last_applied s"
  shows "raft_wf (s\<lparr>r_log := compact_log a (r_log s), r_log_offset := a,
                   r_log_offset_term := t, r_last_snapshot_index := a\<rparr>)"
proof -
  have lw: "log_wf s" using assms by (simp add: raft_wf_def)
  have ef: "entries_from (Suc (r_log_offset s)) (r_log s)" using lw by (simp add: log_wf_alt)
  have le: "a \<le> r_log_offset s + length (r_log s)"
    using lw assms by (simp add: log_wf_def log_end_def)
  have ac: "compact_log a (r_log s) = drop (a - r_log_offset s) (r_log s)"
    using compact_log_eq [OF ef assms(2) le] .
  have "entries_from (Suc a) (drop (a - r_log_offset s) (r_log s))"
    using entries_from_drop [OF ef, of "a - r_log_offset s"] assms(2) by simp
  then have "log_wf (s\<lparr>r_log := drop (a - r_log_offset s) (r_log s), r_log_offset := a,
                      r_log_offset_term := t, r_last_snapshot_index := a\<rparr>)"
    using lw assms le by (simp add: log_wf_alt log_end_def)
  then show ?thesis
    using assms by (simp add: ac raft_wf_def config_wf_def maps_wf_def other_peers_def)
qed

lemma take_snapshot_wf:
  assumes "node_wf s"
  shows "node_wf (snd (take_snapshot i d s))"
proof (cases "i = 0 \<or> i \<le> r_log_offset s \<or> i > r_last_applied s")
  case True
  then show ?thesis using assms by (simp add: take_snapshot_def)
next
  case False
  have "raft_wf (s\<lparr>r_wal := w, r_log := compact_log i (r_log s), r_log_offset := i,
      r_log_offset_term := term_at s i, r_last_snapshot_index := i\<rparr>)" for w
    using raft_wf_compact [of "s\<lparr>r_wal := w\<rparr>" i "term_at s i"] assms False
    by (auto simp: node_wf_def)
  then show ?thesis
    using assms False
    by (auto simp: take_snapshot_def Let_def io_forms node_wf_def out_wf_def
        split: sum.split bool.split)
qed

lemma raft_wf_installed:
  assumes "raft_wf s" "i + 1 < two64"
  shows "raft_wf (s\<lparr>r_log := [], r_log_offset := i, r_log_offset_term := t,
      r_last_snapshot_index := i, r_last_snapshot_data := d, r_last_applied := i,
      r_commit_index := i\<rparr>)"
  using assms by (simp add: wf_defs)

lemma handle_install_snapshot_wf:
  assumes "node_wf s" "msg_wf msg"
  shows "node_wf (snd (handle_install_snapshot msg s))"
proof -
  obtain b s1 where p: "prepare_for_leader_rpc msg s = (b, s1)" by fastforce
  then have w1: "node_wf s1"
    using prepare_for_leader_rpc_node [of s msg] assms by (simp add: msg_wf_def)
  have "m_snapshot_index msg + 1 < two64" using assms by (simp add: msg_wf_def)
  then show ?thesis
    using w1
    by (auto simp: handle_install_snapshot_def Let_def p io_forms node_wf_def out_wf_def
        split: sum.split option.split bool.split intro!: raft_wf_installed)
qed

lemma handle_install_snapshot_response_wf:
  assumes "node_wf s" "m_term msg < two64"
  shows "node_wf (handle_install_snapshot_response msg s)"
  using assms not_misaddressed [of msg s]
  by (simp add: handle_install_snapshot_response_def become_follower_node
      broadcast_heartbeat_node set_match_node)

lemma finish_read_index_wf: "node_wf s \<Longrightarrow> node_wf (finish_read_index tok s)"
  by (simp add: finish_read_index_def node_wf_maps)

lemma read_index_wf:
  assumes "node_wf s" "log_end s + 2 < two64"
  shows "node_wf (snd (read_index s))"
proof -
  have cleared: "node_wf (s\<lparr>r_read_index_pending := a, r_pending_read_context := b,
      r_next_read_context := c, r_read_index_acks := [], r_pending_read_index := d\<rparr>)" for a b c d
    using assms by (simp add: node_wf_maps)
  have "log_end (s\<lparr>r_read_index_pending := a, r_pending_read_context := b,
      r_next_read_context := c, r_read_index_acks := [], r_pending_read_index := d\<rparr>) = log_end s"
    for a b c d by (simp add: log_end_def)
  then have pr: "node_wf (snd (propose [] (s\<lparr>r_read_index_pending := a, r_pending_read_context := b,
      r_next_read_context := c, r_read_index_acks := [], r_pending_read_index := d\<rparr>)))" for a b c d
    using propose_wf [OF cleared] assms by simp
  show ?thesis
    using assms cleared pr
    by (auto simp: read_index_def Let_def broadcast_heartbeat_node case_prod_beta
        finish_read_index_wf split: sum.split option.split)
qed


subsection \<open>Every event keeps the invariant\<close>

lemma append_entries_loop_same_term:
  "append_entries_loop i es s = (r, s') \<Longrightarrow> r_term s' = r_term s \<and> r_id s' = r_id s"
  using append_entries_loop_frame [of i es s] by auto

text \<open>The fields of a reply that do not depend on the branch taken.\<close>

definition reply_shape :: "message_type \<Rightarrow> message \<Rightarrow> raft \<Rightarrow> message \<Rightarrow> raft \<Rightarrow> bool" where
  "reply_shape ty msg s m s' \<longleftrightarrow>
     m_type m = ty \<and> m_from m = r_id s \<and> m_to m = m_from msg \<and> m_term m = r_term s'
     \<and> m_entries m = [] \<and> m_prev_log_index m = 0 \<and> m_snapshot_index m = 0"

lemma append_entries_commit_shape:
  assumes "append_entries_commit msg resp s1 = (m, s')"
    "reply_shape ty msg s resp s1"
  shows "reply_shape ty msg s m s'"
  using assms
  by (auto simp: append_entries_commit_def Let_def io_forms reply_shape_def split: if_splits)

lemma handle_append_entries_shape:
  assumes eq: "handle_append_entries msg s = (Inr m, s')"
  shows "reply_shape MsgAppendEntriesResponse msg s m s'"
proof -
  obtain b s1 where p: "prepare_for_leader_rpc msg s = (b, s1)" by fastforce
  obtain r s2 where l:
    "append_entries_loop (u64_inc (m_prev_log_index msg)) (m_entries msg) s1 = (r, s2)"
    by fastforce
  define resp where "resp = default_message\<lparr>m_type := MsgAppendEntriesResponse, m_from := r_id s,
      m_to := m_from msg, m_success := False, m_read_context := m_read_context msg,
      m_term := r_term s1\<rparr>"
  have sh: "reply_shape MsgAppendEntriesResponse msg s (resp\<lparr>m_match_index := c\<rparr>) u"
    "reply_shape MsgAppendEntriesResponse msg s resp u"
    "reply_shape MsgAppendEntriesResponse msg s (resp\<lparr>m_term := r_term u\<rparr>) u"
    if "r_term u = r_term s1" for u c
    using that by (simp_all add: reply_shape_def resp_def default_message_def)
  have t: "r_term s2 = r_term s1" using append_entries_loop_same_term [OF l] by simp
  have fin: ?thesis if "append_entries_commit msg resp u = (m, s')" "r_term u = r_term s1" for u
    using append_entries_commit_shape [OF that(1) sh(2) [OF that(2)]] .
  show ?thesis
  proof (cases "b \<and> log_ok msg s1")
    case False
    then show ?thesis
      using eq sh by (auto simp: handle_append_entries_def Let_def p resp_def split: bool.splits)
  next
    case True
    then show ?thesis
      using eq sh t fin
      by (auto simp: handle_append_entries_def Let_def p l io_forms resp_def [symmetric]
          split: if_splits sum.splits option.splits bool.splits prod.splits)
  qed
qed

lemma handle_install_snapshot_shape:
  assumes eq: "handle_install_snapshot msg s = (Inr m, s')"
  shows "reply_shape MsgInstallSnapshotResponse msg s m s'"
proof -
  obtain b s1 where p: "prepare_for_leader_rpc msg s = (b, s1)" by fastforce
  show ?thesis
    using eq unfolding handle_install_snapshot_def Let_def p io_forms reply_shape_def
    by (auto simp: default_message_def split: bool.splits if_splits sum.splits option.splits)
qed

lemma reply_outcome_wf:
  assumes "node_wf (snd x)"
    and "\<And>m s'. x = (Inr m, s') \<Longrightarrow> reply_shape ty msg s m s'"
  shows "node_wf (snd (reply_outcome x))"
proof (cases x)
  case (Pair r s')
  show ?thesis
  proof (cases r)
    case (Inl e)
    then show ?thesis using assms Pair by (simp add: reply_outcome_def)
  next
    case (Inr m)
    then have "msg_wf m"
      using assms Pair raft_wf_maps(10) [OF node_wf_raft, of s']
      by (intro msg_wf_plain) (auto simp: reply_shape_def)
    then show ?thesis using assms Pair Inr by (simp add: reply_outcome_def returns_def node_wf_send)
  qed
qed

text \<open>
  What the environment has to respect: received messages are well-formed (every message a
  well-formed node sends is), and terms and log indices stay below the 64-bit limit.
\<close>

definition event_ok :: "event \<Rightarrow> raft \<Rightarrow> bool" where
  "event_ok ev s \<longleftrightarrow>
     r_term s + 1 < two64 \<and>
     (case ev of
        Receive m \<Rightarrow> msg_wf m
      | Propose _ \<Rightarrow> log_end s + 2 < two64
      | Read_index \<Rightarrow> log_end s + 2 < two64
      | _ \<Rightarrow> True)"

lemma drop_result_state [simp]: "snd (drop_result x) = snd x"
  by (cases x) (simp add: drop_result_def returns_def split: sum.split)

lemma returns_state [simp]: "snd (returns s) = s"
  by (simp add: returns_def)

lemma handle_raft_message_wf:
  assumes wf: "node_wf s" and msg: "msg_wf msg"
  shows "node_wf (snd (handle_raft_message msg s))"
proof -
  have t: "m_term msg < two64" using msg by (simp add: msg_wf_def)
  have rv: "node_wf (snd (reply (handle_request_vote msg s)))"
    using handle_request_vote_wf [OF wf t] handle_request_vote_fields [of msg s]
      raft_wf_maps(10) [OF node_wf_raft [OF handle_request_vote_wf [OF wf t]]]
    by (intro reply_wf msg_wf_plain) auto
  have pv: "node_wf (snd (reply (handle_pre_vote msg s)))"
    using wf handle_pre_vote_fields [of msg s] raft_wf_maps(10) [OF node_wf_raft [OF wf]]
    by (intro reply_wf msg_wf_plain) auto
  have ae: "node_wf (snd (reply_outcome (handle_append_entries msg s)))"
    by (rule reply_outcome_wf [OF handle_append_entries_wf [OF wf msg] handle_append_entries_shape])
  have ins: "node_wf (snd (reply_outcome (handle_install_snapshot msg s)))"
    by (rule reply_outcome_wf [OF handle_install_snapshot_wf [OF wf msg] handle_install_snapshot_shape])
  show ?thesis
    using rv pv ae ins wf t
    by (simp add: handle_raft_message_def handle_request_vote_response_wf
        handle_pre_vote_response_wf handle_append_entries_response_wf
        handle_install_snapshot_response_wf)
qed

lemma raft_step_node_wf:
  assumes "node_wf s" "event_ok ev s"
  shows "node_wf (snd (raft_step ev s))"
  using assms
  by (cases ev) (simp_all add: event_ok_def tick_wf handle_raft_message_wf propose_wf
      read_index_wf finish_read_index_wf advance_wf take_snapshot_wf)

end
