(* ===== verification/Raft_Durable.thy ===== *)
theory Raft_Durable
  imports Raft_Log_Inv "HOL-Library.Sublist"
begin

text \<open>
  What the write-ahead log holds while a node runs. A history of records is \<open>legal\<close> when
  every record extends what is already recoverable the way the protocol allows; the file of
  a node is a legal history at every moment, and while storage has not failed it replays to
  exactly the persistent part of the state. A restart therefore never meets a log it has to
  refuse, and never forgets a term, a vote, an entry or a snapshot it acted on.
\<close>

subsection \<open>Legal histories\<close>

definition rec_end :: "recovered \<Rightarrow> nat" where
  "rec_end R = snap_index (rec_snapshot R) + length (rec_entries R)"

definition rec_commit :: "recovered \<Rightarrow> nat" where
  "rec_commit R = max (snap_index (rec_snapshot R)) (hs_commit (rec_hard_state R))"

text \<open>A newer term, or the same term with the vote kept or cast for the first time.\<close>

definition vote_le :: "hard_state \<Rightarrow> hard_state \<Rightarrow> bool" where
  "vote_le h h' \<longleftrightarrow>
     hs_term h < hs_term h' \<or> hs_term h = hs_term h' \<and> (hs_vote h = 0 \<or> hs_vote h = hs_vote h')"

fun next_ok :: "recovered \<Rightarrow> wal_record \<Rightarrow> bool" where
  "next_ok R (RecHardState h) \<longleftrightarrow>
     vote_le (rec_hard_state R) h \<and> hs_term h < two64
     \<and> rec_commit R \<le> hs_commit h \<and> hs_commit h \<le> rec_end R"
| "next_ok R (RecEntry e) \<longleftrightarrow>
     rec_commit R < entry_index e \<and> entry_index e \<le> Suc (rec_end R) \<and> entry_index e + 1 < two64"
| "next_ok R (RecSnapshot sn) \<longleftrightarrow>
     snap_index (rec_snapshot R) < snap_index sn \<and> snap_index sn + 1 < two64 \<and>
     (if snap_discard_suffix sn then rec_commit R \<le> snap_index sn
      else snap_index sn \<le> rec_commit R)"

fun legal_from :: "recovered \<Rightarrow> wal_record list \<Rightarrow> bool" where
  "legal_from R [] = True"
| "legal_from R (r # rs) = (next_ok R r \<and> legal_from (recover_record r R) rs)"

definition legal :: "wal_record list \<Rightarrow> bool" where
  "legal rs = legal_from recovered_init rs"

definition rec_wf :: "recovered \<Rightarrow> bool" where
  "rec_wf R \<longleftrightarrow> entries_from (Suc (snap_index (rec_snapshot R))) (rec_entries R)
     \<and> rec_commit R \<le> rec_end R \<and> rec_end R + 1 < two64
     \<and> hs_term (rec_hard_state R) < two64"

lemma legal_from_append [simp]:
  "legal_from R (rs @ qs) \<longleftrightarrow> legal_from R rs \<and> legal_from (fold recover_record rs R) qs"
  by (induction rs arbitrary: R) auto

lemma recover_records_append [simp]:
  "recover_records (rs @ qs) = fold recover_record qs (recover_records rs)"
  by (simp add: recover_records_def)

lemma legal_append [simp]:
  "legal (rs @ qs) \<longleftrightarrow> legal rs \<and> legal_from (recover_records rs) qs"
  by (simp add: legal_def recover_records_def)

lemma legal_Nil [simp]: "legal []"
  by (simp add: legal_def)

lemma legal_from_take: "legal_from R rs \<Longrightarrow> legal_from R (take k rs)"
  by (metis append_take_drop_id legal_from_append)

lemma takeWhile_index:
  "entries_from (Suc b) es \<Longrightarrow> b < i \<Longrightarrow>
     takeWhile (\<lambda>x. entry_index x < i) es = take (i - b - 1) es"
proof (induction es arbitrary: b)
  case (Cons e es)
  show ?case
  proof (cases "i = Suc b")
    case True
    with Cons.prems show ?thesis by simp
  next
    case False
    with Cons.prems have "Suc b < i" by simp
    then have "i - b - 1 = Suc (i - Suc b - 1)" by simp
    with Cons \<open>Suc b < i\<close> show ?thesis by simp
  qed
qed simp

lemma dropWhile_index:
  "entries_from (Suc b) es \<Longrightarrow> b \<le> i \<Longrightarrow>
     dropWhile (\<lambda>x. entry_index x \<le> i) es = drop (i - b) es"
proof (induction es arbitrary: b)
  case (Cons e es)
  show ?case
  proof (cases "i = b")
    case True
    with Cons.prems show ?thesis by simp
  next
    case False
    with Cons.prems have "Suc b \<le> i" "i - b = Suc (i - Suc b)" by simp_all
    with Cons show ?thesis by simp
  qed
qed simp

lemma recover_entry_eq:
  assumes "rec_wf R" "next_ok R (RecEntry e)"
  shows "rec_entries (recover_record (RecEntry e) R)
     = take (entry_index e - snap_index (rec_snapshot R) - 1) (rec_entries R) @ [e]"
  using assms takeWhile_index [of "snap_index (rec_snapshot R)" "rec_entries R" "entry_index e"]
  by (simp add: rec_wf_def rec_commit_def)

lemma recover_record_wf:
  assumes "rec_wf R" "next_ok R r"
  shows "rec_wf (recover_record r R)"
proof (cases r)
  case (RecEntry e)
  then show ?thesis
    using assms recover_entry_eq [OF assms(1), of e]
    by (auto simp: rec_wf_def rec_commit_def rec_end_def)
next
  case (RecHardState h)
  then show ?thesis using assms by (auto simp: rec_wf_def rec_commit_def rec_end_def)
next
  case (RecSnapshot sn)
  let ?b = "snap_index (rec_snapshot R)" and ?i = "snap_index sn"
  show ?thesis
  proof (cases "snap_discard_suffix sn")
    case True
    then show ?thesis using assms RecSnapshot by (auto simp: rec_wf_def rec_commit_def rec_end_def)
  next
    case False
    have le: "?b < ?i" "?i \<le> rec_end R" using assms RecSnapshot False by (auto simp: rec_wf_def)
    have d: "dropWhile (\<lambda>x. entry_index x \<le> ?i) (rec_entries R) = drop (?i - ?b) (rec_entries R)"
      using assms le by (intro dropWhile_index) (auto simp: rec_wf_def)
    have "entries_from (Suc ?i) (drop (?i - ?b) (rec_entries R))"
      using entries_from_drop [of "Suc ?b" "rec_entries R" "?i - ?b"] assms le
      by (simp add: rec_wf_def)
    then show ?thesis
      using assms RecSnapshot False d le by (auto simp: rec_wf_def rec_commit_def rec_end_def)
  qed
qed

lemma legal_from_wf: "legal_from R rs \<Longrightarrow> rec_wf R \<Longrightarrow> rec_wf (fold recover_record rs R)"
  by (induction rs arbitrary: R) (auto simp: recover_record_wf)

lemma rec_wf_init [simp]: "rec_wf recovered_init"
  by (simp add: rec_wf_def recovered_init_def rec_commit_def rec_end_def empty_snapshot_def
      empty_hard_state_def two64_def)

lemma legal_wf: "legal rs \<Longrightarrow> rec_wf (recover_records rs)"
  by (simp add: legal_def recover_records_def legal_from_wf)

text \<open>What is durable only moves forward: terms, votes within a term, and the commit index.\<close>

lemma vote_le_refl [simp]: "vote_le h h"
  by (simp add: vote_le_def)

lemma vote_le_trans: "vote_le a b \<Longrightarrow> vote_le b c \<Longrightarrow> vote_le a c"
  by (auto simp: vote_le_def)

lemma legal_from_vote_le:
  "legal_from R rs \<Longrightarrow> vote_le (rec_hard_state R) (rec_hard_state (fold recover_record rs R))"
proof (induction rs arbitrary: R)
  case (Cons r rs)
  then have "vote_le (rec_hard_state R) (rec_hard_state (recover_record r R))"
    by (cases r) auto
  moreover have "vote_le (rec_hard_state (recover_record r R))
      (rec_hard_state (fold recover_record rs (recover_record r R)))"
    using Cons by simp
  ultimately show ?case by (auto intro: vote_le_trans)
qed simp

lemma recover_record_commit_mono: "next_ok R r \<Longrightarrow> rec_commit R \<le> rec_commit (recover_record r R)"
  by (cases r) (auto simp: rec_commit_def split: if_splits)

lemma legal_from_commit_mono:
  "legal_from R rs \<Longrightarrow> rec_commit R \<le> rec_commit (fold recover_record rs R)"
proof (induction rs arbitrary: R)
  case (Cons r rs)
  then show ?case using recover_record_commit_mono [of R r] by (auto intro: le_trans)
qed simp


subsection \<open>The file of a node\<close>

text \<open>The persistent part of a state, as a replay of the file has to give it.\<close>

definition wal_image :: "recovered \<Rightarrow> raft \<Rightarrow> bool" where
  "wal_image R s \<longleftrightarrow>
     hs_term (rec_hard_state R) = r_term s \<and> hs_vote (rec_hard_state R) = r_voted_for s
     \<and> rec_commit R = r_commit_index s \<and> rec_entries R = r_log s
     \<and> snap_index (rec_snapshot R) = r_log_offset s
     \<and> snap_term (rec_snapshot R) = r_log_offset_term s
     \<and> snap_state (rec_snapshot R) = r_last_snapshot_data s"

text \<open>
  \<open>disk_ok\<close>: the file extends an earlier content \<open>d\<close> legally. \<open>pending_ok\<close>: moreover the file
  and the write buffer together replay to the state, unless storage has failed.
  \<open>storage_ok\<close>: moreover nothing waits in the buffer.
\<close>

definition disk_ok :: "wal_record list \<Rightarrow> raft \<Rightarrow> bool" where
  "disk_ok d s \<longleftrightarrow> (\<exists>w. r_wal s = Some w \<and> prefix d (w_disk w) \<and> legal (w_disk w))"

definition pending_ok :: "wal_record list \<Rightarrow> raft \<Rightarrow> bool" where
  "pending_ok d s \<longleftrightarrow> r_term s < two64 \<and>
     (\<exists>w. r_wal s = Some w \<and> prefix d (w_disk w) \<and> legal (w_disk w)
        \<and> w_failed w = r_storage_failed s
        \<and> (\<not> r_storage_failed s \<longrightarrow>
             legal (w_disk w @ w_buffer w) \<and> wal_image (recover_records (w_disk w @ w_buffer w)) s))"

definition storage_ok :: "wal_record list \<Rightarrow> raft \<Rightarrow> bool" where
  "storage_ok d s \<longleftrightarrow> r_term s < two64 \<and>
     (\<exists>w. r_wal s = Some w \<and> prefix d (w_disk w) \<and> legal (w_disk w)
        \<and> w_failed w = r_storage_failed s
        \<and> (\<not> r_storage_failed s \<longrightarrow> w_buffer w = [] \<and> wal_image (recover_records (w_disk w)) s))"

lemma storage_ok_pending: "storage_ok d s \<Longrightarrow> pending_ok d s"
  by (auto simp: storage_ok_def pending_ok_def legal_def)

lemma pending_ok_disk: "pending_ok d s \<Longrightarrow> disk_ok d s"
  by (auto simp: pending_ok_def disk_ok_def)

lemma pending_ok_term: "pending_ok d s \<Longrightarrow> r_term s < two64"
  by (simp add: pending_ok_def)

lemma storage_ok_disk: "storage_ok d s \<Longrightarrow> disk_ok d s"
  by (auto simp: storage_ok_def disk_ok_def)

lemma sync_wal_storage:
  assumes "pending_ok d s"
  shows "storage_ok d (snd (sync_wal s))"
proof -
  obtain w where w: "r_wal s = Some w" "prefix d (w_disk w)" "legal (w_disk w)"
      "w_failed w = r_storage_failed s"
      "\<not> r_storage_failed s \<longrightarrow>
         legal (w_disk w @ w_buffer w) \<and> wal_image (recover_records (w_disk w @ w_buffer w)) s"
    using assms by (auto simp: pending_ok_def)
  have im: "wal_image R (s\<lparr>r_wal := x\<rparr>) = wal_image R s" for R x by (simp add: wal_image_def)
  show ?thesis
    using w pending_ok_term [OF assms]
    by (auto simp: sync_wal_def wal_sync_def storage_ok_def im legal_from_take
        split: sync_outcome.split)
qed

lemma sync_wal_flag:
  "pending_ok d s \<Longrightarrow> fst (sync_wal s) = (\<not> r_storage_failed (snd (sync_wal s)))"
  by (auto simp: pending_ok_def sync_wal_eq sync_ok_def wal_sync_def split: sync_outcome.split)

lemma storage_ok_cong:
  assumes "storage_ok d s" "r_wal s' = r_wal s" "r_storage_failed s' = r_storage_failed s"
    "r_term s' = r_term s" "r_voted_for s' = r_voted_for s" "r_commit_index s' = r_commit_index s"
    "r_log s' = r_log s" "r_log_offset s' = r_log_offset s"
    "r_log_offset_term s' = r_log_offset_term s" "r_last_snapshot_data s' = r_last_snapshot_data s"
  shows "storage_ok d s'"
  using assms by (simp add: storage_ok_def wal_image_def)

text \<open>Fields that are not persisted.\<close>

lemma storage_ok_irrelevant [simp]:
  "storage_ok d (reset_randomized_election_timeout s) = storage_ok d s"
  "storage_ok d (s\<lparr>r_lead := l\<rparr>) = storage_ok d s"
  "storage_ok d (s\<lparr>r_state := st\<rparr>) = storage_ok d s"
  "storage_ok d (s\<lparr>r_last_applied := n\<rparr>) = storage_ok d s"
  "storage_ok d (s\<lparr>r_election_elapsed := n\<rparr>) = storage_ok d s"
  "storage_ok d (s\<lparr>r_heartbeat_elapsed := n\<rparr>) = storage_ok d s"
  "storage_ok d (s\<lparr>r_pending_pre_vote_term := n\<rparr>) = storage_ok d s"
  "storage_ok d (s\<lparr>r_read_index_pending := b\<rparr>) = storage_ok d s"
  "storage_ok d (s\<lparr>r_pending_read_index := n\<rparr>) = storage_ok d s"
  "storage_ok d (s\<lparr>r_pending_read_context := n\<rparr>) = storage_ok d s"
  "storage_ok d (s\<lparr>r_next_read_context := n\<rparr>) = storage_ok d s"
  "storage_ok d (s\<lparr>r_read_index_acks := a\<rparr>) = storage_ok d s"
  "storage_ok d (s\<lparr>r_votes := a\<rparr>) = storage_ok d s"
  "storage_ok d (s\<lparr>r_pre_votes := a\<rparr>) = storage_ok d s"
  "storage_ok d (s\<lparr>r_progress := pr\<rparr>) = storage_ok d s"
  "storage_ok d (s\<lparr>r_msgs := ms\<rparr>) = storage_ok d s"
  by (simp_all add: storage_ok_def wal_image_def reset_randomized_election_timeout_def)

lemma storage_ok_send [simp]:
  "storage_ok d (send m s) = storage_ok d s"
  "storage_ok d (broadcast_heartbeat s) = storage_ok d s"
  "storage_ok d (set_match p i s) = storage_ok d s"
  by (simp_all add: send_def broadcast_heartbeat_eq set_match_def)

lemma storage_ok_leader [simp]: "storage_ok d (become_leader s) = storage_ok d s"
  by (simp add: become_leader_def)

text \<open>
  Persisting the hard state of \<open>s'\<close>, which differs from \<open>s\<close> in its term, vote and commit
  index in a way the protocol allows.
\<close>

definition hard_step :: "raft \<Rightarrow> raft \<Rightarrow> bool" where
  "hard_step s s' \<longleftrightarrow>
     r_wal s' = r_wal s \<and> r_storage_failed s' = r_storage_failed s \<and> r_log s' = r_log s
     \<and> r_log_offset s' = r_log_offset s \<and> r_log_offset_term s' = r_log_offset_term s
     \<and> r_last_snapshot_data s' = r_last_snapshot_data s
     \<and> vote_le (current_hard_state s) (current_hard_state s')
     \<and> (r_term s < two64 \<longrightarrow> r_term s' < two64)
     \<and> (hs_is_empty (current_hard_state s') \<longrightarrow> current_hard_state s' = current_hard_state s)
     \<and> r_commit_index s \<le> r_commit_index s' \<and> r_commit_index s' \<le> log_end s'"

lemma persist_storage:
  assumes "pending_ok d s" "hard_step s s'"
  shows "storage_ok d (snd (persist_hard_state s'))"
proof -
  obtain w where w: "r_wal s = Some w" "prefix d (w_disk w)" "legal (w_disk w)"
      "w_failed w = r_storage_failed s"
      "\<not> r_storage_failed s \<Longrightarrow> legal (w_disk w @ w_buffer w)"
      "\<not> r_storage_failed s \<Longrightarrow> wal_image (recover_records (w_disk w @ w_buffer w)) s"
    using assms by (auto simp: pending_ok_def)
  have hs: "r_log s' = r_log s" "r_log_offset s' = r_log_offset s"
      "r_log_offset_term s' = r_log_offset_term s" "r_last_snapshot_data s' = r_last_snapshot_data s"
      "vote_le (current_hard_state s) (current_hard_state s')"
      "r_commit_index s \<le> r_commit_index s'" "r_commit_index s' \<le> log_end s'" "r_term s' < two64"
    using assms by (simp_all add: hard_step_def pending_ok_def)
  let ?h = "current_hard_state s'" and ?R = "recover_records (w_disk w @ w_buffer w)"
  let ?s = "s'\<lparr>r_wal := Some (save_hard_state ?h w)\<rparr>"
  have n: "next_ok ?R (RecHardState ?h)" "wal_image (recover_record (RecHardState ?h) ?R) ?s"
    if "\<not> r_storage_failed s"
    using w(6) [OF that] hs
    by (auto simp: wal_image_def vote_le_def current_hard_state_def rec_commit_def
        rec_end_def log_end_def)
  have "pending_ok d ?s"
  proof (cases "hs_is_empty ?h")
    case True
    then have "save_hard_state ?h w = w" "current_hard_state s' = current_hard_state s"
      using assms(2) by (auto simp: hard_step_def save_hard_state_def)
    then show ?thesis
      using w hs assms(2) by (auto simp: pending_ok_def hard_step_def wal_image_def current_hard_state_def)
  next
    case False
    then have "save_hard_state ?h w = w\<lparr>w_buffer := w_buffer w @ [RecHardState ?h]\<rparr>"
      by (simp add: save_hard_state_def)
    then show ?thesis using w n hs assms(2) by (auto simp: pending_ok_def hard_step_def)
  qed
  from sync_wal_storage [OF this] show ?thesis
    using w assms(2) by (simp add: persist_hard_state_def hard_step_def)
qed


subsection \<open>Elections\<close>

lemma become_follower_storage:
  assumes "log_wf s" "storage_ok d s" "t < two64"
  shows "storage_ok d (become_follower t l s)"
proof (cases "t > r_term s")
  case True
  show ?thesis
    unfolding become_follower_newer [OF True]
    by (rule persist_storage [OF storage_ok_pending [OF assms(2)]])
      (use assms(1,3) True in \<open>auto simp: hard_step_def reset_randomized_election_timeout_def
         vote_le_def current_hard_state_def hs_is_empty_def log_wf_def log_end_def\<close>)
next
  case False
  then show ?thesis using assms by (auto simp: become_follower_def Let_def)
qed

lemma become_follower_log [simp]:
  "r_log (become_follower t l s) = r_log s"
  "r_log_offset (become_follower t l s) = r_log_offset s"
  "r_log_offset_term (become_follower t l s) = r_log_offset_term s"
  "r_last_applied (become_follower t l s) = r_last_applied s"
  "r_commit_index (become_follower t l s) = r_commit_index s"
  "r_last_snapshot_index (become_follower t l s) = r_last_snapshot_index s"
  "r_last_snapshot_data (become_follower t l s) = r_last_snapshot_data s"
  "r_id (become_follower t l s) = r_id s"
  "r_peers (become_follower t l s) = r_peers s"
  by (simp_all add: become_follower_def Let_def persist_hard_state_eq
      reset_randomized_election_timeout_def)

lemma become_follower_log_wf [simp]: "log_wf (become_follower t l s) = log_wf s"
  by (simp add: log_wf_def log_end_def)

lemma log_wf_irrelevant [simp]:
  "log_wf (reset_randomized_election_timeout s) = log_wf s"
  "log_wf (s\<lparr>r_lead := l\<rparr>) = log_wf s"
  by (simp_all add: log_wf_def log_end_def reset_randomized_election_timeout_def)

lemma prepare_storage:
  assumes "log_wf s" "storage_ok d s" "m_term msg < two64"
  shows "storage_ok d (snd (prepare_for_leader_rpc msg s))"
    and "log_wf (snd (prepare_for_leader_rpc msg s))"
  using assms by (simp_all add: prepare_for_leader_rpc_def Let_def become_follower_storage)

lemma become_candidate_storage:
  assumes "log_wf s" "storage_ok d s" "r_term s + 1 < two64"
  shows "storage_ok d (become_candidate s)"
  unfolding become_candidate_def
  by (rule persist_storage [OF storage_ok_pending [OF assms(2)]])
    (use assms(1,3) in \<open>auto simp: hard_step_def reset_randomized_election_timeout_def
       vote_le_def current_hard_state_def hs_is_empty_def log_wf_def log_end_def wrap_simps\<close>)

lemma campaign_storage [simp]:
  "storage_ok d (campaign s) = storage_ok d s"
  "storage_ok d (pre_campaign s) = storage_ok d s"
  "storage_ok d (become_pre_candidate s) = storage_ok d s"
  by (simp_all add: campaign_def pre_campaign_def become_pre_candidate_def Let_def)

lemma tick_storage [simp]: "storage_ok d (tick s) = storage_ok d s"
  by (simp add: tick_def Let_def)

text \<open>Casting the vote: the voter had not voted in this term, or for the same candidate.\<close>

lemma cast_vote_storage:
  assumes "log_wf s" "storage_ok d s" "c \<noteq> 0" "r_voted_for s = 0 \<or> r_voted_for s = c"
  shows "storage_ok d (snd (persist_hard_state (reset_randomized_election_timeout
           (s\<lparr>r_voted_for := c\<rparr>))))"
  by (rule persist_storage [OF storage_ok_pending [OF assms(2)]])
    (use assms(1,3,4) in \<open>auto simp: hard_step_def reset_randomized_election_timeout_def
       vote_le_def current_hard_state_def hs_is_empty_def log_wf_def log_end_def\<close>)

lemma handle_request_vote_storage:
  assumes "log_wf s" "storage_ok d s" "m_term msg < two64"
  shows "storage_ok d (snd (handle_request_vote msg s))"
  using assms
  by (auto simp: handle_request_vote_def Let_def case_prod_beta become_follower_storage
      misaddressed_def is_member_def intro!: cast_vote_storage)

lemma handle_request_vote_response_storage:
  assumes "log_wf s" "storage_ok d s" "m_term msg < two64"
  shows "storage_ok d (handle_request_vote_response msg s)"
  using assms by (simp add: handle_request_vote_response_def Let_def become_follower_storage)

lemma handle_pre_vote_response_storage:
  assumes "log_wf s" "storage_ok d s" "r_term s + 1 < two64" "m_term msg < two64"
  shows "storage_ok d (handle_pre_vote_response msg s)"
proof -
  have "storage_ok d (become_candidate (s\<lparr>r_pre_votes := v\<rparr>))" for v
    using assms by (intro become_candidate_storage) (auto simp: log_wf_def log_end_def)
  then show ?thesis
    using assms become_candidate_storage [OF assms(1-3)]
    by (simp add: handle_pre_vote_response_def Let_def become_follower_storage)
qed

subsection \<open>Replication\<close>

lemma advance_commit_storage:
  assumes "log_wf s" "storage_ok d s" "r_commit_index s \<le> c" "c \<le> log_end s"
  shows "storage_ok d (snd (persist_hard_state (s\<lparr>r_commit_index := c\<rparr>)))"
  by (rule persist_storage [OF storage_ok_pending [OF assms(2)]])
    (use assms(1,3,4) in \<open>auto simp: hard_step_def current_hard_state_def hs_is_empty_def
       log_wf_def log_end_def vote_le_def\<close>)

lemma record_response_storage [simp]:
  "storage_ok d (record_success msg s) = storage_ok d s"
  "storage_ok d (record_failure msg s) = storage_ok d s"
  by (simp_all add: record_success_def record_failure_def Let_def)

lemma commit_scan_storage:
  assumes "log_wf s" "storage_ok d s" "s2 = s\<lparr>r_commit_index := advance_commit s\<rparr>"
  shows "storage_ok d (if r_commit_index s2 > r_commit_index s
           then snd (persist_hard_state s2) else s2)"
proof (cases "advance_commit s = r_commit_index s")
  case True
  then show ?thesis using assms by simp
next
  case False
  then show ?thesis
    using assms advance_commit_cases [OF assms(1)] by (auto simp: advance_commit_storage)
qed

lemma handle_append_entries_response_storage:
  assumes "log_wf s" "storage_ok d s" "m_term msg < two64"
  shows "storage_ok d (handle_append_entries_response msg s)"
  using assms commit_scan_storage [of "record_success msg s" d]
  by (simp add: handle_append_entries_response_eq Let_def become_follower_storage)

lemma handle_install_snapshot_response_storage:
  assumes "log_wf s" "storage_ok d s" "m_term msg < two64"
  shows "storage_ok d (handle_install_snapshot_response msg s)"
  using assms by (simp add: handle_install_snapshot_response_def become_follower_storage)


text \<open>An outcome leaves a state with a given property, or a legal file if it is an exception.\<close>

definition outcome_ok :: "(raft \<Rightarrow> bool) \<Rightarrow> wal_record list \<Rightarrow> 'a outcome \<Rightarrow> bool" where
  "outcome_ok P d x = (case fst x of Inl _ \<Rightarrow> disk_ok d (snd x) | Inr _ \<Rightarrow> P (snd x))"

lemma disk_ok_saved:
  assumes "pending_ok d s" "r_wal s' = r_wal s" "save_result f s' = Inl x"
  shows "disk_ok d (s'\<lparr>r_wal := saved_wal f s'\<rparr>)"
  using assms
  by (auto simp: pending_ok_def disk_ok_def save_result_def saved_wal_def split: sum.splits)

lemma wal_image_put:
  assumes "rec_wf R" "next_ok R (RecEntry e)" "wal_image R s"
  shows "wal_image (recover_record (RecEntry e) R)
           (s\<lparr>r_log := take (entry_index e - r_log_offset s - 1) (r_log s) @ [e], r_wal := x\<rparr>)"
  using assms(3) recover_entry_eq [OF assms(1,2)] by (auto simp: wal_image_def rec_commit_def)

lemma put_entry_pending:
  fixes s :: raft and e :: entry
  defines "s1 \<equiv> s\<lparr>r_log := take (entry_index e - r_log_offset s - 1) (r_log s) @ [e]\<rparr>"
  assumes "log_wf s" "pending_ok d s" "r_commit_index s < entry_index e"
    "entry_index e \<le> Suc (log_end s)" "entry_index e + 1 < two64"
    and saved: "save_result (save_entry e) s1 = Inr ()"
  shows "pending_ok d (s1\<lparr>r_wal := saved_wal (save_entry e) s1\<rparr>)"
proof -
  obtain w where w: "r_wal s = Some w" "prefix d (w_disk w)" "legal (w_disk w)"
      "w_failed w = r_storage_failed s"
      "\<not> r_storage_failed s \<Longrightarrow> legal (w_disk w @ w_buffer w)"
      "\<not> r_storage_failed s \<Longrightarrow> wal_image (recover_records (w_disk w @ w_buffer w)) s"
    using assms(3) by (auto simp: pending_ok_def)
  let ?R = "recover_records (w_disk w @ w_buffer w)"
  have sv: "saved_wal (save_entry e) s1 = Some (w\<lparr>w_buffer := w_buffer w @ [RecEntry e]\<rparr>)"
    using saved w(1)
    by (auto simp: s1_def save_result_def saved_wal_def save_entry_def append_record_def
        split: if_splits)
  have ok: "next_ok ?R (RecEntry e)" if "\<not> r_storage_failed s"
    using w(6) [OF that] assms(4-6) by (simp add: wal_image_def rec_end_def log_end_def)
  have "wal_image (recover_record (RecEntry e) ?R) (s1\<lparr>r_wal := x\<rparr>)" if "\<not> r_storage_failed s" for x
    unfolding s1_def using wal_image_put [OF legal_wf [OF w(5) [OF that]] ok [OF that] w(6) [OF that]] .
  moreover have "r_storage_failed s1 = r_storage_failed s" "r_term s1 < two64"
    using pending_ok_term [OF assms(3)] by (simp_all add: s1_def)
  ultimately show ?thesis using ok w unfolding pending_ok_def sv by auto
qed

lemma append_entries_loop_pending:
  "log_wf s \<Longrightarrow> pending_ok d s \<Longrightarrow> entries_from i es \<Longrightarrow> 0 < i \<Longrightarrow> i \<le> Suc (log_end s)
   \<Longrightarrow> i + length es < two64 \<Longrightarrow> outcome_ok (pending_ok d) d (append_entries_loop i es s)"
proof (induction es arbitrary: i s)
  case Nil
  then show ?case by (simp add: outcome_ok_def)
next
  case (Cons e es)
  have nxt: "u64_inc i = Suc i" using Cons.prems by (simp add: wrap_simps)
  have lli: "last_log_index s = log_end s" using Cons.prems by (simp add: last_log_index_end)
  let ?s1 = "s\<lparr>r_log := take (i - r_log_offset s - 1) (r_log s) @ [e]\<rparr>"
  have put: "outcome_ok (pending_ok d) d (case wal_save_entry e ?s1 of
          (Inl x, s1) \<Rightarrow> (Inl x, s1) | (Inr _, s1) \<Rightarrow> append_entries_loop (u64_inc i) es s1)"
    if "r_commit_index s < i" "r_log_offset s < i"
  proof -
    note w = log_wf_put [OF Cons.prems(1) that Cons.prems(5)]
    have "save_result (save_entry e) ?s1 = Inr () \<Longrightarrow>
        pending_ok d (?s1\<lparr>r_wal := saved_wal (save_entry e) ?s1\<rparr>)"
      using put_entry_pending [OF Cons.prems(1,2), of e] that Cons.prems by simp
    then show ?thesis
      using Cons.prems Cons.IH [OF w(1)] w disk_ok_saved [OF Cons.prems(2), of ?s1 "save_entry e"]
      by (cases "save_result (save_entry e) ?s1")
        (auto simp: wal_save_entry_eq nxt outcome_ok_def)
  qed
  consider (old) "i \<le> r_log_offset s" | (present) "r_log_offset s < i" "i \<le> log_end s"
    | (new) "i = Suc (log_end s)"
    using Cons.prems by linarith
  then show ?case
  proof cases
    case old
    then show ?thesis
      using Cons.prems by (simp add: nxt Cons.IH log_end_def)
  next
    case present
    then show ?thesis
      using Cons.prems put log_pos(1) [OF Cons.prems(1) present]
      by (simp add: nxt lli Cons.IH) (simp add: outcome_ok_def)
  next
    case new
    then have "r_commit_index s < i" "r_log_offset s < i" "\<not> i \<le> log_end s"
      "take (i - r_log_offset s - 1) (r_log s) = r_log s"
      using Cons.prems by (auto simp: log_wf_def log_end_def)
    with put show ?thesis by (simp add: lli)
  qed
qed


text \<open>A refusal to overwrite a committed entry comes before anything has been written.\<close>

lemma append_entries_loop_past_commit:
  "r_commit_index s < i \<Longrightarrow> i + length es < two64 \<Longrightarrow>
     fst (append_entries_loop i es s) \<noteq> Inr (Some c)"
proof (induction es arbitrary: i s)
  case (Cons e es)
  have nxt: "u64_inc i = Suc i" using Cons.prems by (simp add: wrap_simps)
  have IH: "fst (append_entries_loop (Suc i) es s') \<noteq> Inr (Some c)"
    if "r_commit_index s' = r_commit_index s" for s'
    using Cons that by simp
  show ?case
    using Cons.prems IH by (auto simp: nxt wal_save_entry_eq split: sum.split)
qed simp

lemma append_entries_loop_refused:
  "append_entries_loop i es s = (Inr (Some c), s') \<Longrightarrow> log_wf s \<Longrightarrow> i + length es < two64 \<Longrightarrow> s' = s"
proof (induction es arbitrary: i)
  case (Cons e es)
  have nxt: "u64_inc i = Suc i" using Cons.prems by (simp add: wrap_simps)
  have no: "append_entries_loop (Suc i) es u \<noteq> (Inr (Some c), s')"
    if "r_commit_index u < i" for u
    using append_entries_loop_past_commit [of u "Suc i" es c] that Cons.prems by auto
  show ?case
  proof (cases "r_commit_index s < i")
    case True
    then show ?thesis
      using append_entries_loop_past_commit [of s i "e # es" c] Cons.prems by simp
  next
    case False
    then have "i \<le> last_log_index s"
      using Cons.prems by (simp add: last_log_index_end log_wf_def)
    then show ?thesis
      using Cons.prems False Cons.IH [of "Suc i"] by (auto simp: nxt split: if_splits)
  qed
qed simp

lemma append_entries_commit_storage:
  assumes "log_wf s" "storage_ok d s"
  shows "storage_ok d (snd (append_entries_commit msg resp s))"
  using assms advance_commit_storage [OF assms, of "min (m_leader_commit msg) (log_end s)"]
  by (auto simp: append_entries_commit_def Let_def case_prod_beta last_log_index_end log_wf_def)

lemma handle_append_entries_storage:
  assumes "node_wf s" "msg_wf msg" "storage_ok d s"
  shows "outcome_ok (storage_ok d) d (handle_append_entries msg s)"
proof -
  have lw: "log_wf s" using assms by (simp add: node_wf_def raft_wf_def)
  obtain b s1 where p: "prepare_for_leader_rpc msg s = (b, s1)" by fastforce
  then have s1: "storage_ok d s1" "node_wf s1" "log_wf s1"
    using prepare_storage [OF lw assms(3), of msg] prepare_for_leader_rpc_node [of s msg] assms
    by (auto simp: msg_wf_def)
  let ?i = "u64_inc (m_prev_log_index msg)"
  obtain r s2 where l: "append_entries_loop ?i (m_entries msg) s1 = (r, s2)" by fastforce
  show ?thesis
  proof (cases "b \<and> log_ok msg s1")
    case False
    then show ?thesis
      using s1 by (auto simp: handle_append_entries_def Let_def p outcome_ok_def split: bool.split)
  next
    case True
    then have start: "entries_from ?i (m_entries msg)" "0 < ?i" "?i \<le> Suc (log_end s1)"
        "?i + length (m_entries msg) < two64"
      using append_entries_start_facts [OF s1(3) assms(2)] by blast+
    have w2: "log_wf s2"
      using append_entries_start [OF s1(2) assms(2)] True l by (simp add: node_wf_def raft_wf_def)
    have o2: "outcome_ok (pending_ok d) d (r, s2)"
      using append_entries_loop_pending [OF s1(3) storage_ok_pending [OF s1(1)] start] l by simp
    have refused: "storage_ok d s2" if "r = Inr (Some c)" for c
      using append_entries_loop_refused [of ?i "m_entries msg" s1 c s2] l that s1 start(4) by simp
    have empty: "s2 = s1" if "m_entries msg = []" using l that by simp
    have sync: "storage_ok d (snd (sync_wal s2))" "log_wf (snd (sync_wal s2))"
      if "r = Inr x" for x
      using o2 that w2 sync_wal_storage by (auto simp: outcome_ok_def sync_wal_eq log_wf_def log_end_def)
    have "r = Inr x \<Longrightarrow> r_wal s2 \<noteq> None" for x
      using o2 by (auto simp: outcome_ok_def pending_ok_def)
    then show ?thesis
      using True o2 s1 w2 refused empty sync append_entries_commit_storage
      by (auto simp: handle_append_entries_def Let_def p l case_prod_beta outcome_ok_def
          split: sum.split option.split bool.split)
  qed
qed


lemma storage_ok_failed_log:
  "r_storage_failed s \<Longrightarrow> storage_ok d s \<Longrightarrow> storage_ok d (s\<lparr>r_log := l\<rparr>)"
  by (simp add: storage_ok_def)

lemma propose_storage:
  assumes "log_wf s" "storage_ok d s" "log_end s + 2 < two64"
  shows "outcome_ok (storage_ok d) d (propose data s)"
proof -
  let ?e = "\<lparr>entry_type = EntryNormal, entry_term = r_term s,
             entry_index = u64_inc (last_log_index s), entry_data = data\<rparr>"
  let ?s1 = "s\<lparr>r_log := r_log s @ [?e]\<rparr>"
  let ?s2 = "?s1\<lparr>r_wal := saved_wal (save_entry ?e) ?s1\<rparr>"
  note pend = storage_ok_pending [OF assms(2)]
  have idx: "entry_index ?e = Suc (log_end s)"
    using assms by (simp add: last_log_index_end wrap_simps)
  then have tk: "take (entry_index ?e - r_log_offset s - 1) (r_log s) = r_log s"
    by (simp add: log_end_def)
  have p2: "pending_ok d ?s2" if "save_result (save_entry ?e) ?s1 = Inr ()"
    using put_entry_pending [OF assms(1) pend, of ?e] that assms idx
    unfolding tk by (simp add: log_wf_def)
  have thrown: "disk_ok d ?s2" if "save_result (save_entry ?e) ?s1 = Inl x" for x
    by (rule disk_ok_saved [OF pend _ that]) simp
  show ?thesis
  proof (cases "save_result (save_entry ?e) ?s1")
    case (Inl x)
    then show ?thesis
      using assms thrown by (simp add: propose_def Let_def wal_save_entry_eq outcome_ok_def)
  next
    case (Inr u)
    then have "pending_ok d ?s2" using p2 by simp
    note sy = sync_wal_storage [OF this] sync_wal_flag [OF this]
    show ?thesis
      using assms Inr sy storage_ok_failed_log [OF _ sy(1)]
      by (auto simp: propose_def Let_def wal_save_entry_eq outcome_ok_def split: prod.split bool.split)
  qed
qed

text \<open>Saving a snapshot record whose replay turns the image of \<open>s\<close> into that of \<open>s'\<close>.\<close>

lemma save_snapshot_pending:
  assumes "pending_ok d s" "save_result (save_snapshot sn) s = Inr ()" "snap_index sn \<noteq> 0"
    "r_storage_failed s' = r_storage_failed s" "r_term s' = r_term s"
    and step: "\<And>R. rec_wf R \<Longrightarrow> wal_image R s \<Longrightarrow>
      next_ok R (RecSnapshot sn) \<and> wal_image (recover_record (RecSnapshot sn) R) s'"
  shows "pending_ok d (s'\<lparr>r_wal := saved_wal (save_snapshot sn) s\<rparr>)"
proof -
  obtain w where w: "r_wal s = Some w" "prefix d (w_disk w)" "legal (w_disk w)"
      "w_failed w = r_storage_failed s"
      "\<not> r_storage_failed s \<Longrightarrow> legal (w_disk w @ w_buffer w)"
      "\<not> r_storage_failed s \<Longrightarrow> wal_image (recover_records (w_disk w @ w_buffer w)) s"
    using assms(1) by (auto simp: pending_ok_def)
  have sv: "saved_wal (save_snapshot sn) s = Some (w\<lparr>w_buffer := w_buffer w @ [RecSnapshot sn]\<rparr>)"
    using assms(2,3) w(1)
    by (auto simp: save_result_def saved_wal_def save_snapshot_def append_record_def
        snap_is_empty_def split: if_splits)
  have im: "wal_image R (s'\<lparr>r_wal := x\<rparr>) = wal_image R s'" for R x by (simp add: wal_image_def)
  show ?thesis
    using w step [OF legal_wf [OF w(5)] w(6)] assms(4,5) pending_ok_term [OF assms(1)]
    unfolding pending_ok_def sv im by (auto simp: im simp del: recover_record.simps(3))
qed

lemma compact_image:
  fixes t :: nat and d :: bytes
  assumes "log_wf s" "r_log_offset s < i" "i \<le> r_last_applied s" "rec_wf R" "wal_image R s"
  defines "sn \<equiv> \<lparr>snap_index = i, snap_term = t, snap_state = d, snap_discard_suffix = False\<rparr>"
  shows "next_ok R (RecSnapshot sn) \<and> wal_image (recover_record (RecSnapshot sn) R)
     (s\<lparr>r_log := compact_log i (r_log s), r_log_offset := i, r_log_offset_term := t,
        r_last_snapshot_index := i, r_last_snapshot_data := d\<rparr>)"
proof -
  have ef: "entries_from (Suc (r_log_offset s)) (r_log s)" "i \<le> r_log_offset s + length (r_log s)"
    using assms(1-3) by (auto simp: log_wf_alt log_end_def)
  have "dropWhile (\<lambda>x. entry_index x \<le> i) (r_log s) = compact_log i (r_log s)"
    using dropWhile_index [OF ef(1)] compact_log_eq [OF ef(1) assms(2) ef(2)] assms(2) by simp
  moreover have "i + 1 < two64" "i \<le> r_commit_index s"
    using assms(1-3) by (auto simp: log_wf_def)
  ultimately show ?thesis
    using assms(2,5) by (auto simp: wal_image_def sn_def rec_commit_def)
qed

lemma sync_ok_cong: "r_wal s' = r_wal s \<Longrightarrow> sync_ok s' = sync_ok s \<and> synced_wal s' = synced_wal s"
  by (simp add: sync_ok_def synced_wal_def)

lemma sync_failed_storage:
  "pending_ok d s' \<Longrightarrow> r_wal s' = r_wal s \<Longrightarrow> r_storage_failed s' = r_storage_failed s
   \<Longrightarrow> r_term s' = r_term s
   \<Longrightarrow> \<not> sync_ok s \<Longrightarrow> storage_ok d (s\<lparr>r_wal := synced_wal s, r_storage_failed := True\<rparr>)"
  using sync_wal_storage [of d s'] sync_ok_cong [of s' s]
  by (auto simp: sync_wal_eq storage_ok_def)

lemma take_snapshot_storage:
  assumes "log_wf s" "storage_ok d s"
  shows "outcome_ok (storage_ok d) d (take_snapshot i state s)"
proof (cases "i = 0 \<or> i \<le> r_log_offset s \<or> i > r_last_applied s")
  case True
  then show ?thesis using assms by (simp add: take_snapshot_def outcome_ok_def)
next
  case False
  let ?sn = "\<lparr>snap_index = i, snap_term = term_at s i, snap_state = state,
              snap_discard_suffix = False\<rparr>"
  let ?w = "saved_wal (save_snapshot ?sn) s"
  let ?s' = "s\<lparr>r_log := compact_log i (r_log s), r_log_offset := i,
      r_log_offset_term := term_at s i, r_last_snapshot_index := i, r_last_snapshot_data := state\<rparr>"
  note pend = storage_ok_pending [OF assms(2)]
  show ?thesis
  proof (cases "save_result (save_snapshot ?sn) s")
    case (Inl x)
    then show ?thesis
      using False disk_ok_saved [OF pend, of s "save_snapshot ?sn"]
      by (simp add: take_snapshot_def Let_def wal_save_snapshot_eq outcome_ok_def)
  next
    case (Inr u)
    then have "pending_ok d (?s'\<lparr>r_wal := ?w\<rparr>)"
      using False compact_image [OF assms(1)]
      by (intro save_snapshot_pending [OF pend]) auto
    note sy = sync_wal_storage [OF this] sync_failed_storage [OF this, of "s\<lparr>r_wal := ?w\<rparr>"]
    have "sync_ok (?s'\<lparr>r_wal := ?w\<rparr>) = sync_ok (s\<lparr>r_wal := ?w\<rparr>)"
      "synced_wal (?s'\<lparr>r_wal := ?w\<rparr>) = synced_wal (s\<lparr>r_wal := ?w\<rparr>)"
      using sync_ok_cong [of "?s'\<lparr>r_wal := ?w\<rparr>" "s\<lparr>r_wal := ?w\<rparr>"] by simp_all
    then show ?thesis
      using False Inr sy
      by (auto simp: take_snapshot_def Let_def io_forms outcome_ok_def split: bool.split
          elim!: storage_ok_cong)
  qed
qed


lemma install_image:
  fixes t :: nat and d :: bytes
  assumes "\<not> (r_commit_index s > i \<or> r_last_applied s \<ge> i)" "log_wf s" "i + 1 < two64"
    "wal_image R s"
  defines "sn \<equiv> \<lparr>snap_index = i, snap_term = t, snap_state = d, snap_discard_suffix = True\<rparr>"
  shows "next_ok R (RecSnapshot sn) \<and> wal_image (recover_record (RecSnapshot sn) R)
     (s\<lparr>r_log := [], r_log_offset := i, r_log_offset_term := t, r_last_snapshot_index := i,
        r_last_snapshot_data := d, r_last_applied := i, r_commit_index := i\<rparr>)"
  using assms by (auto simp: wal_image_def sn_def rec_commit_def log_wf_def)

text \<open>The part of the handler after the state machine has taken the snapshot.\<close>

lemma install_storage:
  fixes t :: nat and data :: bytes
  assumes s: "log_wf s" "storage_ok d s" "\<not> (r_commit_index s > i \<or> r_last_applied s \<ge> i)"
    "i + 1 < two64" "i \<noteq> 0"
  defines "sn \<equiv> \<lparr>snap_index = i, snap_term = t, snap_state = data, snap_discard_suffix = True\<rparr>"
  defines "s2 \<equiv> s\<lparr>r_wal := saved_wal (save_snapshot sn) s\<rparr>"
  defines "inst u \<equiv> u\<lparr>r_log := [], r_log_offset := i, r_log_offset_term := t,
      r_last_snapshot_index := i, r_last_snapshot_data := data, r_last_applied := i,
      r_commit_index := i\<rparr>"
  assumes saved: "save_result (save_snapshot sn) s = Inr ()"
  shows "\<not> sync_ok s2 \<Longrightarrow> storage_ok d (snd (sync_wal s2))"
    and "sync_ok s2 \<Longrightarrow> storage_ok d (snd (persist_hard_state (inst (snd (sync_wal s2)))))"
proof -
  let ?p = "(inst s)\<lparr>r_wal := saved_wal (save_snapshot sn) s\<rparr>"
  have "pending_ok d ?p"
    using s install_image [OF s(3,1,4)] saved unfolding sn_def inst_def
    by (intro save_snapshot_pending [OF storage_ok_pending [OF s(2)]]) auto
  note p = this sync_wal_storage [OF this]
  have cong: "sync_ok ?p = sync_ok s2" "synced_wal ?p = synced_wal s2"
    using sync_ok_cong [of ?p s2] by (simp_all add: s2_def)
  show "storage_ok d (snd (sync_wal s2))" if "\<not> sync_ok s2"
    using sync_failed_storage [OF p(1), of s2] that by (simp add: s2_def inst_def sync_wal_eq)
  show "storage_ok d (snd (persist_hard_state (inst (snd (sync_wal s2)))))" if "sync_ok s2"
  proof (rule persist_storage [OF storage_ok_pending [OF p(2)]])
    show "hard_step (snd (sync_wal ?p)) (inst (snd (sync_wal s2)))"
      using that cong
      by (simp add: hard_step_def sync_wal_eq current_hard_state_def log_end_def)
        (simp add: inst_def s2_def)
  qed
qed

lemma handle_install_snapshot_storage:
  assumes "node_wf s" "msg_wf msg" "storage_ok d s"
  shows "outcome_ok (storage_ok d) d (handle_install_snapshot msg s)"
proof -
  have lw: "log_wf s" using assms by (simp add: node_wf_def raft_wf_def)
  obtain b s1 where p: "prepare_for_leader_rpc msg s = (b, s1)" by fastforce
  then have s1: "log_wf s1" "storage_ok d s1"
    using prepare_storage [OF lw assms(3), of msg] assms(2) by (auto simp: msg_wf_def)
  have i: "m_snapshot_index msg + 1 < two64" using assms by (simp add: msg_wf_def)
  let ?sn = "\<lparr>snap_index = m_snapshot_index msg, snap_term = m_snapshot_term msg,
              snap_state = m_snapshot_data msg, snap_discard_suffix = True\<rparr>"
  show ?thesis
  proof (cases "save_result (save_snapshot ?sn) s1")
    case (Inl x)
    then show ?thesis
      using s1 disk_ok_saved [OF storage_ok_pending [OF s1(2)], of s1 "save_snapshot ?sn"]
      by (auto simp: handle_install_snapshot_def Let_def p wal_save_snapshot_eq outcome_ok_def
          split: bool.split option.split)
  next
    case (Inr u)
    note inst = install_storage [OF s1 _ i, of "m_snapshot_term msg" "m_snapshot_data msg"]
    show ?thesis
      using s1 Inr inst
      by (auto simp: handle_install_snapshot_def Let_def p io_forms outcome_ok_def
          stale_snapshot_def split: bool.split option.split)
  qed
qed


subsection \<open>Every event\<close>

lemma finish_read_index_storage [simp]:
  "storage_ok d (finish_read_index tok s) = storage_ok d s"
  "storage_ok d (advance i s) = storage_ok d s"
  by (simp_all add: finish_read_index_def advance_def)

lemma read_index_storage:
  assumes "log_wf s" "storage_ok d s" "log_end s + 2 < two64"
  shows "outcome_ok (storage_ok d) d (read_index s)"
proof -
  define c where "c = (if u64_inc (r_next_read_context s) = 0 then 1
                       else u64_inc (r_next_read_context s))"
  let ?s1 = "s\<lparr>r_read_index_pending := True, r_pending_read_context := r_next_read_context s,
               r_next_read_context := c, r_read_index_acks := []\<rparr>"
  let ?x = "propose [] (?s1\<lparr>r_pending_read_index := u64_inc (last_log_index ?s1)\<rparr>)"
  have "outcome_ok (storage_ok d) d ?x"
    using assms by (intro propose_storage) (simp_all add: log_wf_def log_end_def)
  then have "outcome_ok (storage_ok d) d (case ?x of
                (Inl x, s2) \<Rightarrow> (Inl x, s2)
              | (Inr None, s2) \<Rightarrow> (Inr None, finish_read_index (pending_token s2) s2)
              | (Inr (Some _), s2) \<Rightarrow> (Inr (Some (pending_token s2)), s2))"
    by (auto simp: outcome_ok_def split: sum.split option.split prod.split)
  then show ?thesis
    unfolding read_index_def Let_def c_def [symmetric] using assms
    by (simp add: outcome_ok_def)
qed

lemma outcome_ok_returns [simp]: "outcome_ok P d (returns s) = P s"
  by (simp add: outcome_ok_def returns_def)

lemma outcome_ok_drop [simp]: "outcome_ok P d (drop_result x) = outcome_ok P d x"
  by (cases x) (simp add: outcome_ok_def drop_result_def returns_def split: sum.split)

lemma outcome_ok_reply [simp]:
  "outcome_ok (storage_ok d) d (reply_outcome x) = outcome_ok (storage_ok d) d x"
  "outcome_ok (storage_ok d) d (reply y) = storage_ok d (snd y)"
  by (cases x, simp add: outcome_ok_def reply_outcome_def returns_def split: sum.split)
    (simp add: reply_def)

lemma raft_step_storage:
  assumes "node_wf s" "event_ok ev s" "storage_ok d s"
  shows "outcome_ok (storage_ok d) d (raft_step ev s)"
proof -
  have lw: "log_wf s" using assms by (simp add: node_wf_def raft_wf_def)
  show ?thesis
  proof (cases ev)
    case (Receive m)
    then show ?thesis
      using assms lw msg_wf_def
      by (simp add: event_ok_def handle_raft_message_def handle_request_vote_storage
          handle_request_vote_response_storage handle_pre_vote_response_storage
          handle_append_entries_storage handle_append_entries_response_storage
          handle_install_snapshot_storage handle_install_snapshot_response_storage)
  qed (use assms lw in \<open>simp_all add: event_ok_def propose_storage read_index_storage
          take_snapshot_storage\<close>)
qed

subsection \<open>Restart\<close>

lemma restore_log_entries_from:
  "entries_from (Suc b) es \<Longrightarrow> o' \<le> b \<Longrightarrow> b + length es + 1 < two64 \<Longrightarrow>
     restore_log o' (Suc b) es = Inr es"
proof (induction es arbitrary: b)
  case (Cons e es)
  moreover have "u64_inc (Suc b) = Suc (Suc b)" using Cons.prems by (simp add: wrap_simps)
  ultimately show ?case by simp
qed simp

text \<open>A legal history is never refused, and restoring it gives back its image.\<close>

lemma restore_recovered:
  assumes "rec_wf R"
  shows "restore (rec_hard_state R) (rec_entries R) (rec_snapshot R) s =
     Inr (s\<lparr>r_log_offset := snap_index (rec_snapshot R),
            r_log_offset_term := snap_term (rec_snapshot R),
            r_last_snapshot_index := snap_index (rec_snapshot R),
            r_last_snapshot_data := snap_state (rec_snapshot R), r_log := rec_entries R,
            r_term := hs_term (rec_hard_state R), r_voted_for := hs_vote (rec_hard_state R),
            r_commit_index := rec_commit R, r_last_applied := snap_index (rec_snapshot R)\<rparr>)"
proof -
  let ?b = "snap_index (rec_snapshot R)"
  have "u64_inc ?b = Suc ?b" "u64_add ?b (length (rec_entries R)) = rec_end R"
    using assms by (auto simp: rec_wf_def rec_end_def wrap_simps)
  moreover have "restore_log ?b (Suc ?b) (rec_entries R) = Inr (rec_entries R)"
    using assms by (intro restore_log_entries_from) (auto simp: rec_wf_def rec_end_def)
  ultimately show ?thesis
    using assms
    by (auto simp: restore_def Let_def last_log_index_def rec_wf_def rec_commit_def)
qed

lemma raft_new_node_wf: "raft_new c rng = Inr s \<Longrightarrow> node_wf s"
  by (auto simp: raft_new_def node_wf_def out_wf_def wf_defs reset_randomized_election_timeout_def
      umap_at_def default_progress_def two64_def card_distinct split: if_splits)

end
