(* ===== verification/Raft_Votes.thy ===== *)
theory Raft_Votes
  imports Raft_Durable
begin

text \<open>
  Votes of one node: which votes are on its file, which votes a candidate has counted, and
  which grants it sends. Every grant and every counted vote rests on a record in a file,
  and a file holds at most one vote per term.
\<close>

subsection \<open>Votes on file\<close>

definition voted :: "wal_record list \<Rightarrow> nat \<Rightarrow> nat \<Rightarrow> bool" where
  "voted d t c \<longleftrightarrow>
     c \<noteq> 0 \<and> (\<exists>h. RecHardState h \<in> set d \<and> hs_term h = t \<and> hs_vote h = c)"

lemma voted_prefix: "voted d t c \<Longrightarrow> prefix d d' \<Longrightarrow> voted d' t c"
  by (auto simp: voted_def prefix_def)

lemma legal_from_later_vote:
  "legal_from R rs \<Longrightarrow> RecHardState h \<in> set rs \<Longrightarrow> vote_le (rec_hard_state R) h"
proof (induction rs arbitrary: R)
  case (Cons r rs)
  show ?case
  proof (cases "RecHardState h = r")
    case True
    then show ?thesis using Cons.prems by auto
  next
    case False
    then have "vote_le (rec_hard_state (recover_record r R)) h" using Cons by auto
    moreover have "vote_le (rec_hard_state R) (rec_hard_state (recover_record r R))"
      using Cons.prems by (cases r) auto
    ultimately show ?thesis by (rule vote_le_trans [rotated])
  qed
qed simp

lemma legal_two_votes:
  "legal_from R rs \<Longrightarrow> RecHardState h \<in> set rs \<Longrightarrow> RecHardState h' \<in> set rs \<Longrightarrow>
     vote_le h h' \<or> vote_le h' h"
proof (induction rs arbitrary: R)
  case (Cons r rs)
  have later: "vote_le g g'" if "r = RecHardState g" "RecHardState g' \<in> set rs" for g g'
    using legal_from_later_vote [of "recover_record r R" rs g'] Cons.prems(1) that by simp
  show ?case
    using Cons.prems Cons.IH [of "recover_record r R"] later by auto
qed simp

lemma legal_vote_unique: "legal d \<Longrightarrow> voted d t c \<Longrightarrow> voted d t c' \<Longrightarrow> c = c'"
  using legal_two_votes [of recovered_init d] by (fastforce simp: legal_def voted_def vote_le_def)

lemma rec_hard_state_on_file:
  "rec_hard_state (fold recover_record rs R) = rec_hard_state R
     \<or> RecHardState (rec_hard_state (fold recover_record rs R)) \<in> set rs"
proof (induction rs arbitrary: R)
  case (Cons r rs)
  show ?case using Cons.IH [of "recover_record r R"] by (cases r) auto
qed simp

lemma recovered_vote_on_file:
  assumes "hs_vote (rec_hard_state (recover_records d)) = c" "c \<noteq> 0"
  shows "voted d (hs_term (rec_hard_state (recover_records d))) c"
  using assms rec_hard_state_on_file [of d recovered_init]
  by (auto simp: voted_def recover_records_def recovered_init_def empty_hard_state_def)

definition disk_of :: "raft \<Rightarrow> wal_record list" where
  "disk_of s = (case r_wal s of None \<Rightarrow> [] | Some w \<Rightarrow> w_disk w)"

text \<open>While storage is healthy, the current vote is on file.\<close>

lemma healthy_vote_on_file:
  assumes "storage_ok d s" "\<not> r_storage_failed s" "r_voted_for s \<noteq> 0"
  shows "voted (disk_of s) (r_term s) (r_voted_for s)"
proof -
  obtain w where "r_wal s = Some w" "wal_image (recover_records (w_disk w)) s"
    using assms by (auto simp: storage_ok_def)
  then show ?thesis
    using recovered_vote_on_file [of "w_disk w"] assms(3) by (auto simp: wal_image_def disk_of_def)
qed

subsection \<open>Counted votes and sent grants\<close>

definition is_grant :: "message \<Rightarrow> bool" where
  "is_grant m \<longleftrightarrow> m_type m = MsgRequestVoteResponse \<and> m_vote_granted m"

text \<open>
  \<open>V q t c\<close> stands for: the file of \<open>q\<close> has a vote for \<open>c\<close> in term \<open>t\<close>.
\<close>

definition votes_ok :: "(nat \<Rightarrow> nat \<Rightarrow> nat \<Rightarrow> bool) \<Rightarrow> raft \<Rightarrow> bool" where
  "votes_ok V s \<longleftrightarrow>
     (r_state s \<in> {Candidate, Leader} \<longrightarrow>
        (\<forall>q. map_of (r_votes s) q = Some True \<longrightarrow> V q (r_term s) (r_id s)))
     \<and> (r_state s = Leader \<longrightarrow> count_true (r_votes s) > length (r_peers s) div 2)"

definition grants_ok :: "(nat \<Rightarrow> nat \<Rightarrow> nat \<Rightarrow> bool) \<Rightarrow> raft \<Rightarrow> bool" where
  "grants_ok V s \<longleftrightarrow>
     (\<forall>m \<in> set (r_msgs s). is_grant m \<longrightarrow> V (m_from m) (m_term m) (m_to m))"

definition ballot_ok :: "(nat \<Rightarrow> nat \<Rightarrow> nat \<Rightarrow> bool) \<Rightarrow> raft \<Rightarrow> bool" where
  "ballot_ok V s \<longleftrightarrow> votes_ok V s \<and> grants_ok V s"

lemma ballot_ok_mono:
  "ballot_ok V s \<Longrightarrow> (\<And>q t c. V q t c \<Longrightarrow> V' q t c) \<Longrightarrow> ballot_ok V' s"
  by (auto simp: ballot_ok_def votes_ok_def grants_ok_def)

text \<open>Steps that neither count nor grant a vote.\<close>

definition quiet :: "raft \<Rightarrow> raft \<Rightarrow> bool" where
  "quiet s s' \<longleftrightarrow>
     r_id s' = r_id s \<and> r_peers s' = r_peers s
     \<and> (r_state s' \<in> {Follower, PreCandidate}
        \<or> r_state s' = r_state s \<and> r_term s' = r_term s \<and> r_votes s' = r_votes s)
     \<and> (\<forall>m \<in> set (r_msgs s'). is_grant m \<longrightarrow> m \<in> set (r_msgs s))"

lemma quiet_ballot: "quiet s s' \<Longrightarrow> ballot_ok V s \<Longrightarrow> ballot_ok V s'"
  by (auto simp: quiet_def ballot_ok_def votes_ok_def grants_ok_def)

lemma quiet_refl [simp]: "quiet s s"
  by (simp add: quiet_def)

lemma quiet_trans [trans]: "quiet s s' \<Longrightarrow> quiet s' s'' \<Longrightarrow> quiet s s''"
  by (auto simp: quiet_def)


lemma quiet_same:
  "r_id s' = r_id s \<Longrightarrow> r_peers s' = r_peers s \<Longrightarrow> r_state s' = r_state s \<Longrightarrow> r_term s' = r_term s \<Longrightarrow>
   r_votes s' = r_votes s \<Longrightarrow> r_msgs s' = r_msgs s \<Longrightarrow> quiet s s'"
  by (simp add: quiet_def)

lemma quiet_updates [simp]:
  "quiet s (s\<lparr>r_lead := l\<rparr>)" "quiet s (s\<lparr>r_election_elapsed := n\<rparr>)"
  "quiet s (s\<lparr>r_heartbeat_elapsed := n\<rparr>)" "quiet s (s\<lparr>r_read_index_acks := a\<rparr>)"
  "quiet s (s\<lparr>r_progress := pr\<rparr>)" "quiet s (s\<lparr>r_commit_index := n\<rparr>)"
  "quiet s (s\<lparr>r_last_applied := n\<rparr>)" "quiet s (s\<lparr>r_pre_votes := a\<rparr>)"
  "quiet s (reset_randomized_election_timeout s)" "quiet s (snd (sync_wal s))"
  "quiet s (snd (persist_hard_state s))" "quiet s (become_follower t l s)"
  "quiet s (become_pre_candidate s)" "quiet s (set_match p i s)"
  by (simp_all add: quiet_def reset_randomized_election_timeout_def io_forms become_follower_def
      become_pre_candidate_def set_match_def Let_def)

lemma quiet_send: "\<not> is_grant m \<Longrightarrow> quiet s (send m s)"
  by (auto simp: quiet_def send_def)

lemma not_grant [simp]:
  "\<not> is_grant (make_install_snapshot s p)" "\<not> is_grant (make_append_entries s p n)"
  "\<not> is_grant (heartbeat_msg s p)" "\<not> is_grant (vote_request MsgPreVote t s p)"
  "\<not> is_grant (vote_request MsgRequestVote t s p)"
  by (simp_all add: is_grant_def make_install_snapshot_def make_append_entries_def Let_def
      heartbeat_msg_def vote_request_def default_message_def msg_type_defs)

lemma quiet_broadcast [simp]: "quiet s (broadcast_heartbeat s)"
  by (auto simp: quiet_def broadcast_heartbeat_eq)

lemma quiet_pre_campaign [simp]: "quiet s (pre_campaign s)"
  by (auto simp: quiet_def pre_campaign_def Let_def)

lemma quiet_tick: "quiet s (tick s)"
proof -
  have "quiet s (pre_campaign (become_pre_candidate s1))" if "quiet s s1" for s1
    using that quiet_trans [OF quiet_updates(13) quiet_pre_campaign] quiet_trans by blast
  moreover have "quiet s (broadcast_heartbeat s1)" if "quiet s s1" for s1
    using that quiet_broadcast quiet_trans by blast
  moreover have "quiet s (s\<lparr>r_election_elapsed := a, r_election_elapsed := b\<rparr>)"
    "quiet s (s\<lparr>r_heartbeat_elapsed := a, r_heartbeat_elapsed := b\<rparr>)" for a b
    by simp_all
  ultimately show ?thesis by (simp add: tick_def Let_def)
qed

lemma quiet_prepare: "quiet s (snd (prepare_for_leader_rpc msg s))"
proof -
  have tail: "quiet u ((reset_randomized_election_timeout u)\<lparr>r_lead := l\<rparr>)" for u l
    using quiet_trans [OF quiet_updates(9) quiet_updates(1)] .
  have "quiet s (become_follower t l (become_follower t' l' s))" for t l t' l'
    using quiet_trans [OF quiet_updates(12) quiet_updates(12)] .
  with tail show ?thesis
    by (auto simp: prepare_for_leader_rpc_def Let_def intro: quiet_trans [OF _ tail])
qed


lemma quiet_loop: "quiet s (snd (append_entries_loop i es s))"
  using append_entries_loop_frame [of i es s] by (auto simp: quiet_def)

lemma quiet_commit: "quiet s (snd (append_entries_commit msg resp s))"
  by (auto simp: append_entries_commit_def Let_def io_forms quiet_def)

lemma quiet_append_entries: "quiet s (snd (handle_append_entries msg s))"
proof -
  obtain b s1 where p: "prepare_for_leader_rpc msg s = (b, s1)" by fastforce
  obtain r s2 where l:
    "append_entries_loop (u64_inc (m_prev_log_index msg)) (m_entries msg) s1 = (r, s2)"
    by fastforce
  have q1: "quiet s s1" using quiet_prepare [of s msg] p by simp
  moreover have "quiet s1 s2" using quiet_loop [of s1] l by (metis snd_conv)
  ultimately have q2: "quiet s s2" by (rule quiet_trans)
  then have q3: "quiet s (snd (sync_wal s2))" using quiet_trans quiet_updates(10) by blast
  have "quiet s (snd (append_entries_commit msg resp u))" if "quiet s u" for u resp
    using that quiet_commit quiet_trans by blast
  then show ?thesis
    using q1 q2 q3
    by (auto simp: handle_append_entries_def Let_def p l case_prod_beta
        split: sum.split option.split bool.split)
qed

lemma quiet_install_snapshot: "quiet s (snd (handle_install_snapshot msg s))"
proof -
  obtain b s1 where p: "prepare_for_leader_rpc msg s = (b, s1)" by fastforce
  have q1: "quiet s s1" using quiet_prepare [of s msg] p by simp
  show ?thesis
    using q1
    by (auto simp: handle_install_snapshot_def Let_def p io_forms intro!: quiet_trans [OF q1]
        quiet_same split: sum.split option.split bool.split)
qed

lemma quiet_responses:
  "quiet s (handle_append_entries_response msg s)"
  "quiet s (handle_install_snapshot_response msg s)"
proof -
  have q: "quiet s (record_success msg s)" "quiet s (record_failure msg s)"
    by (simp_all add: quiet_def record_success_def record_failure_def set_match_def Let_def)
  have c: "quiet s (snd (persist_hard_state (u\<lparr>r_commit_index := n\<rparr>)))" if "quiet s u" for u n
    using that quiet_trans [OF quiet_updates(6) quiet_updates(11)] quiet_trans by blast
  have d: "quiet s (u\<lparr>r_commit_index := n\<rparr>)" "quiet s (broadcast_heartbeat u)"
    "quiet s (send (make_install_snapshot u p) u)" if "quiet s u" for u n p
    using that quiet_trans quiet_updates(6) quiet_broadcast quiet_send not_grant(1) by blast+
  show "quiet s (handle_append_entries_response msg s)"
    using q c d by (simp add: handle_append_entries_response_eq Let_def)
  show "quiet s (handle_install_snapshot_response msg s)"
    using d(2) [OF quiet_updates(14)] by (simp add: handle_install_snapshot_response_def)
qed

lemma quiet_propose: "quiet s (snd (propose data s))"
  by (auto simp: propose_def Let_def io_forms quiet_def broadcast_heartbeat_eq
      split: sum.split bool.split)

lemma read_index_state_cases:
  assumes "P s"
    and "\<And>c i s1. s1 = s\<lparr>r_read_index_pending := True,
        r_pending_read_context := r_next_read_context s, r_next_read_context := c,
        r_read_index_acks := [], r_pending_read_index := i\<rparr>
      \<Longrightarrow> P (broadcast_heartbeat s1) \<and> P (snd (propose [] s1))
        \<and> (\<forall>tok. P (finish_read_index tok (snd (propose [] s1))))"
  shows "P (snd (read_index s))"
proof -
  define c where "c = (if u64_inc (r_next_read_context s) = 0 then 1
                       else u64_inc (r_next_read_context s))"
  show ?thesis
    unfolding read_index_def Let_def c_def [symmetric]
    using assms(1) assms(2) [OF refl]
    by (simp add: case_prod_beta split: sum.split option.split)
qed

lemma quiet_read_index: "quiet s (snd (read_index s))"
proof (rule read_index_state_cases)
  fix c i s1
  assume s1: "s1 = s\<lparr>r_read_index_pending := True,
        r_pending_read_context := r_next_read_context s, r_next_read_context := c,
        r_read_index_acks := [], r_pending_read_index := i\<rparr>"
  have q: "quiet s s1" by (simp add: s1 quiet_def)
  have "quiet u (finish_read_index tok u)" for tok u
    by (simp add: finish_read_index_def quiet_def)
  then show "quiet s (broadcast_heartbeat s1) \<and> quiet s (snd (propose [] s1))
        \<and> (\<forall>tok. quiet s (finish_read_index tok (snd (propose [] s1))))"
    using quiet_trans [OF q] quiet_broadcast quiet_propose quiet_trans by blast
qed simp

lemma quiet_take_snapshot: "quiet s (snd (take_snapshot i d s))"
  by (auto simp: take_snapshot_def Let_def io_forms quiet_def split: sum.split bool.split)


subsection \<open>Steps that count or grant a vote\<close>

lemma handle_request_vote_quiet: "quiet s (snd (handle_request_vote msg s))"
proof -
  have "quiet s (snd (persist_hard_state (reset_randomized_election_timeout
      (u\<lparr>r_voted_for := c\<rparr>))))" if "quiet s u" for u c
    by (rule quiet_trans [OF that])
      (simp add: quiet_same persist_hard_state_eq reset_randomized_election_timeout_def)
  then show ?thesis by (simp add: handle_request_vote_def Let_def case_prod_beta)
qed

lemma handle_request_vote_grant:
  assumes "handle_request_vote msg s = (m, s')" "m_vote_granted m"
  shows "\<not> misaddressed msg s" "m_to m = m_from msg" "m_from m = r_id s" "m_term m = r_term s'"
    "r_voted_for s' = m_from msg" "\<not> r_storage_failed s'" "r_term s' = m_term msg"
  using assms
  by (auto simp: handle_request_vote_def Let_def io_forms default_message_def
      reset_randomized_election_timeout_def split: if_splits)

lemma handle_request_vote_ballot:
  assumes "ballot_ok V s" "storage_ok d (snd (handle_request_vote msg s))"
    and V: "\<And>t c. voted (disk_of (snd (handle_request_vote msg s))) t c \<Longrightarrow> V (r_id s) t c"
  shows "ballot_ok V (snd (reply (handle_request_vote msg s)))"
proof -
  obtain m s' where h: "handle_request_vote msg s = (m, s')" by fastforce
  have b: "ballot_ok V s'" using quiet_ballot [OF handle_request_vote_quiet assms(1)] h by (metis snd_conv)
  have "V (m_from m) (m_term m) (m_to m)" if "m_vote_granted m"
  proof -
    note g = handle_request_vote_grant [OF h that]
    then have "m_from msg \<noteq> 0" by (simp add: misaddressed_def is_member_def)
    then have "voted (disk_of s') (r_term s') (m_from msg)"
      using healthy_vote_on_file [of d s'] assms(2) g h by simp
    then show ?thesis using V g h by simp
  qed
  then show ?thesis
    using b h
    by (auto simp: reply_def returns_def send_def ballot_ok_def votes_ok_def grants_ok_def is_grant_def)
qed

lemma become_leader_fields [simp]:
  "r_votes (become_leader s) = r_votes s" "r_term (become_leader s) = r_term s"
  "r_id (become_leader s) = r_id s" "r_peers (become_leader s) = r_peers s"
  "r_state (become_leader s) = Leader"
  by (simp_all add: become_leader_def broadcast_heartbeat_eq)

lemma become_leader_grants: "grants_ok V (become_leader s) = grants_ok V s"
  by (auto simp: become_leader_def broadcast_heartbeat_eq grants_ok_def)

lemma handle_request_vote_response_ballot:
  assumes b: "ballot_ok V s"
    and g: "is_grant msg \<Longrightarrow> V (m_from msg) (m_term msg) (m_to msg)"
    and ty: "m_type msg = MsgRequestVoteResponse"
  shows "ballot_ok V (handle_request_vote_response msg s)"
proof (cases "misaddressed msg s \<or> m_term msg \<noteq> r_term s \<or> r_state s \<noteq> Candidate")
  case True
  then have "quiet s (handle_request_vote_response msg s)"
    by (auto simp: handle_request_vote_response_def)
  then show ?thesis using b by (rule quiet_ballot)
next
  case False
  define s1 where "s1 = (if m_vote_granted msg
      then s\<lparr>r_votes := umap_put (r_votes s) (m_from msg) True\<rparr> else s)"
  have f: "r_term s1 = r_term s" "r_id s1 = r_id s" "r_state s1 = Candidate" "r_msgs s1 = r_msgs s"
    using False by (simp_all add: s1_def)
  have "V q (r_term s1) (r_id s1)" if "map_of (r_votes s1) q = Some True" for q
    using that b g ty False
    by (auto simp: s1_def ballot_ok_def votes_ok_def umap_simps is_grant_def misaddressed_def
        split: if_splits)
  moreover have "grants_ok V s1" using b f by (simp add: ballot_ok_def grants_ok_def)
  ultimately have "ballot_ok V s1" "count_true (r_votes s1) > length (r_peers s1) div 2 \<Longrightarrow>
      ballot_ok V (become_leader s1)"
    using f by (auto simp: ballot_ok_def votes_ok_def become_leader_grants)
  then show ?thesis
    using False by (simp add: handle_request_vote_response_def s1_def [symmetric] Let_def)
qed

lemma campaign_ballot:
  assumes "grants_ok V s" "storage_ok d (become_candidate s)" "r_id s \<noteq> 0"
    and V: "\<And>t c. voted (disk_of (become_candidate s)) t c \<Longrightarrow> V (r_id s) t c"
  shows "ballot_ok V (campaign (become_candidate s))"
proof -
  let ?c = "become_candidate s"
  have c: "r_voted_for ?c = r_id s" "r_id ?c = r_id s" "r_votes ?c = []" "r_state ?c = Candidate"
    "r_msgs ?c = r_msgs s"
    by (simp_all add: become_candidate_def persist_hard_state_eq reset_randomized_election_timeout_def)
  have "V (r_id s) (r_term ?c) (r_id s)" if "\<not> r_storage_failed ?c"
    using healthy_vote_on_file [OF assms(2) that] assms(3) V c by simp
  then show ?thesis
    using assms(1) c
    by (auto simp: ballot_ok_def votes_ok_def grants_ok_def campaign_def Let_def umap_simps
        split: if_splits)
qed


lemma become_candidate_disk: "disk_of (campaign s) = disk_of s"
  by (simp add: campaign_def disk_of_def Let_def)

lemma handle_pre_vote_response_ballot:
  assumes b: "ballot_ok V s" and id: "r_id s \<noteq> 0"
    and st: "storage_ok d (handle_pre_vote_response msg s)"
    and V: "\<And>t c. voted (disk_of (handle_pre_vote_response msg s)) t c \<Longrightarrow> V (r_id s) t c"
  shows "ballot_ok V (handle_pre_vote_response msg s)"
proof -
  define s1 where "s1 = (if m_vote_granted msg
      then s\<lparr>r_pre_votes := umap_put (r_pre_votes s) (m_from msg) True\<rparr> else s)"
  have q: "quiet s s1" "r_id s1 = r_id s" by (simp_all add: s1_def)
  then have b1: "ballot_ok V s1" using b quiet_ballot by blast
  have "quiet s (handle_pre_vote_response msg s)
      \<or> handle_pre_vote_response msg s = campaign (become_candidate s1)"
    using q(1) by (simp add: handle_pre_vote_response_def s1_def [symmetric] Let_def)
  then consider (quiet) "quiet s (handle_pre_vote_response msg s)"
    | (win) "handle_pre_vote_response msg s = campaign (become_candidate s1)"
    by blast
  then show ?thesis
  proof cases
    case quiet
    then show ?thesis using b by (rule quiet_ballot)
  next
    case win
    show ?thesis
      unfolding win
      by (rule campaign_ballot [where d = d])
        (use b1 st id q V win in \<open>simp_all add: ballot_ok_def become_candidate_disk\<close>)
  qed
qed

subsection \<open>Every event\<close>

text \<open>The dispatch on the message type, as a case rule.\<close>

lemma handle_raft_message_cases:
  obtains
    (request_vote) "m_type msg = MsgRequestVote"
      "handle_raft_message msg s = reply (handle_request_vote msg s)"
  | (request_vote_response) "m_type msg = MsgRequestVoteResponse"
      "handle_raft_message msg s = returns (handle_request_vote_response msg s)"
  | (pre_vote) "m_type msg = MsgPreVote"
      "handle_raft_message msg s = reply (handle_pre_vote msg s)"
  | (pre_vote_response) "m_type msg = MsgPreVoteResponse"
      "handle_raft_message msg s = returns (handle_pre_vote_response msg s)"
  | (append_entries) "m_type msg = MsgAppendEntries"
      "handle_raft_message msg s = reply_outcome (handle_append_entries msg s)"
  | (append_entries_response) "m_type msg = MsgAppendEntriesResponse"
      "handle_raft_message msg s = returns (handle_append_entries_response msg s)"
  | (install_snapshot) "m_type msg = MsgInstallSnapshot"
      "handle_raft_message msg s = reply_outcome (handle_install_snapshot msg s)"
  | (install_snapshot_response) "m_type msg = MsgInstallSnapshotResponse"
      "handle_raft_message msg s = returns (handle_install_snapshot_response msg s)"
  | (other) "handle_raft_message msg s = returns s"
proof -
  let ?all = "[MsgRequestVote, MsgRequestVoteResponse, MsgPreVote, MsgPreVoteResponse,
    MsgAppendEntries, MsgAppendEntriesResponse, MsgInstallSnapshot, MsgInstallSnapshotResponse]"
  have d: "distinct ?all" by (simp add: msg_type_defs)
  consider "m_type msg = MsgRequestVote" | "m_type msg = MsgRequestVoteResponse"
    | "m_type msg = MsgPreVote" | "m_type msg = MsgPreVoteResponse"
    | "m_type msg = MsgAppendEntries" | "m_type msg = MsgAppendEntriesResponse"
    | "m_type msg = MsgInstallSnapshot" | "m_type msg = MsgInstallSnapshotResponse"
    | "m_type msg \<notin> set ?all"
    by auto
  then show thesis
    by cases (use d in \<open>auto simp: handle_raft_message_def intro: that\<close>)
qed

lemma quiet_local_event: "\<forall>m. ev \<noteq> Receive m \<Longrightarrow> quiet s (snd (raft_step ev s))"
  by (cases ev) (simp_all add: quiet_tick quiet_propose quiet_read_index quiet_take_snapshot
      finish_read_index_def advance_def quiet_same)

lemma raft_step_fields:
  "r_id (snd (raft_step ev s)) = r_id s \<and> r_peers (snd (raft_step ev s)) = r_peers s"
proof (cases ev)
  case (Receive m)
  have "r_id (handle_request_vote_response m s) = r_id s
      \<and> r_peers (handle_request_vote_response m s) = r_peers s"
    "r_id (handle_pre_vote_response m s) = r_id s
      \<and> r_peers (handle_pre_vote_response m s) = r_peers s"
    by (simp_all add: handle_request_vote_response_def handle_pre_vote_response_def Let_def
        campaign_def become_candidate_def persist_hard_state_eq
        reset_randomized_election_timeout_def)
  moreover have "r_id (snd (reply_outcome x)) = r_id (snd x)"
    "r_peers (snd (reply_outcome x)) = r_peers (snd x)" for x
    by (cases x, simp add: reply_outcome_def returns_def send_def split: sum.split)+
  ultimately show ?thesis
    using Receive handle_request_vote_quiet [of s m] quiet_append_entries [of s m]
      quiet_install_snapshot [of s m] quiet_responses [of s m]
    by (simp add: handle_raft_message_def quiet_def reply_def returns_def send_def)
next
  case (Take_snapshot i d)
  then show ?thesis using quiet_take_snapshot [of s i d] by (simp add: quiet_def)
qed (use quiet_tick [of s] quiet_propose [of s] quiet_read_index [of s] in
    \<open>auto simp: quiet_def finish_read_index_def advance_def\<close>)

text \<open>
  The vote contract of one node: if the grants it receives are on file where they claim to
  be, and \<open>V\<close> knows its own file after the step, then the votes it counts and the grants it
  sends are on file too.
\<close>

lemma answers_are_no_grants:
  "handle_append_entries m s = (Inr r, u) \<Longrightarrow> \<not> is_grant r" "handle_install_snapshot m s = (Inr r, u) \<Longrightarrow> \<not> is_grant r"
  "\<not> is_grant (fst (handle_pre_vote m s))"
proof -
  show "\<not> is_grant r" if "handle_append_entries m s = (Inr r, u)"
    using handle_append_entries_shape [OF that] by (simp add: reply_shape_def is_grant_def msg_type_defs)
  show "\<not> is_grant r" if "handle_install_snapshot m s = (Inr r, u)"
    using handle_install_snapshot_shape [OF that] by (simp add: reply_shape_def is_grant_def msg_type_defs)
  show "\<not> is_grant (fst (handle_pre_vote m s))"
    by (simp add: handle_pre_vote_def Let_def default_message_def is_grant_def msg_type_defs)
qed

lemma voted_ballot:
  assumes "reply (handle_request_vote m s) = (Inr (), s')" "ballot_ok V s" "storage_ok d s'"
    "\<And>t c. voted (disk_of s') t c \<Longrightarrow> V (r_id s) t c"
  shows "ballot_ok V s'"
proof -
  have "s' = send (fst (handle_request_vote m s)) (snd (handle_request_vote m s))"
    using assms(1) by (simp add: reply_def returns_def)
  then have "storage_ok d (snd (handle_request_vote m s))"
    "disk_of s' = disk_of (snd (handle_request_vote m s))"
    using assms(3) by (simp_all add: disk_of_def send_def)
  with handle_request_vote_ballot [OF assms(2)] assms(1,4) show ?thesis by (metis snd_conv)
qed

lemma raft_step_ballot:
  assumes step: "raft_step ev s = (Inr (), s')" and b: "ballot_ok V s" and id: "r_id s \<noteq> 0"
    and st: "storage_ok d s'" and V: "\<And>t c. voted (disk_of s') t c \<Longrightarrow> V (r_id s) t c"
    and recv: "\<And>m. ev = Receive m \<Longrightarrow> is_grant m \<Longrightarrow> V (m_from m) (m_term m) (m_to m)"
  shows "ballot_ok V s'"
proof (cases ev)
  case (Receive m)
  have sendq: "ballot_ok V (send r u)" if "quiet s u" "\<not> is_grant r" for r u
    using that b quiet_send quiet_trans quiet_ballot by blast
  have ro: "ballot_ok V s'" if "reply_outcome x = (Inr (), s')" "quiet s (snd x)"
      "\<And>r u. x = (Inr r, u) \<Longrightarrow> \<not> is_grant r" for x
    using that sendq by (auto simp: reply_outcome_def returns_def split: sum.splits prod.splits)
  have run: "handle_raft_message m s = (Inr (), s')" using step Receive by simp
  show ?thesis
  proof (cases rule: handle_raft_message_cases [of m s])
    case request_vote
    then show ?thesis using voted_ballot [of m s s', OF _ b st V] run by simp
  next
    case request_vote_response
    then have "s' = handle_request_vote_response m s" using run by (simp add: returns_def)
    with handle_request_vote_response_ballot [OF b recv [OF Receive]] request_vote_response(1)
    show ?thesis by simp
  next
    case pre_vote
    then show ?thesis using run sendq [OF _ answers_are_no_grants(3) [of m s]] by (simp add: reply_def returns_def)
  next
    case pre_vote_response
    then have "s' = handle_pre_vote_response m s" using run by (simp add: returns_def)
    then show ?thesis using handle_pre_vote_response_ballot [OF b id] st V by simp
  next
    case append_entries
    then show ?thesis using run ro [OF _ quiet_append_entries answers_are_no_grants(1) [of m s]] by simp
  next
    case append_entries_response
    then show ?thesis using run quiet_ballot [OF quiet_responses(1) b] by (simp add: returns_def)
  next
    case install_snapshot
    then show ?thesis using run ro [OF _ quiet_install_snapshot answers_are_no_grants(2) [of m s]] by simp
  next
    case install_snapshot_response
    then show ?thesis using run quiet_ballot [OF quiet_responses(2) b] by (simp add: returns_def)
  next
    case other
    then show ?thesis using run b by (simp add: returns_def)
  qed
qed (use step quiet_ballot [OF quiet_local_event [of ev s] b] in auto)

end
