(* ===== verification/Raft_Forward.thy ===== *)
theory Raft_Forward
  imports Raft_Votes
begin

text \<open>
  What a step of a node may change: the term and the vote only move forward, the commit,
  applied and snapshot indices never go back, committed entries are never rewritten, and a
  leader never removes an entry of its log.
\<close>

subsection \<open>The relation\<close>

definition log_at :: "raft \<Rightarrow> nat \<Rightarrow> entry" where
  "log_at s i = r_log s ! (i - r_log_offset s - 1)"

definition kept :: "raft \<Rightarrow> raft \<Rightarrow> bool" where
  "kept s s' \<longleftrightarrow>
     r_commit_index s \<le> r_commit_index s' \<and> r_last_applied s \<le> r_last_applied s'
     \<and> r_log_offset s \<le> r_log_offset s'
     \<and> (\<forall>i. r_log_offset s' < i \<longrightarrow> i \<le> r_commit_index s \<longrightarrow> log_at s' i = log_at s i)"

definition forward :: "raft \<Rightarrow> raft \<Rightarrow> bool" where
  "forward s s' \<longleftrightarrow> vote_le (current_hard_state s) (current_hard_state s') \<and> kept s s'"

lemma kept_trans: "kept s s' \<Longrightarrow> kept s' s'' \<Longrightarrow> kept s s''"
  by (auto simp: kept_def)

lemma forward_trans [trans]: "forward s s' \<Longrightarrow> forward s' s'' \<Longrightarrow> forward s s''"
  by (auto simp: forward_def intro: vote_le_trans kept_trans)

lemma forward_same:
  assumes "r_term s' = r_term s" "r_voted_for s' = r_voted_for s"
    "r_commit_index s' = r_commit_index s" "r_last_applied s' = r_last_applied s"
    "r_log_offset s' = r_log_offset s" "r_log s' = r_log s"
  shows "forward s s'"
  using assms by (simp add: forward_def kept_def log_at_def current_hard_state_def)

lemma forward_refl [simp]: "forward s s"
  by (simp add: forward_same)

lemma kept_same:
  assumes "r_commit_index s' = r_commit_index s" "r_last_applied s' = r_last_applied s"
    "r_log_offset s' = r_log_offset s" "r_log s' = r_log s"
  shows "kept s s'"
  using assms by (simp add: kept_def log_at_def)

lemma forward_vote:
  assumes "vote_le (current_hard_state s) (current_hard_state s')"
    "r_commit_index s' = r_commit_index s" "r_last_applied s' = r_last_applied s"
    "r_log_offset s' = r_log_offset s" "r_log s' = r_log s"
  shows "forward s s'"
  using assms by (simp add: forward_def kept_same)

lemma forward_commit:
  assumes "r_term s' = r_term s" "r_voted_for s' = r_voted_for s"
    "r_commit_index s \<le> r_commit_index s'" "r_last_applied s \<le> r_last_applied s'"
    "r_log_offset s' = r_log_offset s" "r_log s' = r_log s"
  shows "forward s s'"
  using assms by (simp add: forward_def kept_def log_at_def current_hard_state_def vote_le_def)

subsection \<open>Elections\<close>

lemma forward_basic [simp]:
  "forward s (reset_randomized_election_timeout s)" "forward s (snd (sync_wal s))"
  "forward s (snd (persist_hard_state s))" "forward s (broadcast_heartbeat s)"
  "forward s (send m s)" "forward s (become_leader s)" "forward s (set_match p i s)"
  "forward s (pre_campaign s)" "forward s (become_pre_candidate s)" "forward s (campaign s)"
  "forward s (record_success msg s)" "forward s (record_failure msg s)"
  by (rule forward_same;
      simp add: reset_randomized_election_timeout_def io_forms broadcast_heartbeat_eq send_def
        become_leader_def set_match_def pre_campaign_def become_pre_candidate_def campaign_def
        record_success_def record_failure_def Let_def)+

lemma forward_follower [simp]: "forward s (become_follower t l s)"
  by (rule forward_vote) (auto simp: become_follower_def Let_def persist_hard_state_eq vote_le_def
      reset_randomized_election_timeout_def current_hard_state_def)

lemma forward_candidate: "r_term s + 1 < two64 \<Longrightarrow> forward s (become_candidate s)"
  by (rule forward_vote) (simp_all add: become_candidate_def persist_hard_state_eq vote_le_def
      reset_randomized_election_timeout_def current_hard_state_def wrap_simps)

lemma forward_tick: "forward s (tick s)"
proof -
  have "forward s (pre_campaign (become_pre_candidate (s\<lparr>r_election_elapsed := e\<rparr>)))"
    "forward s (broadcast_heartbeat (s\<lparr>r_heartbeat_elapsed := e\<rparr>))"
    "forward s (s\<lparr>r_election_elapsed := e\<rparr>)" "forward s (s\<lparr>r_heartbeat_elapsed := e\<rparr>)" for e
    by (rule forward_same; simp add: pre_campaign_def become_pre_candidate_def Let_def
        reset_randomized_election_timeout_def broadcast_heartbeat_eq)+
  then show ?thesis by (simp add: tick_def Let_def)
qed

lemma forward_prepare: "forward s (snd (prepare_for_leader_rpc msg s))"
proof -
  have tail: "forward u ((reset_randomized_election_timeout u)\<lparr>r_lead := l\<rparr>)" for u l
    by (rule forward_same) (simp_all add: reset_randomized_election_timeout_def)
  have "forward s (become_follower t l (become_follower t' l' s))" for t l t' l'
    by (rule forward_trans [OF forward_follower forward_follower])
  with tail show ?thesis
    by (auto simp: prepare_for_leader_rpc_def Let_def intro: forward_trans [OF _ tail])
qed

lemma forward_request_vote: "forward s (snd (handle_request_vote msg s))"
proof -
  have "forward s (snd (persist_hard_state (reset_randomized_election_timeout
      (u\<lparr>r_voted_for := c\<rparr>))))" if "forward s u" "r_voted_for u = 0 \<or> r_voted_for u = c" for u c
    by (rule forward_trans [OF that(1)], rule forward_vote)
      (use that(2) in \<open>auto simp: persist_hard_state_eq reset_randomized_election_timeout_def
         vote_le_def current_hard_state_def\<close>)
  then show ?thesis by (auto simp: handle_request_vote_def Let_def case_prod_beta)
qed

lemma forward_request_vote_response: "forward s (handle_request_vote_response msg s)"
proof -
  have "forward s (become_leader (s\<lparr>r_votes := v\<rparr>))" "forward s (s\<lparr>r_votes := v\<rparr>)" for v
    by (rule forward_same; simp add: become_leader_def broadcast_heartbeat_eq)+
  then show ?thesis by (simp add: handle_request_vote_response_def Let_def)
qed

lemma forward_pre_vote_response:
  assumes "r_term s + 1 < two64"
  shows "forward s (handle_pre_vote_response msg s)"
proof -
  have q: "forward s (s\<lparr>r_pre_votes := v\<rparr>)" for v by (rule forward_same) simp_all
  have "forward s (campaign (become_candidate u))" if "forward s u" "r_term u = r_term s" for u
    using forward_trans [OF that(1) forward_trans [OF forward_candidate forward_basic(10)]]
      that(2) assms by simp
  then show ?thesis using q by (simp add: handle_pre_vote_response_def Let_def)
qed


subsection \<open>The AppendEntries loop against a reference definition\<close>

text \<open>
  What a follower's log should become: everything before the first entry of the message
  that the log lacks or holds with another term, then the rest of the message. \<open>b\<close> is the
  index the log starts after and \<open>i\<close> the index of the first entry of the message.
\<close>

fun merge_log :: "nat \<Rightarrow> nat \<Rightarrow> entry list \<Rightarrow> entry list \<Rightarrow> entry list" where
  "merge_log b i [] log = log"
| "merge_log b i (e # es) log =
     (if b < i \<and> (length log < i - b \<or> entry_term (log ! (i - b - 1)) \<noteq> entry_term e)
      then take (i - b - 1) log @ e # es
      else merge_log b (Suc i) es log)"

text \<open>The index of the first divergence, if there is one.\<close>

fun divergence :: "nat \<Rightarrow> nat \<Rightarrow> entry list \<Rightarrow> entry list \<Rightarrow> nat option" where
  "divergence b i [] log = None"
| "divergence b i (e # es) log =
     (if b < i \<and> (length log < i - b \<or> entry_term (log ! (i - b - 1)) \<noteq> entry_term e)
      then Some i else divergence b (Suc i) es log)"

lemma append_entries_loop_new:
  "log_wf s \<Longrightarrow> entries_from i es \<Longrightarrow> i = Suc (log_end s) \<Longrightarrow> i + length es < two64 \<Longrightarrow>
     append_entries_loop i es s = (Inr r, s') \<Longrightarrow> r = None \<and> r_log s' = r_log s @ es"
proof (induction es arbitrary: i s)
  case (Cons e es)
  have nxt: "u64_inc i = Suc i" using Cons.prems by (simp add: wrap_simps)
  then have nxt': "u64_inc (Suc (log_end s)) = Suc (Suc (log_end s))" using Cons.prems by simp
  have c: "\<not> i \<le> r_log_offset s" "\<not> i \<le> last_log_index s" "r_commit_index s < i"
    using Cons.prems by (auto simp: last_log_index_end log_wf_def log_end_def)
  let ?s1 = "s\<lparr>r_log := r_log s @ [e]\<rparr>"
  let ?s2 = "s\<lparr>r_log := r_log s @ [e], r_wal := saved_wal (save_entry e) ?s1\<rparr>"
  have "log_wf ?s2" "log_end ?s2 = i"
    using log_wf_put [of s i e "saved_wal (save_entry e) ?s1"] Cons.prems c
    by (auto simp: log_end_def)
  then show ?case
    using Cons.prems c Cons.IH [of ?s2 "Suc i"]
    by (cases "save_result (save_entry e) ?s1") (auto simp: nxt nxt' wal_save_entry_eq)
qed simp

text \<open>The first entry that is written, and all that follow it.\<close>

lemma append_entries_loop_put:
  assumes lw: "log_wf s" and es: "entries_from i (e # es)" "i \<le> Suc (log_end s)" "i + length (e # es) < two64"
    and i: "r_commit_index s < i" "r_log_offset s < i"
  defines "s1 \<equiv> s\<lparr>r_log := take (i - r_log_offset s - 1) (r_log s) @ [e]\<rparr>"
  assumes run: "(case wal_save_entry e s1 of (Inl x, s2) \<Rightarrow> (Inl x, s2)
         | (Inr _, s2) \<Rightarrow> append_entries_loop (u64_inc i) es s2) = (Inr r, s')"
  shows "r = None \<and> r_log s' = take (i - r_log_offset s - 1) (r_log s) @ e # es"
proof -
  let ?s2 = "s\<lparr>r_log := take (i - r_log_offset s - 1) (r_log s) @ [e], r_wal := saved_wal (save_entry e) s1\<rparr>"
  have nxt: "u64_inc i = Suc i" using es(3) by (simp add: wrap_simps)
  have loop: "append_entries_loop (Suc i) es ?s2 = (Inr r, s')"
    using run by (cases "save_result (save_entry e) s1"; simp add: nxt wal_save_entry_eq s1_def)
  have e: "entry_index e = i" "i + 1 < two64" using es(1,3) by simp_all
  note w = log_wf_put [OF lw i es(2) e]
  have "r = None \<and> r_log s' = r_log ?s2 @ es"
    by (rule append_entries_loop_new [OF w(1) _ _ _ loop]) (use es(1,3) w(2) in simp_all)
  then show ?thesis by simp
qed

lemma append_entries_loop_merge:
  "log_wf s \<Longrightarrow> entries_from i es \<Longrightarrow> 0 < i \<Longrightarrow> i \<le> Suc (log_end s) \<Longrightarrow> i + length es < two64 \<Longrightarrow>
     append_entries_loop i es s = (Inr r, s') \<Longrightarrow>
     (case divergence (r_log_offset s) i es (r_log s) of
        None \<Rightarrow> r = None \<and> s' = s
      | Some k \<Rightarrow>
          if k \<le> r_commit_index s then r = Some (r_commit_index s) \<and> s' = s
          else r = None \<and> r_log s' = merge_log (r_log_offset s) i es (r_log s))"
proof (induction es arbitrary: i)
  case (Cons e es)
  let ?b = "r_log_offset s"
  have nxt: "u64_inc i = Suc i" using Cons.prems by (simp add: wrap_simps)
  have lli: "last_log_index s = log_end s" using Cons.prems by (simp add: last_log_index_end)
  note put = append_entries_loop_put [OF Cons.prems(1,2,4,5), of r s']
  consider (old) "i \<le> ?b" | (present) "?b < i" "i \<le> log_end s" | (new) "i = Suc (log_end s)" "?b < i"
    using Cons.prems by (fastforce simp: log_end_def)
  then show ?case
  proof cases
    case old
    then show ?thesis
      using Cons.prems Cons.IH [of "Suc i"] by (simp add: nxt log_end_def split: option.splits)
  next
    case present
    note pos = log_pos [OF Cons.prems(1) present] term_at_entry [OF Cons.prems(1) present]
    have nl: "\<not> length (r_log s) < i - ?b" using present by (simp add: log_end_def)
    show ?thesis
    proof (cases "term_at s i = entry_term e")
      case True
      then show ?thesis
        using Cons.prems Cons.IH [of "Suc i"] present pos nl
        by (simp add: nxt lli split: option.splits)
    next
      case False
      then show ?thesis
        using Cons.prems put present pos by (auto simp: lli split: if_splits)
    qed
  next
    case new
    then have "r_commit_index s < i" "\<not> i \<le> log_end s" "length (r_log s) < i - ?b"
      "take (i - ?b - 1) (r_log s) = r_log s"
      using Cons.prems by (auto simp: log_wf_def log_end_def)
    then show ?thesis using Cons.prems put new(2) by (simp add: lli)
  qed
qed simp


subsection \<open>Replication, snapshots and reads\<close>

definition committed_part :: "raft \<Rightarrow> entry list" where
  "committed_part s = take (r_commit_index s - r_log_offset s) (r_log s)"

lemma append_entries_loop_committed:
  "log_wf s \<Longrightarrow> entries_from i es \<Longrightarrow> 0 < i \<Longrightarrow> i \<le> Suc (log_end s) \<Longrightarrow> i + length es < two64
   \<Longrightarrow> committed_part (snd (append_entries_loop i es s)) = committed_part s"
proof (induction es arbitrary: i s)
  case (Cons e es)
  have nxt: "u64_inc i = Suc i" using Cons.prems by (simp add: wrap_simps)
  have lli: "last_log_index s = log_end s" using Cons.prems by (simp add: last_log_index_end)
  let ?s1 = "s\<lparr>r_log := take (i - r_log_offset s - 1) (r_log s) @ [e]\<rparr>"
  have put: "committed_part (snd (case wal_save_entry e ?s1 of
          (Inl x, s1) \<Rightarrow> (Inl x, s1) | (Inr _, s1) \<Rightarrow> append_entries_loop (u64_inc i) es s1))
        = committed_part s"
    if "r_commit_index s < i" "r_log_offset s < i"
  proof -
    have e: "entry_index e = i" "i + 1 < two64" using Cons.prems(2,5) by simp_all
    note w = log_wf_put [OF Cons.prems(1) that Cons.prems(4) e]
    have c: "committed_part (?s1\<lparr>r_wal := x\<rparr>) = committed_part s" for x
      using that Cons.prems(4) by (auto simp: committed_part_def log_end_def min_def)
    have "committed_part (snd (append_entries_loop (Suc i) es (?s1\<lparr>r_wal := x\<rparr>)))
        = committed_part (?s1\<lparr>r_wal := x\<rparr>)" for x
      by (rule Cons.IH [OF w(1)]) (use Cons.prems(2,5) w(2) in simp_all)
    with c show ?thesis
      by (cases "save_result (save_entry e) ?s1") (simp_all add: wal_save_entry_eq nxt)
  qed
  consider (old) "i \<le> r_log_offset s" | (present) "r_log_offset s < i" "i \<le> log_end s"
    | (new) "i = Suc (log_end s)"
    using Cons.prems by linarith
  then show ?case
  proof cases
    case old
    then show ?thesis using Cons.prems by (simp add: nxt Cons.IH log_end_def)
  next
    case present
    then show ?thesis
      using Cons.prems put log_pos(1) [OF Cons.prems(1) present] by (simp add: nxt lli Cons.IH)
  next
    case new
    then have "r_commit_index s < i" "r_log_offset s < i" "\<not> i \<le> log_end s"
      "take (i - r_log_offset s - 1) (r_log s) = r_log s"
      using Cons.prems by (auto simp: log_wf_def log_end_def)
    with put show ?thesis by (simp add: lli)
  qed
qed simp

lemma forward_loop:
  assumes "log_wf s" "entries_from i es" "0 < i" "i \<le> Suc (log_end s)" "i + length es < two64"
  shows "forward s (snd (append_entries_loop i es s))"
proof -
  obtain r l w where l: "append_entries_loop i es s = (r, s\<lparr>r_log := l, r_wal := w\<rparr>)"
    using append_entries_loop_frame by blast
  have "take (r_commit_index s - r_log_offset s) l = committed_part s"
    using append_entries_loop_committed [OF assms] l by (simp add: committed_part_def)
  then have "l ! k = r_log s ! k" if "k < r_commit_index s - r_log_offset s" for k
    using that by (metis committed_part_def nth_take)
  then show ?thesis
    by (auto simp: l forward_def kept_def log_at_def current_hard_state_def vote_le_def)
qed

lemma forward_append_commit:
  assumes "log_wf s"
  shows "forward s (snd (append_entries_commit msg resp s))"
  by (rule forward_commit)
    (use assms in \<open>auto simp: append_entries_commit_def Let_def io_forms last_log_index_end log_wf_def\<close>)

lemma forward_append_entries:
  assumes "node_wf s" "msg_wf msg"
  shows "forward s (snd (handle_append_entries msg s))"
proof -
  obtain b s1 where p: "prepare_for_leader_rpc msg s = (b, s1)" by fastforce
  have q1: "forward s s1" using forward_prepare [of s msg] p by simp
  have w1: "node_wf s1" "log_wf s1"
    using prepare_for_leader_rpc_node [of s msg] assms p by (auto simp: msg_wf_def node_wf_def raft_wf_def)
  obtain r s2 where l:
    "append_entries_loop (u64_inc (m_prev_log_index msg)) (m_entries msg) s1 = (r, s2)"
    by fastforce
  show ?thesis
  proof (cases "b \<and> log_ok msg s1")
    case False
    then show ?thesis
      using q1 by (auto simp: handle_append_entries_def Let_def p split: bool.split)
  next
    case True
    have q2: "forward s s2"
      using forward_trans [OF q1 forward_loop [OF w1(2) append_entries_start_facts [OF w1(2) assms(2)]]]
        True l by (metis snd_conv)
    have w2: "log_wf s2"
      using append_entries_start [OF w1(1) assms(2)] True l by (simp add: node_wf_def raft_wf_def)
    then have w3: "log_wf (snd (sync_wal s2))" by (simp add: sync_wal_eq log_wf_def log_end_def)
    have "forward s (snd (sync_wal s2))"
      "forward s (snd (append_entries_commit msg resp s2))"
      "forward s (snd (append_entries_commit msg resp (snd (sync_wal s2))))" for resp
      using q2 forward_trans forward_basic(2) forward_append_commit [OF w2] forward_append_commit [OF w3]
      by blast+
    then show ?thesis
      using True q1 q2
      by (auto simp: handle_append_entries_def Let_def p l case_prod_beta
          split: sum.split option.split bool.split)
  qed
qed

lemma forward_append_entries_response:
  assumes "log_wf s"
  shows "forward s (handle_append_entries_response msg s)"
proof -
  let ?u = "record_success msg s"
  have c: "forward ?u (?u\<lparr>r_commit_index := advance_commit ?u\<rparr>)"
    using advance_commit_bounds [of ?u] assms by (intro forward_commit) auto
  have "forward s (?u\<lparr>r_commit_index := advance_commit ?u\<rparr>)"
    "forward s (snd (persist_hard_state (?u\<lparr>r_commit_index := advance_commit ?u\<rparr>)))"
    "forward s (broadcast_heartbeat (record_failure msg s))"
    "forward s (send m (record_failure msg s))" for m
    using forward_trans [OF forward_basic(11) c] forward_trans [OF forward_trans [OF forward_basic(11) c] forward_basic(3)]
      forward_trans [OF forward_basic(12) forward_basic(4)] forward_trans [OF forward_basic(12) forward_basic(5)]
    by simp_all
  then show ?thesis by (simp add: handle_append_entries_response_eq Let_def)
qed

lemma forward_install_response: "forward s (handle_install_snapshot_response msg s)"
  using forward_trans [OF forward_basic(7) forward_basic(4)]
  by (simp add: handle_install_snapshot_response_def)


lemma forward_append:
  assumes "log_wf s" "r_log s' = r_log s @ xs" "r_term s' = r_term s"
    "r_voted_for s' = r_voted_for s" "r_commit_index s' = r_commit_index s"
    "r_last_applied s' = r_last_applied s" "r_log_offset s' = r_log_offset s"
  shows "forward s s'"
  using assms
  by (auto simp: forward_def kept_def log_at_def nth_append current_hard_state_def log_wf_def log_end_def)

lemma propose_frame:
  "(\<exists>xs. r_log (snd (propose data s)) = r_log s @ xs)
     \<and> r_term (snd (propose data s)) = r_term s \<and> r_voted_for (snd (propose data s)) = r_voted_for s
     \<and> r_commit_index (snd (propose data s)) = r_commit_index s
     \<and> r_last_applied (snd (propose data s)) = r_last_applied s
     \<and> r_log_offset (snd (propose data s)) = r_log_offset s \<and> r_state (snd (propose data s)) = r_state s"
  by (auto simp: propose_def Let_def io_forms broadcast_heartbeat_eq split: sum.split bool.split)

lemma forward_propose: "log_wf s \<Longrightarrow> forward s (snd (propose data s))"
  using propose_frame [of data s] by (auto intro: forward_append)

lemma forward_finish_read [simp]: "forward s (finish_read_index tok s)"
  by (rule forward_same) (simp_all add: finish_read_index_def)

lemma forward_read_index:
  assumes "log_wf s"
  shows "forward s (snd (read_index s))"
proof (rule read_index_state_cases)
  fix c i s1
  assume s1: "s1 = s\<lparr>r_read_index_pending := True,
        r_pending_read_context := r_next_read_context s, r_next_read_context := c,
        r_read_index_acks := [], r_pending_read_index := i\<rparr>"
  have f: "forward s s1" by (rule forward_same) (simp_all add: s1)
  have "log_wf s1" using assms by (simp add: s1 log_wf_def log_end_def)
  then have p: "forward s (snd (propose [] s1))"
    using forward_trans [OF f forward_propose] by blast
  then show "forward s (broadcast_heartbeat s1) \<and> forward s (snd (propose [] s1))
        \<and> (\<forall>tok. forward s (finish_read_index tok (snd (propose [] s1))))"
    using forward_trans [OF f forward_basic(4)] forward_trans [OF p forward_finish_read] by blast
qed simp

lemma forward_advance: "log_wf s \<Longrightarrow> forward s (advance i s)"
  by (rule forward_commit) (auto simp: advance_def log_wf_def wrap_simps)

lemma forward_compact:
  assumes "r_log s' = drop (r_log_offset s' - r_log_offset s) (r_log s)"
    "r_log_offset s \<le> r_log_offset s'" "r_commit_index s \<le> log_end s"
    "r_term s' = r_term s" "r_voted_for s' = r_voted_for s"
    "r_commit_index s' = r_commit_index s" "r_last_applied s' = r_last_applied s"
  shows "forward s s'"
  using assms
  by (auto simp: forward_def kept_def log_at_def current_hard_state_def log_end_def)

lemma forward_take_snapshot:
  assumes "log_wf s"
  shows "forward s (snd (take_snapshot i d s))"
proof (cases "i = 0 \<or> i \<le> r_log_offset s \<or> i > r_last_applied s")
  case True
  then show ?thesis by (simp add: take_snapshot_def)
next
  case False
  have ef: "entries_from (Suc (r_log_offset s)) (r_log s)" "i \<le> r_log_offset s + length (r_log s)"
    "r_commit_index s \<le> log_end s"
    using assms False by (auto simp: log_wf_alt log_end_def)
  have c: "compact_log i (r_log s) = drop (i - r_log_offset s) (r_log s)"
    using compact_log_eq [OF ef(1) _ ef(2)] False by simp
  have "forward s (s\<lparr>r_wal := w, r_storage_failed := f\<rparr>)" "forward s (s\<lparr>r_wal := w\<rparr>)" for w f
    by (rule forward_same; simp)+
  then show ?thesis
    using False c ef(3)
    by (auto simp: take_snapshot_def Let_def io_forms split: sum.split bool.split
        intro!: forward_compact)
qed

lemma forward_install:
  assumes "r_commit_index s \<le> r_log_offset s'" "r_last_applied s \<le> r_last_applied s'"
    "r_commit_index s \<le> r_commit_index s'" "r_log_offset s \<le> r_log_offset s'"
    "r_term s' = r_term s" "r_voted_for s' = r_voted_for s"
  shows "forward s s'"
  using assms by (auto simp: forward_def kept_def current_hard_state_def vote_le_def)

lemma forward_install_snapshot:
  assumes "node_wf s" "msg_wf msg"
  shows "forward s (snd (handle_install_snapshot msg s))"
proof -
  obtain b s1 where p: "prepare_for_leader_rpc msg s = (b, s1)" by fastforce
  have q1: "forward s s1" using forward_prepare [of s msg] p by simp
  have "log_wf s1"
    using prepare_for_leader_rpc_node [of s msg] assms p by (auto simp: msg_wf_def node_wf_def raft_wf_def)
  then have le: "r_log_offset s1 \<le> r_last_applied s1" "r_last_applied s1 \<le> r_commit_index s1"
    by (auto simp: log_wf_def)
  have "forward s1 (s1\<lparr>r_wal := w, r_storage_failed := f\<rparr>)" "forward s1 (s1\<lparr>r_wal := w\<rparr>)" for w f
    by (rule forward_same; simp)+
  then have "forward s1 (snd (handle_install_snapshot msg s))"
    using le
    by (auto simp: handle_install_snapshot_def Let_def p io_forms stale_snapshot_def
        intro!: forward_install split: sum.split option.split bool.split)
  with q1 show ?thesis by (rule forward_trans)
qed

subsection \<open>Every event\<close>

lemma forward_reply [simp]:
  "forward s (snd (reply_outcome x)) = forward s (snd x)" "forward s (snd (reply y)) = forward s (snd y)"
  by (auto simp: reply_outcome_def reply_def returns_def send_def forward_def kept_def log_at_def
      current_hard_state_def split: prod.split sum.split)

lemma raft_step_forward:
  assumes "node_wf s" "event_ok ev s"
  shows "forward s (snd (raft_step ev s))"
proof -
  have lw: "log_wf s" using assms by (simp add: node_wf_def raft_wf_def)
  show ?thesis
  proof (cases ev)
    case (Receive m)
    then show ?thesis
      using assms lw
      by (simp add: event_ok_def handle_raft_message_def forward_request_vote
          forward_request_vote_response forward_pre_vote_response forward_append_entries
          forward_append_entries_response forward_install_snapshot forward_install_response)
  qed (use assms lw in \<open>simp_all add: forward_tick forward_propose forward_read_index
        forward_advance forward_take_snapshot\<close>)
qed

end
