(* ===== verification/Text.thy ===== *)
theory Text
  imports Prelude
begin

text \<open>
  Numbers in text, as the C++ library reads and writes them: \<^verbatim>\<open>std::from_chars\<close> for an
  unsigned type, \<^verbatim>\<open>std::to_string\<close>, the \<^verbatim>\<open>%016x\<close> conversion and \<^verbatim>\<open>std::stoull\<close> in base 16,
  and the lemmas that reading undoes writing.
\<close>

subsection \<open>Decimal\<close>

definition is_digit :: "char \<Rightarrow> bool" where
  "is_digit c \<longleftrightarrow> c \<in> set ''0123456789''"

definition digit_value :: "char \<Rightarrow> nat" where
  "digit_value c = of_char c - 48"

definition decimal :: "string \<Rightarrow> nat" where
  "decimal cs = foldl (\<lambda>n c. 10 * n + digit_value c) 0 cs"

text \<open>
  \<^verbatim>\<open>std::from_chars\<close> reads the longest run of decimal digits; no digit, or a value outside
  the type, is an error. \<open>limit\<close> is the number of values of the type. The result is the
  value and the number of characters read.
\<close>

definition from_chars :: "nat \<Rightarrow> string \<Rightarrow> (nat \<times> nat) option" where
  "from_chars limit text =
     (let digits = takeWhile is_digit text
      in if digits = [] \<or> decimal digits \<ge> limit then None
         else Some (decimal digits, length digits))"

definition digit_char :: "nat \<Rightarrow> char" where
  "digit_char d = ''0123456789'' ! d"

fun to_string :: "nat \<Rightarrow> string" where
  "to_string n =
     (if n < 10 then [digit_char n] else to_string (n div 10) @ [digit_char (n mod 10)])"

declare to_string.simps [simp del]

lemma digit_char_digit [simp]:
  assumes "d < 10"
  shows "is_digit (digit_char d)" and "digit_value (digit_char d) = d"
proof -
  have "list_all (\<lambda>d. is_digit (digit_char d) \<and> digit_value (digit_char d) = d) [0..<10]"
    by (simp add: upt_rec is_digit_def digit_value_def digit_char_def)
  then show "is_digit (digit_char d)" and "digit_value (digit_char d) = d"
    using assms by (simp_all add: list_all_iff)
qed

lemma decimal_snoc: "decimal (cs @ [c]) = 10 * decimal cs + digit_value c"
  by (simp add: decimal_def)

lemma decimal_to_string [simp]: "decimal (to_string n) = n"
proof (induction n rule: to_string.induct)
  case (1 n)
  then show ?case
    by (subst to_string.simps) (auto simp: decimal_snoc decimal_def [of "[_]"])
qed

lemma to_string_digits: "c \<in> set (to_string n) \<Longrightarrow> is_digit c"
proof (induction n rule: to_string.induct)
  case (1 n)
  then show ?case
    using to_string.simps [of n] by (auto split: if_splits)
qed

lemma to_string_nonempty [simp]: "to_string n \<noteq> []"
  by (subst to_string.simps) simp

lemma from_chars_to_string:
  assumes "n < limit" "rest = [] \<or> \<not> is_digit (hd rest)"
  shows "from_chars limit (to_string n @ rest) = Some (n, length (to_string n))"
proof -
  have "takeWhile is_digit (to_string n @ rest) = to_string n"
    using assms(2) by (cases rest) (auto simp: to_string_digits takeWhile_append takeWhile_eq_all_conv)
  then show ?thesis using assms(1) by (simp add: from_chars_def)
qed

lemma from_chars_all:
  "from_chars limit text = Some (v, length text) \<longleftrightarrow>
     text \<noteq> [] \<and> (\<forall>c \<in> set text. is_digit c) \<and> decimal text = v \<and> v < limit"
proof (cases "\<forall>c \<in> set text. is_digit c")
  case True
  then have e: "takeWhile is_digit text = text" by (simp add: takeWhile_eq_all_conv)
  show ?thesis unfolding from_chars_def Let_def e using True by auto
next
  case False
  then have "length (takeWhile is_digit text) \<noteq> length text"
    by (metis takeWhile_eq_all_conv takeWhile_eq_take take_all_iff order_refl)
  then show ?thesis using False by (auto simp: from_chars_def Let_def)
qed

subsection \<open>Searching\<close>

text \<open>\<^verbatim>\<open>std::string::find\<close> of one character.\<close>

definition find_char :: "char \<Rightarrow> string \<Rightarrow> nat option" where
  "find_char c s = (let i = length (takeWhile (\<lambda>x. x \<noteq> c) s) in if i = length s then None else Some i)"

lemma find_char_append: "c \<notin> set xs \<Longrightarrow> find_char c (xs @ c # ys) = Some (length xs)"
proof -
  assume "c \<notin> set xs"
  then have "takeWhile (\<lambda>x. x \<noteq> c) (xs @ c # ys) = xs" by (simp add: takeWhile_append)
  then show ?thesis by (simp add: find_char_def Let_def)
qed

subsection \<open>Hexadecimal\<close>

definition hex_char :: "nat \<Rightarrow> char" where
  "hex_char d = ''0123456789abcdef'' ! d"

definition hex_value :: "char \<Rightarrow> nat option" where
  "hex_value c =
     (if c \<in> set ''0123456789'' then Some (of_char c - 48)
      else if c \<in> set ''abcdef'' then Some (of_char c - 87)
      else if c \<in> set ''ABCDEF'' then Some (of_char c - 55)
      else None)"

text \<open>\<open>hex_fixed k n\<close> writes the low \<open>k\<close> hexadecimal digits of \<open>n\<close>, most significant first.\<close>

fun hex_fixed :: "nat \<Rightarrow> nat \<Rightarrow> string" where
  "hex_fixed 0 n = []"
| "hex_fixed (Suc k) n = hex_fixed k (n div 16) @ [hex_char (n mod 16)]"

definition hexadecimal :: "string \<Rightarrow> nat" where
  "hexadecimal cs = foldl (\<lambda>n c. 16 * n + the (hex_value c)) 0 cs"

lemma hex_char_value [simp]:
  assumes "d < 16"
  shows "hex_value (hex_char d) = Some d"
proof -
  have "list_all (\<lambda>d. hex_value (hex_char d) = Some d) [0..<16]"
    by (simp add: upt_rec hex_value_def hex_char_def)
  then show ?thesis using assms by (simp add: list_all_iff)
qed

lemma length_hex_fixed [simp]: "length (hex_fixed k n) = k"
  by (induction k arbitrary: n) auto

lemma hex_fixed_digits: "c \<in> set (hex_fixed k n) \<Longrightarrow> hex_value c \<noteq> None"
  by (induction k arbitrary: n) auto

lemma hexadecimal_fixed: "hexadecimal (hex_fixed k n) = n mod 16 ^ k"
proof (induction k arbitrary: n)
  case 0
  show ?case by (simp add: hexadecimal_def)
next
  case (Suc k)
  have "hexadecimal (hex_fixed (Suc k) n) = 16 * hexadecimal (hex_fixed k (n div 16)) + n mod 16"
    by (simp add: hexadecimal_def)
  also have "\<dots> = 16 * (n div 16 mod 16 ^ k) + n mod 16" by (simp add: Suc.IH)
  also have "\<dots> = n mod (16 * 16 ^ k)" by (simp add: mod_mult2_eq)
  finally show ?case by simp
qed

end
