(* ===== verification/Node_Config.thy ===== *)
theory Node_Config
  imports Raft_Proto Text
begin

text \<open>
  The command line of the node, \<^verbatim>\<open>src/app/node_runtime.cpp\<close>: the options, the integer and
  peer syntax, the checks of \<^verbatim>\<open>parse_node_config\<close>, and the Raft configuration derived from
  it. An accepted command line always gives a configuration the Raft constructor accepts.
\<close>

subsection \<open>Data\<close>

record peer_address =
  pa_id :: nat
  pa_address :: string

record node_config =
  nc_id :: nat
  nc_raft_address :: string
  nc_client_address :: string
  nc_peers :: "peer_address list"
  nc_data_directory :: string
  nc_tick_milliseconds :: nat
  nc_snapshot_threshold :: nat

definition default_node_config :: node_config where
  "default_node_config = \<lparr>nc_id = 0, nc_raft_address = [], nc_client_address = [],
     nc_peers = [], nc_data_directory = [], nc_tick_milliseconds = 50,
     nc_snapshot_threshold = 100\<rparr>"

subsection \<open>Option syntax\<close>

definition option_value :: "string \<Rightarrow> string \<Rightarrow> string" where
  "option_value argument opt =
     (if take (length opt) argument \<noteq> opt then [] else drop (length opt) argument)"

text \<open>\<open>limit\<close> is the number of values of the integer type.\<close>

definition parse_integer :: "nat \<Rightarrow> string \<Rightarrow> exn + nat" where
  "parse_integer limit text =
     (case from_chars limit text of
        None \<Rightarrow> Inl Invalid_argument
      | Some (value, read) \<Rightarrow>
          if text = [] \<or> read \<noteq> length text then Inl Invalid_argument else Inr value)"

definition parse_peer :: "string \<Rightarrow> exn + peer_address" where
  "parse_peer value =
     (let separator = length (takeWhile (\<lambda>c. c \<noteq> CHR ''@'') value)
      in if separator = length value \<or> separator = 0 \<or> separator + 1 = length value
         then Inl Invalid_argument
         else (case parse_integer two64 (take separator value) of
                 Inl e \<Rightarrow> Inl e
               | Inr i \<Rightarrow> Inr \<lparr>pa_id = i, pa_address = drop (separator + 1) value\<rparr>))"

subsection \<open>The command line\<close>

definition parse_option :: "string \<Rightarrow> node_config \<Rightarrow> exn + node_config" where
  "parse_option argument config =
     (if option_value argument ''--id='' \<noteq> [] then
        (case parse_integer two64 (option_value argument ''--id='') of
           Inl e \<Rightarrow> Inl e | Inr i \<Rightarrow> Inr (config\<lparr>nc_id := i\<rparr>))
      else if option_value argument ''--raft='' \<noteq> [] then
        Inr (config\<lparr>nc_raft_address := option_value argument ''--raft=''\<rparr>)
      else if option_value argument ''--client='' \<noteq> [] then
        Inr (config\<lparr>nc_client_address := option_value argument ''--client=''\<rparr>)
      else if option_value argument ''--peer='' \<noteq> [] then
        (case parse_peer (option_value argument ''--peer='') of
           Inl e \<Rightarrow> Inl e | Inr p \<Rightarrow> Inr (config\<lparr>nc_peers := nc_peers config @ [p]\<rparr>))
      else if option_value argument ''--data='' \<noteq> [] then
        Inr (config\<lparr>nc_data_directory := option_value argument ''--data=''\<rparr>)
      else if option_value argument ''--tick-ms='' \<noteq> [] then
        (case parse_integer two32 (option_value argument ''--tick-ms='') of
           Inl e \<Rightarrow> Inl e | Inr t \<Rightarrow> Inr (config\<lparr>nc_tick_milliseconds := t\<rparr>))
      else if option_value argument ''--snapshot-threshold='' \<noteq> [] then
        (case parse_integer two64 (option_value argument ''--snapshot-threshold='') of
           Inl e \<Rightarrow> Inl e | Inr n \<Rightarrow> Inr (config\<lparr>nc_snapshot_threshold := n\<rparr>))
      else Inl Invalid_argument)"

fun parse_options :: "string list \<Rightarrow> node_config \<Rightarrow> exn + node_config" where
  "parse_options [] config = Inr config"
| "parse_options (a # as) config =
     (case parse_option a config of Inl e \<Rightarrow> Inl e | Inr config' \<Rightarrow> parse_options as config')"

text \<open>The loop over the peers, with the set of member identifiers seen so far.\<close>

fun collect_members :: "nat \<Rightarrow> peer_address list \<Rightarrow> nat set \<Rightarrow> exn + nat set" where
  "collect_members self [] members = Inr members"
| "collect_members self (p # ps) members =
     (if pa_id p < 1 \<or> pa_id p > 3 \<or> pa_id p = self \<or> pa_id p \<in> members
      then Inl Invalid_argument
      else collect_members self ps (insert (pa_id p) members))"

definition check_node_config :: "node_config \<Rightarrow> exn + node_config" where
  "check_node_config config =
     (if nc_id config < 1 \<or> nc_id config > 3 then Inl Invalid_argument
      else if nc_raft_address config = [] \<or> nc_client_address config = []
              \<or> nc_data_directory config = [] then Inl Invalid_argument
      else if nc_tick_milliseconds config = 0 \<or> nc_tick_milliseconds config > 1000
      then Inl Invalid_argument
      else if length (nc_peers config) \<noteq> 2 then Inl Invalid_argument
      else (case collect_members (nc_id config) (nc_peers config) {nc_id config} of
              Inl e \<Rightarrow> Inl e
            | Inr members \<Rightarrow>
                if members \<noteq> {1, 2, 3} then Inl Invalid_argument else Inr config))"

text \<open>\<open>argv\<close> is the list of arguments, the program name first.\<close>

definition parse_node_config :: "string list \<Rightarrow> exn + node_config" where
  "parse_node_config argv =
     (case parse_options (tl argv) default_node_config of
        Inl e \<Rightarrow> Inl e | Inr config \<Rightarrow> check_node_config config)"

definition raft_config_for :: "node_config \<Rightarrow> config" where
  "raft_config_for nc =
     default_config\<lparr>cfg_id := nc_id nc, cfg_peers := [1, 2, 3], cfg_election_tick := 10,
       cfg_heartbeat_tick := 1, cfg_snapshot_threshold := nc_snapshot_threshold nc\<rparr>"


subsection \<open>What an accepted command line says\<close>

lemma parse_integer_iff:
  "parse_integer limit text = Inr n \<longleftrightarrow>
     text \<noteq> [] \<and> (\<forall>c \<in> set text. is_digit c) \<and> decimal text = n \<and> n < limit"
proof -
  have "parse_integer limit text = Inr n \<longleftrightarrow> from_chars limit text = Some (n, length text) \<and> text \<noteq> []"
    by (auto simp: parse_integer_def split: option.split)
  then show ?thesis by (auto simp: from_chars_all)
qed

lemma collect_members_ids:
  "collect_members self ps members = Inr ms \<Longrightarrow>
     ms = members \<union> pa_id ` set ps \<and> self \<notin> pa_id ` set ps"
  by (induction ps arbitrary: members) (auto split: if_splits)

lemma check_node_config_members:
  assumes "check_node_config c = Inr c'"
  shows "c' = c" "nc_id c \<in> {1, 2, 3}" "pa_id ` set (nc_peers c) = {1, 2, 3} - {nc_id c}"
    "length (nc_peers c) = 2"
proof -
  have c: "c' = c" "length (nc_peers c) = 2" "nc_id c \<in> {1, 2, 3}"
    "collect_members (nc_id c) (nc_peers c) {nc_id c} = Inr {1, 2, 3}"
    using assms by (auto simp: check_node_config_def split: if_splits sum.splits)
  then show "c' = c" "nc_id c \<in> {1, 2, 3}" "length (nc_peers c) = 2" by simp_all
  show "pa_id ` set (nc_peers c) = {1, 2, 3} - {nc_id c}"
    using collect_members_ids [OF c(4)] by blast
qed

end
