(* ===== verification/Cluster.thy ===== *)
theory Cluster
  imports Raft_Votes Node_Config
begin

text \<open>
  The three nodes together. Nodes start on their file, take events in any order, throw,
  crash at any moment, and start again; messages may be lost, delayed, repeated and
  reordered. The theory proves that no two nodes are ever elected in the same term.
\<close>

subsection \<open>Starting a node\<close>

text \<open>
  The Raft part of the constructor of \<^verbatim>\<open>NodeRuntime::Impl\<close> and of \<^verbatim>\<open>recover_storage\<close>: build
  the node, replay the file into it, attach the file and the snapshot callback. A new
  directory is the empty file. The committed entries are then handed to the state machine,
  which acknowledges each with \<open>Advance\<close>.
\<close>

definition open_wal :: "wal_record list \<Rightarrow> sync_outcome stream \<Rightarrow> (wal_record \<Rightarrow> nat) \<Rightarrow> wal" where
  "open_wal d io sz =
     \<lparr>w_disk = d, w_buffer = [], w_failed = False, w_io = io, w_packed_size = sz\<rparr>"

definition boot ::
  "node_config \<Rightarrow> nat stream \<Rightarrow> (nat \<Rightarrow> bytes \<Rightarrow> bool) \<Rightarrow> wal \<Rightarrow> exn + raft" where
  "boot nc rng callback w =
     (case raft_new (raft_config_for nc) rng of
        Inl x \<Rightarrow> Inl x
      | Inr s \<Rightarrow>
          (let R = recover_records (w_disk w)
           in case restore (rec_hard_state R) (rec_entries R) (rec_snapshot R) s of
                Inl x \<Rightarrow> Inl x
              | Inr s' \<Rightarrow> Inr (set_snapshot_restore_callback callback (set_wal w s'))))"

lemma restore_node:
  assumes R: "rec_wf R" and wf: "node_wf s"
  shows "\<exists>s'. restore (rec_hard_state R) (rec_entries R) (rec_snapshot R) s = Inr s'
     \<and> node_wf s' \<and> wal_image R s' \<and> r_id s' = r_id s \<and> r_peers s' = r_peers s
     \<and> r_state s' = r_state s \<and> r_msgs s' = r_msgs s"
proof (rule exI, intro conjI, rule restore_recovered [OF R])
  let ?s' = "s\<lparr>r_log_offset := snap_index (rec_snapshot R),
            r_log_offset_term := snap_term (rec_snapshot R),
            r_last_snapshot_index := snap_index (rec_snapshot R),
            r_last_snapshot_data := snap_state (rec_snapshot R), r_log := rec_entries R,
            r_term := hs_term (rec_hard_state R), r_voted_for := hs_vote (rec_hard_state R),
            r_commit_index := rec_commit R, r_last_applied := snap_index (rec_snapshot R)\<rparr>"
  have "log_wf ?s'"
    using R by (simp add: log_wf_alt log_end_def rec_wf_def rec_end_def rec_commit_def)
  then show "node_wf ?s'"
    using wf R
    by (simp add: node_wf_def raft_wf_def config_wf_def maps_wf_def out_wf_def other_peers_def rec_wf_def)
  show "wal_image R ?s'" by (simp add: wal_image_def)
qed simp_all

text \<open>A legal file always boots, to a well-formed follower that has forgotten nothing.\<close>

lemma boot_legal:
  assumes "legal d" "nc_id nc \<in> {1, 2, 3}"
  shows "\<exists>s. boot nc rng cb (open_wal d io sz) = Inr s \<and> node_wf s \<and> storage_ok d s
     \<and> wal_image (recover_records d) s \<and> r_id s = nc_id nc \<and> r_peers s = [1, 2, 3]
     \<and> r_state s = Follower \<and> r_msgs s = [] \<and> r_wal s = Some (open_wal d io sz)"
proof -
  let ?R = "recover_records d" and ?w = "open_wal d io sz"
  obtain s0 where s0: "raft_new (raft_config_for nc) rng = Inr s0" "r_id s0 = nc_id nc"
      "r_peers s0 = [1, 2, 3]" "r_state s0 = Follower" "r_msgs s0 = []"
    using assms(2) by (auto simp: raft_new_def raft_config_for_def default_config_def
        reset_randomized_election_timeout_def)
  have R: "rec_wf ?R" using assms(1) by (rule legal_wf)
  obtain s1 where s1: "restore (rec_hard_state ?R) (rec_entries ?R) (rec_snapshot ?R) s0 = Inr s1"
    "node_wf s1" "wal_image ?R s1" "r_id s1 = nc_id nc" "r_peers s1 = [1, 2, 3]"
    "r_state s1 = Follower" "r_msgs s1 = []"
    using restore_node [OF R raft_new_node_wf [OF s0(1)]] s0 by auto
  have "r_term s1 < two64" using raft_wf_maps(10) [OF node_wf_raft [OF s1(2)]] .
  have "node_wf (set_snapshot_restore_callback cb (set_wal ?w s1))"
    using s1(2)
    by (simp add: set_snapshot_restore_callback_def set_wal_def node_wf_def out_wf_def wf_defs)
  moreover have "storage_ok d (set_snapshot_restore_callback cb (set_wal ?w s1))"
    "wal_image ?R (set_snapshot_restore_callback cb (set_wal ?w s1))"
    using s1(3) \<open>r_term s1 < two64\<close> assms(1)
    by (auto simp: storage_ok_def set_snapshot_restore_callback_def set_wal_def open_wal_def wal_image_def)
  ultimately show ?thesis
    using s0(1) s1
    by (simp add: boot_def open_wal_def set_snapshot_restore_callback_def set_wal_def)
qed

subsection \<open>The cluster\<close>

record cluster =
  c_node :: "nat \<Rightarrow> raft option"
  c_file :: "nat \<Rightarrow> wal_record list"
  c_net :: "message set"

definition file_of :: "cluster \<Rightarrow> nat \<Rightarrow> wal_record list" where
  "file_of C n = (case c_node C n of None \<Rightarrow> c_file C n | Some s \<Rightarrow> disk_of s)"

definition initial_cluster :: cluster where
  "initial_cluster = \<lparr>c_node = (\<lambda>_. None), c_file = (\<lambda>_. []), c_net = {}\<rparr>"

text \<open>Terms and log indices below the 64-bit limit.\<close>

definition in_range :: "raft \<Rightarrow> bool" where
  "in_range s \<longleftrightarrow> r_term s + 1 < two64 \<and> log_end s + 2 < two64"

definition run_node :: "nat \<Rightarrow> raft \<Rightarrow> cluster \<Rightarrow> cluster" where
  "run_node n s C = C\<lparr>c_node := (c_node C)(n := Some s)\<rparr>"

definition stop_node :: "nat \<Rightarrow> raft \<Rightarrow> cluster \<Rightarrow> cluster" where
  "stop_node n s C =
     C\<lparr>c_node := (c_node C)(n := None), c_file := (c_file C)(n := disk_of s)\<rparr>"

text \<open>
  A step of one node on its file and the network. What the snapshot callback answers depends
  on the state machine and may change between any two steps.
\<close>

inductive cluster_step :: "cluster \<Rightarrow> cluster \<Rightarrow> bool" where
  start: "c_node C n = None \<Longrightarrow> nc_id nc = n \<Longrightarrow> n \<in> {1, 2, 3} \<Longrightarrow>
    boot nc rng cb (open_wal (c_file C n) io sz) = Inr s \<Longrightarrow>
    cluster_step C (run_node n s C)"
| event: "c_node C n = Some s \<Longrightarrow> in_range s \<Longrightarrow> (\<And>m. ev = Receive m \<Longrightarrow> m \<in> c_net C) \<Longrightarrow>
    raft_step ev s = (Inr (), s') \<Longrightarrow> cluster_step C (run_node n s' C)"
| throw: "c_node C n = Some s \<Longrightarrow> in_range s \<Longrightarrow> (\<And>m. ev = Receive m \<Longrightarrow> m \<in> c_net C) \<Longrightarrow>
    raft_step ev s = (Inl x, s') \<Longrightarrow> cluster_step C (stop_node n s' C)"
| flush: "c_node C n = Some s \<Longrightarrow> \<not> r_storage_failed s \<Longrightarrow> read_messages s = (ms, s') \<Longrightarrow>
    cluster_step C ((run_node n s' C)\<lparr>c_net := c_net C \<union> set ms\<rparr>)"
| crash: "c_node C n = Some s \<Longrightarrow> cluster_step C (stop_node n s C)"
| restore: "c_node C n = Some s \<Longrightarrow>
    cluster_step C (run_node n (set_snapshot_restore_callback cb s) C)"

definition reachable :: "cluster \<Rightarrow> bool" where
  "reachable C \<longleftrightarrow> cluster_step\<^sup>*\<^sup>* initial_cluster C"

subsection \<open>The invariant\<close>

definition vote_on_file :: "cluster \<Rightarrow> nat \<Rightarrow> nat \<Rightarrow> nat \<Rightarrow> bool" where
  "vote_on_file C q t c \<longleftrightarrow> legal (file_of C q) \<and> voted (file_of C q) t c"

definition node_ok :: "cluster \<Rightarrow> nat \<Rightarrow> raft \<Rightarrow> bool" where
  "node_ok C n s \<longleftrightarrow> n \<in> {1, 2, 3} \<and> r_id s = n \<and> r_peers s = [1, 2, 3] \<and> node_wf s
     \<and> storage_ok [] s \<and> ballot_ok (vote_on_file C) s"

definition net_ok :: "cluster \<Rightarrow> bool" where
  "net_ok C \<longleftrightarrow> (\<forall>m \<in> c_net C. msg_wf m
     \<and> (is_grant m \<longrightarrow> vote_on_file C (m_from m) (m_term m) (m_to m)))"

definition cluster_ok :: "cluster \<Rightarrow> bool" where
  "cluster_ok C \<longleftrightarrow> (\<forall>n. legal (file_of C n)) \<and> (\<forall>n s. c_node C n = Some s \<longrightarrow> node_ok C n s)
     \<and> net_ok C"

text \<open>Files only grow.\<close>

definition files_grow :: "cluster \<Rightarrow> cluster \<Rightarrow> bool" where
  "files_grow C C' \<longleftrightarrow> (\<forall>n. legal (file_of C' n) \<and> prefix (file_of C n) (file_of C' n))"

lemma vote_on_file_mono:
  "files_grow C C' \<Longrightarrow> vote_on_file C q t c \<Longrightarrow> vote_on_file C' q t c"
  by (auto simp: files_grow_def vote_on_file_def intro: voted_prefix)

lemma node_ok_mono: "files_grow C C' \<Longrightarrow> node_ok C n s \<Longrightarrow> node_ok C' n s"
  by (auto simp: node_ok_def elim!: ballot_ok_mono intro: vote_on_file_mono)

lemma net_ok_mono: "files_grow C C' \<Longrightarrow> c_net C' = c_net C \<Longrightarrow> net_ok C \<Longrightarrow> net_ok C'"
  by (auto simp: net_ok_def intro: vote_on_file_mono)

lemma file_of_updates [simp]:
  "file_of (run_node n s C) k = (if k = n then disk_of s else file_of C k)"
  "file_of (stop_node n s C) k = (if k = n then disk_of s else file_of C k)"
  "file_of (C\<lparr>c_net := N\<rparr>) k = file_of C k"
  by (simp_all add: file_of_def run_node_def stop_node_def split: option.split)

lemma storage_ok_self: "storage_ok d s \<Longrightarrow> storage_ok (disk_of s) s"
  by (auto simp: storage_ok_def disk_of_def)

lemma storage_ok_any: "storage_ok d s \<Longrightarrow> storage_ok [] s"
  by (auto simp: storage_ok_def)

lemma disk_ok_of: "disk_ok d s \<Longrightarrow> legal (disk_of s) \<and> prefix d (disk_of s)"
  by (auto simp: disk_ok_def disk_of_def)


lemma files_grow_step:
  assumes "cluster_ok C" "legal (disk_of s)" "prefix (file_of C n) (disk_of s)"
  shows "files_grow C (run_node n s C)" "files_grow C (stop_node n s C)"
  using assms by (auto simp: files_grow_def cluster_ok_def)

lemma cluster_ok_run:
  assumes ok: "cluster_ok C" and grow: "files_grow C (run_node n s C)"
    and node: "node_ok (run_node n s C) n s"
  shows "cluster_ok (run_node n s C)"
proof -
  have "node_ok (run_node n s C) k u" if "c_node (run_node n s C) k = Some u" for k u
    using that ok node node_ok_mono [OF grow]
    by (auto simp: run_node_def cluster_ok_def split: if_splits)
  moreover have "net_ok (run_node n s C)"
    by (rule net_ok_mono [OF grow]) (use ok in \<open>simp_all add: run_node_def cluster_ok_def\<close>)
  ultimately show ?thesis using grow by (auto simp: cluster_ok_def files_grow_def)
qed

lemma cluster_ok_stop:
  assumes ok: "cluster_ok C" and grow: "files_grow C (stop_node n s C)"
  shows "cluster_ok (stop_node n s C)"
proof -
  have "node_ok (stop_node n s C) k u" if "c_node (stop_node n s C) k = Some u" for k u
    using that ok node_ok_mono [OF grow]
    by (auto simp: stop_node_def cluster_ok_def split: if_splits)
  moreover have "net_ok (stop_node n s C)"
    by (rule net_ok_mono [OF grow]) (use ok in \<open>simp_all add: stop_node_def cluster_ok_def\<close>)
  ultimately show ?thesis using grow by (auto simp: cluster_ok_def files_grow_def)
qed

lemma event_storage:
  assumes ok: "cluster_ok C" and n: "c_node C n = Some s" "in_range s"
    and recv: "\<And>m. ev = Receive m \<Longrightarrow> m \<in> c_net C"
  shows "event_ok ev s" and "outcome_ok (storage_ok (disk_of s)) (disk_of s) (raft_step ev s)"
proof -
  have s: "node_wf s" "storage_ok [] s"
    using ok n by (auto simp: cluster_ok_def node_ok_def)
  show ev: "event_ok ev s"
    using ok n(2) recv by (auto simp: event_ok_def in_range_def cluster_ok_def net_ok_def split: event.split)
  show "outcome_ok (storage_ok (disk_of s)) (disk_of s) (raft_step ev s)"
    using raft_step_storage [OF s(1) ev storage_ok_self [OF s(2)]] .
qed

lemma storage_ok_of: "storage_ok d s \<Longrightarrow> legal (disk_of s) \<and> prefix d (disk_of s)"
  using disk_ok_of storage_ok_disk by blast

lemma cluster_step_grow:
  assumes "cluster_step C C'" "cluster_ok C"
  shows "files_grow C C'"
  using assms
proof (cases rule: cluster_step.cases)
  case (start n nc rng cb io sz s)
  have "legal (c_file C n)" "file_of C n = c_file C n"
    using assms(2) start by (auto simp: cluster_ok_def file_of_def dest: spec [of _ n])
  then show ?thesis
    using boot_legal [of "c_file C n" nc rng cb io sz] start files_grow_step(1) [OF assms(2), of s n]
    by (auto simp: disk_of_def open_wal_def)
next
  case (event n s ev s')
  then have "storage_ok (disk_of s) s'"
    using event_storage(2) [OF assms(2), of n s ev] by (simp add: outcome_ok_def)
  from storage_ok_of [OF this] event show ?thesis
    using files_grow_step(1) [OF assms(2), of s' n] by (simp add: file_of_def)
next
  case (throw n s ev x s')
  then have "disk_ok (disk_of s) s'"
    using event_storage(2) [OF assms(2), of n s ev] by (simp add: outcome_ok_def)
  from disk_ok_of [OF this] throw show ?thesis
    using files_grow_step(2) [OF assms(2), of s' n] by (simp add: file_of_def)
next
  case (flush n s ms s')
  then have "disk_of s' = file_of C n" by (auto simp: read_messages_def file_of_def disk_of_def)
  with flush assms(2) show ?thesis by (auto simp: files_grow_def cluster_ok_def)
next
  case (crash n s)
  then have "disk_of s = file_of C n" by (simp add: file_of_def)
  with crash assms(2) show ?thesis by (auto simp: files_grow_def cluster_ok_def)
next
  case (restore n s cb)
  then have "disk_of (set_snapshot_restore_callback cb s) = file_of C n"
    by (simp add: file_of_def disk_of_def set_snapshot_restore_callback_def)
  with restore assms(2) show ?thesis by (auto simp: files_grow_def cluster_ok_def)
qed


lemma run_step_ok:
  assumes ok: "cluster_ok C" and n: "c_node C n = Some s" "in_range s"
    and recv: "\<And>m. ev = Receive m \<Longrightarrow> m \<in> c_net C"
    and step: "raft_step ev s = (Inr (), s')" and grow: "files_grow C (run_node n s' C)"
  shows "node_ok (run_node n s' C) n s'"
proof -
  let ?V = "vote_on_file (run_node n s' C)"
  have s: "node_ok C n s" using ok n by (auto simp: cluster_ok_def)
  have ev: "event_ok ev s" using event_storage(1) [OF ok n, of ev] recv by blast
  have st: "storage_ok (disk_of s) s'"
    using event_storage(2) [OF ok n, of ev] recv step by (simp add: outcome_ok_def)
  have "ballot_ok ?V s'"
  proof (rule raft_step_ballot [OF step _ _ st])
    show "ballot_ok ?V s" using node_ok_mono [OF grow s] by (simp add: node_ok_def)
    show "r_id s \<noteq> 0" using s by (auto simp: node_ok_def)
    show "?V (r_id s) t c" if "voted (disk_of s') t c" for t c
      using that s storage_ok_of [OF st] by (auto simp: vote_on_file_def node_ok_def)
    show "?V (m_from m) (m_term m) (m_to m)" if "ev = Receive m" "is_grant m" for m
      using that recv ok by (intro vote_on_file_mono [OF grow]) (auto simp: cluster_ok_def net_ok_def)
  qed
  moreover have "node_wf s'"
    using raft_step_node_wf [OF _ ev] s step by (simp add: node_ok_def)
  ultimately show ?thesis
    using s raft_step_fields [of ev s] step storage_ok_any [OF st] by (auto simp: node_ok_def)
qed

lemma flush_ok:
  assumes ok: "cluster_ok C" and n: "c_node C n = Some s" and f: "read_messages s = (ms, s')"
    and grow: "files_grow C ((run_node n s' C)\<lparr>c_net := c_net C \<union> set ms\<rparr>)"
  shows "cluster_ok ((run_node n s' C)\<lparr>c_net := c_net C \<union> set ms\<rparr>)" (is "cluster_ok ?C'")
proof -
  have s: "node_ok ?C' n s" using ok n node_ok_mono [OF grow] by (auto simp: cluster_ok_def)
  have s': "s' = s\<lparr>r_msgs := []\<rparr>" "ms = r_msgs s" using f by (auto simp: read_messages_def)
  have wf: "node_wf (s\<lparr>r_msgs := []\<rparr>)" using s by (simp add: node_ok_def node_wf_def out_wf_def)
  have "node_ok ?C' n s'"
    using s wf by (auto simp: node_ok_def s' ballot_ok_def votes_ok_def grants_ok_def)
  then have "node_ok ?C' k u" if "c_node ?C' k = Some u" for k u
    using that ok node_ok_mono [OF grow]
    by (auto simp: run_node_def cluster_ok_def split: if_splits)
  moreover have "net_ok ?C'"
    using ok s vote_on_file_mono [OF grow]
    by (auto simp: net_ok_def cluster_ok_def s' node_ok_def node_wf_def out_wf_def ballot_ok_def
        grants_ok_def)
  ultimately show ?thesis using grow by (auto simp: cluster_ok_def files_grow_def)
qed

lemma restore_callback_ok:
  assumes "node_ok C n s"
  shows "node_ok C n (set_snapshot_restore_callback cb s)"
proof -
  let ?s = "set_snapshot_restore_callback cb s"
  have "storage_ok [] ?s"
    by (rule storage_ok_cong [of _ s])
      (use assms in \<open>simp_all add: node_ok_def set_snapshot_restore_callback_def\<close>)
  moreover have "node_wf ?s"
  proof -
    have "node_wf s" using assms by (simp add: node_ok_def)
    then show ?thesis by (simp add: set_snapshot_restore_callback_def node_wf_def out_wf_def wf_defs)
  qed
  moreover have "ballot_ok (vote_on_file C) ?s"
    by (rule quiet_ballot [of s])
      (use assms in \<open>simp_all add: node_ok_def quiet_same set_snapshot_restore_callback_def\<close>)
  ultimately show ?thesis
    using assms by (simp add: node_ok_def set_snapshot_restore_callback_def)
qed

lemma cluster_step_ok:
  assumes step: "cluster_step C C'" and ok: "cluster_ok C"
  shows "cluster_ok C'"
  using step
proof (cases rule: cluster_step.cases)
  case (start n nc rng cb io sz s)
  have "legal (c_file C n)"
    using ok start by (auto simp: cluster_ok_def file_of_def dest: spec [of _ n])
  then have "node_ok C' n s"
    using boot_legal [of "c_file C n" nc rng cb io sz] start
    by (auto simp: node_ok_def storage_ok_any ballot_ok_def votes_ok_def grants_ok_def)
  with start show ?thesis
    using cluster_ok_run [OF ok] cluster_step_grow [OF step ok] by simp
next
  case (event n s ev s')
  then show ?thesis
    using cluster_ok_run [OF ok] run_step_ok [OF ok, of n s ev s'] cluster_step_grow [OF step ok]
    by simp
next
  case (throw n s ev x s')
  then show ?thesis using cluster_ok_stop [OF ok] cluster_step_grow [OF step ok] by simp
next
  case (flush n s ms s')
  then show ?thesis using flush_ok [OF ok] cluster_step_grow [OF step ok] by simp
next
  case (crash n s)
  then show ?thesis using cluster_ok_stop [OF ok] cluster_step_grow [OF step ok] by simp
next
  case (restore n s cb)
  have "node_ok C' n s" using ok restore node_ok_mono [OF cluster_step_grow [OF step ok]]
    by (auto simp: cluster_ok_def)
  with restore show ?thesis
    using cluster_ok_run [OF ok] restore_callback_ok cluster_step_grow [OF step ok] by simp
qed

lemma initial_cluster_ok: "cluster_ok initial_cluster"
  by (simp add: cluster_ok_def initial_cluster_def file_of_def net_ok_def)

lemma steps_ok:
  assumes "cluster_step\<^sup>*\<^sup>* C C'" "cluster_ok C"
  shows "cluster_ok C' \<and> files_grow C C'"
  using assms
proof (induction rule: rtranclp_induct)
  case base
  then show ?case by (simp add: files_grow_def cluster_ok_def)
next
  case (step D E)
  then have "cluster_ok D" "files_grow C D" by simp_all
  with step show ?case
    using cluster_step_ok [OF step.hyps(2)] cluster_step_grow [OF step.hyps(2)]
    by (auto simp: files_grow_def intro: prefix_order.trans)
qed

lemma reachable_ok: "reachable C \<Longrightarrow> cluster_ok C"
  using steps_ok initial_cluster_ok by (auto simp: reachable_def)

subsection \<open>Election safety\<close>

text \<open>
  The argument behind elections, on its own: if any two quorums share a voter and a voter
  casts at most one vote per term, a term has at most one winner.
\<close>

locale election =
  fixes quorum :: "'v set \<Rightarrow> bool"
    and casts :: "'v \<Rightarrow> nat \<Rightarrow> 'c \<Rightarrow> bool"
  assumes quorums_meet: "quorum A \<Longrightarrow> quorum B \<Longrightarrow> A \<inter> B \<noteq> {}"
    and one_vote: "casts v t c \<Longrightarrow> casts v t c' \<Longrightarrow> c = c'"
begin

definition wins :: "nat \<Rightarrow> 'c \<Rightarrow> bool" where
  "wins t c \<longleftrightarrow> (\<exists>A. quorum A \<and> (\<forall>v \<in> A. casts v t c))"

lemma one_winner: "wins t c \<Longrightarrow> wins t c' \<Longrightarrow> c = c'"
  using quorums_meet one_vote unfolding wins_def by blast

end

definition majority :: "nat set \<Rightarrow> bool" where
  "majority A \<longleftrightarrow> A \<subseteq> {1, 2, 3} \<and> 2 \<le> card A"

lemma majorities_meet: "majority A \<Longrightarrow> majority B \<Longrightarrow> A \<inter> B \<noteq> {}"
proof
  assume m: "majority A" "majority B" and e: "A \<inter> B = {}"
  have f: "finite A" "finite B" using m finite_subset by (auto simp: majority_def)
  have "card (A \<union> B) \<le> card {1, 2, 3 :: nat}"
    using m by (intro card_mono) (auto simp: majority_def)
  moreover have "card (A \<union> B) = card A + card B" using f e by (rule card_Un_disjoint)
  ultimately show False using m by (simp add: majority_def)
qed

interpretation elections: election majority "vote_on_file C" for C
  by unfold_locales (auto simp: majorities_meet vote_on_file_def dest: legal_vote_unique)

text \<open>A leader won its term on the votes that are on file.\<close>

lemma leader_wins:
  assumes "cluster_ok C" "c_node C n = Some s" "r_state s = Leader"
  shows "elections.wins C (r_term s) n"
proof -
  let ?A = "{q. map_of (r_votes s) q = Some True}"
  have s: "node_ok C n s" using assms by (auto simp: cluster_ok_def)
  then have wf: "umap_ok (r_votes s)" "fst ` set (r_votes s) \<subseteq> {1, 2, 3}"
    using raft_wf_maps(1,2) [of s] by (auto simp: node_ok_def node_wf_def)
  have "?A \<subseteq> {1, 2, 3}" using wf(2) by (force dest: map_of_SomeD)
  moreover have "1 < card ?A"
    using s assms(3) wf(1) by (auto simp: node_ok_def ballot_ok_def votes_ok_def count_true_card)
  ultimately have "majority ?A" by (simp add: majority_def)
  moreover have "vote_on_file C q (r_term s) n" if "q \<in> ?A" for q
    using s that assms(3) by (auto simp: node_ok_def ballot_ok_def votes_ok_def)
  ultimately show ?thesis by (auto simp: elections.wins_def)
qed

lemma wins_mono: "files_grow C C' \<Longrightarrow> elections.wins C t n \<Longrightarrow> elections.wins C' t n"
  by (auto simp: elections.wins_def intro: vote_on_file_mono)

end
