(* ===== verification/Cluster_Trace.thy ===== *)
theory Cluster_Trace
  imports Cluster
begin

text \<open>
  A concrete run of the cluster: the three nodes start on empty files, node 1 times out, wins
  the pre-vote and then the vote of node 2, and leads term 1. The witnesses of the cluster
  properties are evaluated on it.
\<close>

subsection \<open>The nodes\<close>

definition ex_config :: "nat \<Rightarrow> node_config" where
  "ex_config n = default_node_config\<lparr>nc_id := n\<rparr>"

definition ex_file :: "wal_record list \<Rightarrow> wal" where
  "ex_file d = open_wal d (sconst Sync_ok) (\<lambda>_. 1)"

definition ex_node :: "nat \<Rightarrow> nat \<Rightarrow> raft" where
  "ex_node n elapsed =
     \<lparr>r_id = n, r_term = 0, r_lead = 0, r_voted_for = 0, r_commit_index = 0,
      r_last_applied = 0, r_state = Follower, r_log = [], r_log_offset = 0,
      r_log_offset_term = 0, r_progress = [], r_peers = [1, 2, 3], r_election_timeout = 10,
      r_heartbeat_timeout = 1, r_snapshot_threshold = 100, r_last_snapshot_index = 0,
      r_election_elapsed = elapsed, r_randomized_election_timeout = 10,
      r_heartbeat_elapsed = 0, r_election_rng = sconst 0, r_votes = [], r_pre_votes = [],
      r_pending_pre_vote_term = 0, r_read_index_pending = False, r_pending_read_index = 0,
      r_pending_read_context = 0, r_next_read_context = 1, r_read_index_acks = [],
      r_last_snapshot_data = [], r_snapshot_restore = Some (\<lambda>_ _. True),
      r_wal = Some (ex_file []), r_storage_failed = False, r_msgs = []\<rparr>"

lemmas ex_defs = default_message_def msg_type_defs u64_inc_def u64_dec_def u64_add_def u64_sub_def
  u64_def two64_def u32_inc_def u32_add_def u32_def two32_def

lemma ex_boot:
  assumes "n \<in> {1, 2, 3}"
  shows "boot (ex_config n) (sconst 0) (\<lambda>_ _. True) (open_wal [] (sconst Sync_ok) (\<lambda>_. 1))
    = Inr (ex_node n 0)"
  using assms
  by (auto simp: boot_def raft_new_def raft_config_for_def ex_config_def default_node_config_def
      default_config_def restore_def recover_records_def recovered_init_def empty_snapshot_def
      empty_hard_state_def open_wal_def Let_def ex_node_def ex_file_def last_log_index_def
      set_snapshot_restore_callback_def set_wal_def reset_randomized_election_timeout_def ex_defs)

lemma ex_tick: "e < 9 \<Longrightarrow> raft_step Tick (ex_node n e) = (Inr (), ex_node n (Suc e))"
  by (simp add: returns_def tick_def Let_def ex_node_def ex_defs)

definition ex_pre_vote :: "nat \<Rightarrow> message" where
  "ex_pre_vote p = default_message\<lparr>m_type := MsgPreVote, m_from := 1, m_to := p, m_term := 1\<rparr>"

definition ex_pre_candidate :: "message list \<Rightarrow> raft" where
  "ex_pre_candidate ms = (ex_node 1 0)\<lparr>r_state := PreCandidate, r_pending_pre_vote_term := 1,
     r_pre_votes := [(1, True)], r_msgs := ms\<rparr>"

lemma ex_timeout:
  "raft_step Tick (ex_node 1 9) = (Inr (), ex_pre_candidate [ex_pre_vote 2, ex_pre_vote 3])"
  by (simp add: returns_def tick_def Let_def ex_node_def become_pre_candidate_def pre_campaign_def
      reset_randomized_election_timeout_def vote_request_def ex_pre_candidate_def ex_pre_vote_def
      last_log_index_def last_log_term_def umap_put_def ex_defs)

definition ex_pre_grant :: message where
  "ex_pre_grant = default_message\<lparr>m_type := MsgPreVoteResponse, m_from := 2, m_to := 1,
     m_pre_vote_term := 1, m_vote_granted := True\<rparr>"

lemma ex_pre_vote_granted:
  "raft_step (Receive (ex_pre_vote 2)) (ex_node 2 0) = (Inr (), (ex_node 2 0)\<lparr>r_msgs := [ex_pre_grant]\<rparr>)"
  by (simp add: handle_raft_message_def reply_def returns_def handle_pre_vote_def Let_def
      ex_pre_vote_def ex_node_def ex_pre_grant_def misaddressed_def is_member_def send_def
      is_log_up_to_date_def last_log_index_def last_log_term_def ex_defs)

definition ex_request_vote :: "nat \<Rightarrow> message" where
  "ex_request_vote p =
     default_message\<lparr>m_type := MsgRequestVote, m_from := 1, m_to := p, m_term := 1\<rparr>"

definition ex_vote :: "wal_record list" where
  "ex_vote = [RecHardState \<lparr>hs_term = 1, hs_vote = 1, hs_commit = 0\<rparr>]"

definition ex_candidate :: "message list \<Rightarrow> raft" where
  "ex_candidate ms = (ex_node 1 0)\<lparr>r_state := Candidate, r_term := 1, r_voted_for := 1,
     r_votes := [(1, True)], r_pre_votes := [(1, True), (2, True)],
     r_wal := Some (ex_file ex_vote), r_msgs := ms\<rparr>"

lemma ex_pre_vote_won:
  "raft_step (Receive ex_pre_grant) (ex_pre_candidate []) =
     (Inr (), ex_candidate [ex_request_vote 2, ex_request_vote 3])"
  by (simp add: handle_raft_message_def returns_def handle_pre_vote_response_def Let_def
      ex_pre_candidate_def ex_pre_grant_def ex_node_def misaddressed_def is_member_def
      umap_put_def count_true_def become_candidate_def campaign_def persist_hard_state_def
      sync_wal_def wal_sync_def save_hard_state_def current_hard_state_def hs_is_empty_def
      reset_randomized_election_timeout_def ex_file_def open_wal_def ex_candidate_def ex_vote_def
      vote_request_def ex_request_vote_def last_log_index_def last_log_term_def ex_defs)

definition ex_grant :: message where
  "ex_grant = default_message\<lparr>m_type := MsgRequestVoteResponse, m_from := 2, m_to := 1,
     m_term := 1, m_vote_granted := True\<rparr>"


definition ex_voter :: "message list \<Rightarrow> raft" where
  "ex_voter ms = (ex_node 2 0)\<lparr>r_term := 1, r_voted_for := 1,
     r_wal := Some (ex_file
       [RecHardState \<lparr>hs_term = 1, hs_vote = 0, hs_commit = 0\<rparr>,
        RecHardState \<lparr>hs_term = 1, hs_vote = 1, hs_commit = 0\<rparr>]), r_msgs := ms\<rparr>"

lemma ex_vote_granted:
  "raft_step (Receive (ex_request_vote 2)) (ex_node 2 0) = (Inr (), ex_voter [ex_grant])"
  by (simp add: handle_raft_message_def reply_def returns_def handle_request_vote_def Let_def
      ex_request_vote_def ex_node_def ex_voter_def ex_grant_def misaddressed_def is_member_def
      send_def is_log_up_to_date_def last_log_index_def last_log_term_def become_follower_def
      persist_hard_state_def sync_wal_def wal_sync_def save_hard_state_def current_hard_state_def
      hs_is_empty_def reset_randomized_election_timeout_def ex_file_def open_wal_def ex_defs)

definition ex_heartbeat :: "nat \<Rightarrow> message" where
  "ex_heartbeat p =
     default_message\<lparr>m_type := MsgAppendEntries, m_from := 1, m_to := p, m_term := 1\<rparr>"

definition ex_leader :: raft where
  "ex_leader = (ex_candidate [])\<lparr>r_state := Leader, r_lead := 1,
     r_votes := [(1, True), (2, True)],
     r_progress := [(2, \<lparr>p_match = 0, p_next = 1\<rparr>), (3, \<lparr>p_match = 0, p_next = 1\<rparr>)],
     r_msgs := [ex_heartbeat 2, ex_heartbeat 3]\<rparr>"

lemma ex_elected: "raft_step (Receive ex_grant) (ex_candidate []) = (Inr (), ex_leader)"
  by (simp add: handle_raft_message_def returns_def handle_request_vote_response_def Let_def
      ex_candidate_def ex_grant_def ex_node_def misaddressed_def is_member_def umap_put_def
      count_true_def become_leader_def broadcast_heartbeat_def heartbeat_peer_def umap_at_def
      umap_touch_def send_def make_append_entries_def ex_leader_def ex_heartbeat_def
      last_log_index_def ex_defs)

subsection \<open>The run\<close>

text \<open>Reachability with the three nodes and the network written out.\<close>

definition ex_cluster :: "raft \<Rightarrow> raft \<Rightarrow> raft \<Rightarrow> message set \<Rightarrow> cluster" where
  "ex_cluster a b c net =
     \<lparr>c_node = (\<lambda>_. None)(1 := Some a, 2 := Some b, 3 := Some c), c_file = (\<lambda>_. []), c_net = net\<rparr>"

lemma reachable_step: "reachable C \<Longrightarrow> cluster_step C C' \<Longrightarrow> reachable C'"
  by (simp add: reachable_def)

lemma ex_start:
  assumes "reachable C" "c_node C n = None" "c_file C n = []" "n \<in> {1, 2, 3}"
  shows "reachable (run_node n (ex_node n 0) C)"
  using assms ex_boot [of n]
  by (intro reachable_step [OF assms(1)] cluster_step.start [where nc = "ex_config n"])
    (simp_all add: ex_config_def)

lemma ex_started: "reachable (ex_cluster (ex_node 1 0) (ex_node 2 0) (ex_node 3 0) {})"
proof -
  let ?C1 = "run_node 1 (ex_node 1 0) initial_cluster"
  let ?C2 = "run_node 2 (ex_node 2 0) ?C1"
  have "reachable initial_cluster" by (simp add: reachable_def)
  then have "reachable ?C1" by (rule ex_start) (simp_all add: initial_cluster_def)
  then have "reachable ?C2" by (rule ex_start) (simp_all add: initial_cluster_def run_node_def)
  then have "reachable (run_node 3 (ex_node 3 0) ?C2)"
    by (rule ex_start) (simp_all add: initial_cluster_def run_node_def)
  moreover have "run_node 3 (ex_node 3 0) ?C2
      = ex_cluster (ex_node 1 0) (ex_node 2 0) (ex_node 3 0) {}"
    by (simp add: ex_cluster_def run_node_def initial_cluster_def)
  ultimately show ?thesis by simp
qed

lemma ex_fields:
  "c_node (ex_cluster a b c net) 1 = Some a" "c_node (ex_cluster a b c net) 2 = Some b"
  "c_node (ex_cluster a b c net) 3 = Some c" "c_net (ex_cluster a b c net) = net"
  "run_node 1 x (ex_cluster a b c net) = ex_cluster x b c net"
  "run_node 2 x (ex_cluster a b c net) = ex_cluster a x c net"
  "run_node 3 x (ex_cluster a b c net) = ex_cluster a b x net"
  "(ex_cluster a b c net)\<lparr>c_net := net'\<rparr> = ex_cluster a b c net'"
  by (auto simp: ex_cluster_def run_node_def)

lemma ex_event:
  assumes "reachable (ex_cluster a b c net)" "\<And>m. ev = Receive m \<Longrightarrow> m \<in> net"
  shows "in_range a \<Longrightarrow> raft_step ev a = (Inr (), x) \<Longrightarrow> reachable (ex_cluster x b c net)"
    and "in_range b \<Longrightarrow> raft_step ev b = (Inr (), x) \<Longrightarrow> reachable (ex_cluster a x c net)"
    and "in_range c \<Longrightarrow> raft_step ev c = (Inr (), x) \<Longrightarrow> reachable (ex_cluster a b x net)"
  using reachable_step [OF assms(1) cluster_step.event [OF ex_fields(1)]]
    reachable_step [OF assms(1) cluster_step.event [OF ex_fields(2)]]
    reachable_step [OF assms(1) cluster_step.event [OF ex_fields(3)]] assms(2)
  unfolding ex_fields by blast+

lemma ex_flush:
  assumes "reachable (ex_cluster a b c net)"
  shows "\<not> r_storage_failed a \<Longrightarrow>
      reachable (ex_cluster (a\<lparr>r_msgs := []\<rparr>) b c (net \<union> set (r_msgs a)))"
    and "\<not> r_storage_failed b \<Longrightarrow>
      reachable (ex_cluster a (b\<lparr>r_msgs := []\<rparr>) c (net \<union> set (r_msgs b)))"
    and "\<not> r_storage_failed c \<Longrightarrow>
      reachable (ex_cluster a b (c\<lparr>r_msgs := []\<rparr>) (net \<union> set (r_msgs c)))"
  using reachable_step [OF assms cluster_step.flush [OF ex_fields(1) _ read_messages_def]]
    reachable_step [OF assms cluster_step.flush [OF ex_fields(2) _ read_messages_def]]
    reachable_step [OF assms cluster_step.flush [OF ex_fields(3) _ read_messages_def]]
  unfolding ex_fields by blast+

lemma ex_ready [simp]:
  "in_range (ex_node n e)" "in_range (ex_pre_candidate ms)" "in_range (ex_candidate ms)"
  "in_range (ex_voter ms)" "in_range ((ex_node 2 0)\<lparr>r_msgs := ms\<rparr>)"
  by (simp_all add: in_range_def ex_node_def ex_pre_candidate_def ex_candidate_def ex_voter_def
      log_end_def two64_def)

lemma ex_queues [simp]:
  "(ex_pre_candidate ms)\<lparr>r_msgs := []\<rparr> = ex_pre_candidate []"
  "(ex_candidate ms)\<lparr>r_msgs := []\<rparr> = ex_candidate []"
  "(ex_voter ms)\<lparr>r_msgs := []\<rparr> = ex_voter []" "(ex_node 2 0)\<lparr>r_msgs := []\<rparr> = ex_node 2 0"
  "r_msgs (ex_pre_candidate ms) = ms" "r_msgs (ex_candidate ms) = ms" "r_msgs (ex_voter ms) = ms"
  "\<not> r_storage_failed (ex_pre_candidate ms)" "\<not> r_storage_failed (ex_candidate ms)"
  "\<not> r_storage_failed (ex_voter ms)" "\<not> r_storage_failed (ex_node n e)"
  by (simp_all add: ex_pre_candidate_def ex_candidate_def ex_voter_def ex_node_def)

lemma ex_waiting: "e \<le> 9 \<Longrightarrow> reachable (ex_cluster (ex_node 1 e) (ex_node 2 0) (ex_node 3 0) {})"
proof (induction e)
  case 0
  show ?case by (rule ex_started)
next
  case (Suc e)
  then show ?case
    using ex_event(1) [of "ex_node 1 e" _ _ _ Tick] ex_tick [of e 1] by simp
qed

definition ex_net :: "message set" where
  "ex_net = {ex_pre_vote 2, ex_pre_vote 3, ex_pre_grant, ex_request_vote 2, ex_request_vote 3, ex_grant}"

lemma ex_pre_voted:
  "reachable (ex_cluster (ex_pre_candidate []) (ex_node 2 0) (ex_node 3 0)
     {ex_pre_vote 2, ex_pre_vote 3, ex_pre_grant})"
proof -
  have "reachable (ex_cluster (ex_pre_candidate [ex_pre_vote 2, ex_pre_vote 3])
      (ex_node 2 0) (ex_node 3 0) {})"
    using ex_event(1) [OF ex_waiting [OF order_refl] _ _ ex_timeout] by simp
  from ex_flush(1) [OF this]
  have "reachable (ex_cluster (ex_pre_candidate []) (ex_node 2 0) (ex_node 3 0)
      {ex_pre_vote 2, ex_pre_vote 3})" by simp
  from ex_event(2) [OF this _ _ ex_pre_vote_granted]
  have "reachable (ex_cluster (ex_pre_candidate []) ((ex_node 2 0)\<lparr>r_msgs := [ex_pre_grant]\<rparr>)
      (ex_node 3 0) {ex_pre_vote 2, ex_pre_vote 3})" by simp
  from ex_flush(2) [OF this] show ?thesis by (simp add: insert_commute)
qed

lemma ex_leader_reachable: "reachable (ex_cluster ex_leader (ex_voter []) (ex_node 3 0) ex_net)"
proof -
  let ?net = "{ex_pre_vote 2, ex_pre_vote 3, ex_pre_grant}"
  let ?net2 = "insert (ex_request_vote 2) (insert (ex_request_vote 3) ?net)"
  have "reachable (ex_cluster (ex_candidate [ex_request_vote 2, ex_request_vote 3]) (ex_node 2 0)
      (ex_node 3 0) ?net)"
    using ex_event(1) [OF ex_pre_voted _ _ ex_pre_vote_won] by simp
  from ex_flush(1) [OF this]
  have "reachable (ex_cluster (ex_candidate []) (ex_node 2 0) (ex_node 3 0) ?net2)"
    by (simp add: insert_commute)
  from ex_event(2) [OF this _ _ ex_vote_granted]
  have "reachable (ex_cluster (ex_candidate []) (ex_voter [ex_grant]) (ex_node 3 0) ?net2)" by simp
  from ex_flush(2) [OF this]
  have "reachable (ex_cluster (ex_candidate []) (ex_voter []) (ex_node 3 0) (insert ex_grant ?net2))"
    by (simp add: insert_commute)
  from ex_event(1) [OF this _ _ ex_elected]
  have "reachable (ex_cluster ex_leader (ex_voter []) (ex_node 3 0) (insert ex_grant ?net2))" by simp
  moreover have "insert ex_grant ?net2 = ex_net" by (auto simp: ex_net_def)
  ultimately show ?thesis by simp
qed

end
