(* ===== verification/Raft_Props.thy ===== *)
theory Raft_Props
  imports Raft_Forward Cluster_Trace
begin

text \<open>
  The properties of one Raft node, stated over the operations of the code, each with a
  concrete instance where it has hypotheses.
\<close>

subsection \<open>Example states\<close>

lemma ex_leader_ok: "node_ok (ex_cluster ex_leader (ex_voter []) (ex_node 3 0) ex_net) 1 ex_leader"
  using reachable_ok [OF ex_leader_reachable] ex_fields(1) by (fastforce simp: cluster_ok_def)

lemma ex_voter_ok: "node_ok (ex_cluster ex_leader (ex_voter []) (ex_node 3 0) ex_net) 2 (ex_voter [])"
  using reachable_ok [OF ex_leader_reachable] ex_fields(2) by (fastforce simp: cluster_ok_def)

lemma ex_node_wf: "node_wf ex_leader" "node_wf (ex_voter [])"
  "storage_ok [] ex_leader" "storage_ok [] (ex_voter [])"
  using ex_leader_ok ex_voter_ok by (auto simp: node_ok_def)

definition ex_entry :: "nat \<Rightarrow> nat \<Rightarrow> entry" where
  "ex_entry t i = \<lparr>entry_type = EntryNormal, entry_term = t, entry_index = i, entry_data = [7]\<rparr>"

text \<open>A follower of term 1 with two entries, the first committed and applied.\<close>

definition ex_follower :: raft where
  "ex_follower = (ex_node 2 0)\<lparr>r_term := 1, r_voted_for := 1, r_lead := 1,
     r_log := [ex_entry 1 1, ex_entry 1 2], r_commit_index := 1, r_last_applied := 1,
     r_wal := Some (ex_file
       [RecHardState \<lparr>hs_term = 1, hs_vote = 1, hs_commit = 0\<rparr>, RecEntry (ex_entry 1 1),
        RecEntry (ex_entry 1 2), RecHardState \<lparr>hs_term = 1, hs_vote = 1, hs_commit = 1\<rparr>])\<rparr>"

text \<open>The leader of a later term replaces the second entry.\<close>

definition ex_replace :: message where
  "ex_replace = default_message\<lparr>m_type := MsgAppendEntries, m_from := 3, m_to := 2, m_term := 2,
     m_prev_log_index := 1, m_prev_log_term := 1, m_entries := [ex_entry 2 2],
     m_leader_commit := 1\<rparr>"

lemma nth_upto_two: "(\<forall>k < Suc (Suc 0). P k) \<longleftrightarrow> P 0 \<and> P (Suc 0)"
  by (auto simp: less_Suc_eq)

lemma ex_follower_wf: "node_wf ex_follower" "storage_ok [] ex_follower"
  "event_ok (Receive ex_replace) ex_follower" "msg_wf ex_replace"
proof -
  show "node_wf ex_follower"
    by (simp add: node_wf_def out_wf_def wf_defs ex_follower_def ex_node_def ex_entry_def
        nth_upto_two umap_at_def default_progress_def two64_def)
  show "storage_ok [] ex_follower"
    by (simp add: storage_ok_def ex_follower_def ex_node_def ex_file_def open_wal_def legal_def
        vote_le_def recovered_init_def empty_hard_state_def empty_snapshot_def rec_commit_def
        rec_end_def ex_entry_def wal_image_def recover_records_def two64_def)
  show "msg_wf ex_replace"
    by (simp add: msg_wf_def ex_replace_def ex_entry_def default_message_def two64_def)
  then show "event_ok (Receive ex_replace) ex_follower"
    by (simp add: event_ok_def ex_follower_def ex_node_def two64_def)
qed

definition ex_reply :: "message \<Rightarrow> nat \<Rightarrow> message" where
  "ex_reply msg i = default_message\<lparr>m_type := MsgAppendEntriesResponse, m_from := 2,
     m_to := m_from msg, m_term := m_term msg, m_success := True, m_match_index := i\<rparr>"

definition ex_replaced :: raft where
  "ex_replaced = ex_follower\<lparr>r_term := 2, r_voted_for := 0, r_lead := 3,
     r_log := [ex_entry 1 1, ex_entry 2 2],
     r_wal := Some (ex_file
       [RecHardState \<lparr>hs_term = 1, hs_vote = 1, hs_commit = 0\<rparr>, RecEntry (ex_entry 1 1),
        RecEntry (ex_entry 1 2), RecHardState \<lparr>hs_term = 1, hs_vote = 1, hs_commit = 1\<rparr>,
        RecHardState \<lparr>hs_term = 2, hs_vote = 0, hs_commit = 1\<rparr>, RecEntry (ex_entry 2 2)])\<rparr>"

lemmas ex_io = persist_hard_state_def sync_wal_def wal_sync_def save_hard_state_def
  current_hard_state_def hs_is_empty_def wal_save_entry_def save_entry_def append_record_def
  kMaxRecordPayload_def ex_file_def open_wal_def

lemma ex_replace_run:
  "handle_append_entries ex_replace ex_follower = (Inr (ex_reply ex_replace 2), ex_replaced)"
  by (simp add: handle_append_entries_def Let_def prepare_for_leader_rpc_def misaddressed_def
      is_member_def ex_follower_def ex_node_def ex_replace_def become_follower_def
      reset_randomized_election_timeout_def ex_io log_ok_def term_at_def last_log_index_def
      log_entry_def append_entries_commit_def ex_replaced_def ex_reply_def ex_entry_def ex_defs)

subsection \<open>Monotonicity\<close>

text \<open>
  C6. No event takes a node back: the term never decreases, a vote cast in a term is never
  changed within that term, and the commit index, the applied index and the snapshot index
  never decrease.
\<close>

theorem node_never_goes_back:
  assumes "node_wf s" "event_ok ev s"
  defines "s' \<equiv> snd (raft_step ev s)"
  shows "r_term s \<le> r_term s'
     \<and> (r_term s' = r_term s \<and> r_voted_for s \<noteq> 0 \<longrightarrow> r_voted_for s' = r_voted_for s)
     \<and> r_commit_index s \<le> r_commit_index s' \<and> r_last_applied s \<le> r_last_applied s'
     \<and> r_log_offset s \<le> r_log_offset s'"
  using raft_step_forward [OF assms(1,2)]
  by (auto simp: s'_def forward_def kept_def vote_le_def current_hard_state_def)

theorem node_never_goes_back_witness:
  "node_wf (ex_voter []) \<and> event_ok (Receive (ex_request_vote 2)) (ex_voter [])
     \<and> r_voted_for (snd (raft_step (Receive (ex_request_vote 2)) (ex_voter []))) = 1"
proof -
  have ev: "event_ok (Receive (ex_request_vote 2)) (ex_voter [])"
    by (simp add: event_ok_def msg_wf_def ex_request_vote_def ex_voter_def ex_node_def ex_defs)
  have "r_term (snd (raft_step (Receive (ex_request_vote 2)) (ex_voter []))) = r_term (ex_voter [])"
    by (simp add: handle_raft_message_def reply_def returns_def handle_request_vote_def Let_def
        ex_request_vote_def ex_node_def ex_voter_def misaddressed_def is_member_def send_def
        is_log_up_to_date_def io_forms reset_randomized_election_timeout_def ex_defs)
  then show ?thesis
    using node_never_goes_back [OF ex_node_wf(2) ev] ex_node_wf(2) ev
    by (simp add: ex_voter_def)
qed

text \<open>
  C7. Committed entries are final: after any event, every index up to the old commit index
  that the node still retains holds the same entry.
\<close>

theorem committed_entries_final:
  assumes "node_wf s" "event_ok ev s" "raft_step ev s = (r, s')"
    "r_log_offset s' < i" "i \<le> r_commit_index s"
  shows "log_entry s' i = log_entry s i"
proof -
  have wf': "node_wf s'" using raft_step_node_wf [OF assms(1,2)] assms(3) by simp
  have k: "kept s s'" using raft_step_forward [OF assms(1,2)] assms(3) by (simp add: forward_def)
  have "log_entry s i = log_at s i" "log_entry s' i = log_at s' i"
    using assms k wf' log_entry_nth [of s i] log_entry_nth [of s' i]
    by (auto simp: log_at_def kept_def node_wf_def raft_wf_def log_wf_def)
  with k assms(4,5) show ?thesis by (simp add: kept_def)
qed


theorem committed_entries_final_witness:
  "node_wf ex_follower \<and> event_ok (Receive ex_replace) ex_follower
     \<and> r_log (snd (raft_step (Receive ex_replace) ex_follower)) = [ex_entry 1 1, ex_entry 2 2]
     \<and> log_entry (snd (raft_step (Receive ex_replace) ex_follower)) 1 = log_entry ex_follower 1"
proof -
  have run: "raft_step (Receive ex_replace) ex_follower
      = (Inr (), send (ex_reply ex_replace 2) ex_replaced)"
    using ex_replace_run
    by (simp add: handle_raft_message_def ex_replace_def reply_outcome_def returns_def ex_defs)
  have "log_entry (send (ex_reply ex_replace 2) ex_replaced) 1 = log_entry ex_follower 1"
    by (rule committed_entries_final [OF ex_follower_wf(1,3) run])
      (simp_all add: send_def ex_replaced_def ex_follower_def ex_node_def)
  then show ?thesis
    using ex_follower_wf run by (simp add: send_def ex_replaced_def)
qed


subsection \<open>Replication\<close>

lemma prepare_frame [simp]:
  "r_log (snd (prepare_for_leader_rpc msg s)) = r_log s"
  "r_log_offset (snd (prepare_for_leader_rpc msg s)) = r_log_offset s"
  "r_log_offset_term (snd (prepare_for_leader_rpc msg s)) = r_log_offset_term s"
  "r_commit_index (snd (prepare_for_leader_rpc msg s)) = r_commit_index s"
  "r_last_applied (snd (prepare_for_leader_rpc msg s)) = r_last_applied s"
  "r_id (snd (prepare_for_leader_rpc msg s)) = r_id s"
  by (simp_all add: prepare_for_leader_rpc_def Let_def reset_randomized_election_timeout_def)

lemma become_follower_state:
  "r_term (become_follower t l s) = max t (r_term s)"
  "r_state (become_follower t l s) = (if t < r_term s then r_state s else Follower)"
  "t \<le> r_term s \<Longrightarrow> r_storage_failed (become_follower t l s) = r_storage_failed s"
  by (auto simp: become_follower_def Let_def persist_hard_state_eq
      reset_randomized_election_timeout_def)

lemma prepare_accepted:
  assumes "prepare_for_leader_rpc msg s = (True, s1)"
  shows "\<not> misaddressed msg s" "r_state s1 = Follower" "r_term s1 = m_term msg"
    "r_lead s1 = m_from msg" "\<not> r_storage_failed s1"
  using assms
  by (auto simp: prepare_for_leader_rpc_def Let_def reset_randomized_election_timeout_def
      become_follower_state split: if_splits)

lemma merge_log_unchanged: "divergence b i es log = None \<Longrightarrow> merge_log b i es log = log"
  by (induction es arbitrary: i) (auto split: if_splits)

text \<open>What a successful AppendEntries response tells about the run of the handler.\<close>

lemma append_entries_success:
  assumes "handle_append_entries msg s = (Inr m, s')" "m_success m"
  obtains s1 s2 where "prepare_for_leader_rpc msg s = (True, s1)" "log_ok msg s1"
    "append_entries_loop (u64_inc (m_prev_log_index msg)) (m_entries msg) s1 = (Inr None, s2)"
    "r_log s' = r_log s2" "r_log_offset s' = r_log_offset s2" "r_term s' = r_term s2"
    "m_match_index m = u64_add (m_prev_log_index msg) (length (m_entries msg))"
    "r_commit_index s' = (if m_leader_commit msg > r_commit_index s2
       then min (m_leader_commit msg) (last_log_index s2) else r_commit_index s2)"
    "\<not> r_storage_failed s'"
proof -
  obtain b s1 where p: "prepare_for_leader_rpc msg s = (b, s1)" by fastforce
  obtain r s2 where l:
    "append_entries_loop (u64_inc (m_prev_log_index msg)) (m_entries msg) s1 = (r, s2)"
    by fastforce
  have b: "b" "log_ok msg s1" "r = Inr None"
    using assms p l
    by (auto simp: handle_append_entries_def Let_def default_message_def
        split: bool.splits if_splits sum.splits option.splits prod.splits)
  have "\<not> r_storage_failed s2"
    using prepare_accepted(5) [of msg s s1] p b(1) l
      append_entries_loop_frame [of "u64_inc (m_prev_log_index msg)" "m_entries msg" s1] by auto
  then show thesis
    using that [of s1 s2] assms p l b
    by (auto simp: handle_append_entries_def Let_def io_forms append_entries_commit_def
        last_log_index_def default_message_def split: if_splits bool.splits)
qed

text \<open>
  C8. An accepted AppendEntries makes the follower's log the reference merge of its log with
  the message: everything before the first missing or conflicting entry is kept, the rest
  comes from the message. The reply reports the last index of the message, and the commit
  index becomes the leader's, limited by the new log, but never moves back.
\<close>

theorem append_entries_merges:
  assumes "node_wf s" "msg_wf msg" "handle_append_entries msg s = (Inr m, s')" "m_success m"
  shows "r_log s' = merge_log (r_log_offset s) (m_prev_log_index msg + 1) (m_entries msg) (r_log s)
     \<and> r_log_offset s' = r_log_offset s
     \<and> m_match_index m = m_prev_log_index msg + length (m_entries msg)
     \<and> r_commit_index s' = max (r_commit_index s) (min (m_leader_commit msg) (log_end s'))"
proof -
  obtain s1 s2 where p: "prepare_for_leader_rpc msg s = (True, s1)" "log_ok msg s1"
    and l: "append_entries_loop (u64_inc (m_prev_log_index msg)) (m_entries msg) s1 = (Inr None, s2)"
    and s': "r_log s' = r_log s2" "r_log_offset s' = r_log_offset s2"
    and m: "m_match_index m = u64_add (m_prev_log_index msg) (length (m_entries msg))"
    and c: "r_commit_index s' = (if m_leader_commit msg > r_commit_index s2
       then min (m_leader_commit msg) (last_log_index s2) else r_commit_index s2)"
    using append_entries_success [OF assms(3,4)] by metis
  have s1: "r_log s1 = r_log s" "r_log_offset s1 = r_log_offset s" "r_commit_index s1 = r_commit_index s"
    using prepare_frame [of msg s] p(1) by simp_all
  have w1: "node_wf s1" "log_wf s1"
    using prepare_for_leader_rpc_node [of s msg] assms(1,2) p
    by (auto simp: msg_wf_def node_wf_def raft_wf_def)
  note f = append_entries_start_facts [OF w1(2) assms(2) p(2)]
  have i: "u64_inc (m_prev_log_index msg) = m_prev_log_index msg + 1"
    using assms(2) by (simp add: msg_wf_def wrap_simps)
  have "r_log s2 = merge_log (r_log_offset s) (m_prev_log_index msg + 1) (m_entries msg) (r_log s)"
    using append_entries_loop_merge [OF w1(2) f l] merge_log_unchanged s1
    by (auto simp: i split: option.splits if_splits)
  moreover obtain lg w where "s2 = s1\<lparr>r_log := lg, r_wal := w\<rparr>"
    using append_entries_loop_frame l by (metis prod.inject)
  moreover have "log_wf s2"
    using append_entries_loop_log_wf [OF w1(2) f] l by simp
  ultimately show ?thesis
    using s' m c s1 assms(2)
    by (auto simp: last_log_index_end msg_wf_def wrap_simps log_end_def log_wf_def)
qed


theorem append_entries_merges_witness:
  "node_wf ex_follower \<and> msg_wf ex_replace
     \<and> handle_append_entries ex_replace ex_follower = (Inr (ex_reply ex_replace 2), ex_replaced)
     \<and> r_log ex_replaced = merge_log 0 2 [ex_entry 2 2] [ex_entry 1 1, ex_entry 1 2]"
proof -
  have "m_success (ex_reply ex_replace 2)" by (simp add: ex_reply_def)
  from append_entries_merges [OF ex_follower_wf(1,4) ex_replace_run this]
  have "r_log ex_replaced = merge_log (r_log_offset ex_follower) (m_prev_log_index ex_replace + 1)
      (m_entries ex_replace) (r_log ex_follower)" by simp
  then show ?thesis
    using ex_follower_wf ex_replace_run by (simp add: ex_follower_def ex_node_def ex_replace_def)
qed

lemma healthy_image:
  assumes "storage_ok d s" "\<not> r_storage_failed s"
  shows "wal_image (recover_records (disk_of s)) s"
  using assms by (auto simp: storage_ok_def disk_of_def)

text \<open>
  C9. A success reply to AppendEntries is sent only when everything it acknowledges is
  durable: replaying the file at that moment gives exactly the log, term, vote, commit index
  and snapshot the follower has in memory.
\<close>

theorem append_success_is_durable:
  assumes "node_wf s" "msg_wf msg" "storage_ok d s"
    "handle_append_entries msg s = (Inr m, s')" "m_success m"
  shows "prefix d (disk_of s') \<and> rec_entries (recover_records (disk_of s')) = r_log s'
     \<and> hs_term (rec_hard_state (recover_records (disk_of s'))) = r_term s'
     \<and> hs_vote (rec_hard_state (recover_records (disk_of s'))) = r_voted_for s'
     \<and> rec_commit (recover_records (disk_of s')) = r_commit_index s'
     \<and> snap_index (rec_snapshot (recover_records (disk_of s'))) = r_log_offset s'"
proof -
  have st: "storage_ok d s'"
    using handle_append_entries_storage [OF assms(1-3)] assms(4) by (simp add: outcome_ok_def)
  have "\<not> r_storage_failed s'" using append_entries_success [OF assms(4,5)] by metis
  from healthy_image [OF st this] storage_ok_of [OF st] show ?thesis by (simp add: wal_image_def)
qed

theorem append_success_is_durable_witness:
  "storage_ok [] ex_follower
     \<and> handle_append_entries ex_replace ex_follower = (Inr (ex_reply ex_replace 2), ex_replaced)
     \<and> rec_entries (recover_records (disk_of ex_replaced)) = [ex_entry 1 1, ex_entry 2 2]"
proof -
  have "m_success (ex_reply ex_replace 2)" by (simp add: ex_reply_def)
  from append_success_is_durable [OF ex_follower_wf(1,4,2) ex_replace_run this]
  show ?thesis using ex_follower_wf ex_replace_run by (simp add: ex_replaced_def)
qed

text \<open>The number of nodes that hold an index, counted as the code does, is a cardinality.\<close>

lemma replicas_card:
  assumes "node_wf s" "0 < i"
  shows "replicas s i =
     card (insert (r_id s) {p \<in> set (r_peers s). p_match (umap_at (r_progress s) p default_progress) \<ge> i
       \<and> p \<noteq> r_id s})"
proof -
  let ?A = "{p \<in> set (r_peers s). p_match (umap_at (r_progress s) p default_progress) \<ge> i
       \<and> p \<noteq> r_id s}"
  have ok: "umap_ok (r_progress s)" "fst ` set (r_progress s) \<subseteq> set (other_peers s)"
    using raft_wf_maps [OF node_wf_raft [OF assms(1)]] by auto
  let ?f = "filter (\<lambda>(_, p). p_match p \<ge> i) (r_progress s)"
  have A: "?A = fst ` set ?f"
  proof
    show "?A \<subseteq> fst ` set ?f"
    proof
      fix p assume p: "p \<in> ?A"
      then obtain v where "map_of (r_progress s) p = Some v"
        using assms(2) by (cases "map_of (r_progress s) p") (auto simp: umap_at_def default_progress_def)
      with p have "(p, v) \<in> set ?f" by (auto simp: umap_at_def dest: map_of_SomeD)
      then show "p \<in> fst ` set ?f" by force
    qed
    show "fst ` set ?f \<subseteq> ?A"
    proof
      fix p assume "p \<in> fst ` set ?f"
      then obtain v where v: "(p, v) \<in> set (r_progress s)" "i \<le> p_match v" by auto
      then have "map_of (r_progress s) p = Some v" using ok(1) by (simp add: umap_ok_def)
      moreover have "p \<in> set (other_peers s)" using v(1) ok(2) by force
      ultimately show "p \<in> ?A" using v(2) by (simp add: umap_at_def other_peers_def)
    qed
  qed
  have d: "distinct (map fst ?f)" using ok(1) by (simp add: umap_ok_def distinct_map_filter)
  have "card ?A = card (set (map fst ?f))" unfolding A by (simp only: list.set_map)
  also have "\<dots> = length ?f" unfolding distinct_card [OF d] by (rule length_map)
  finally have "card ?A = length ?f" .
  moreover have "card (insert (r_id s) ?A) = Suc (card ?A)" by (simp add: card_insert_disjoint)
  ultimately show ?thesis by (simp add: replicas_def)
qed


lemma sorted_le_last: "sorted ys \<Longrightarrow> x \<in> set ys \<Longrightarrow> (x :: nat) \<le> last ys"
  by (induction ys) auto

lemma last_filter_max:
  assumes "sorted xs" "x \<in> set xs" "last (c # filter P xs) < (x :: nat)"
  shows "\<not> P x"
proof
  assume "P x"
  then have "x \<in> set (filter P xs)" using assms(2) by simp
  then have mem: "x \<in> set (filter P xs)" "filter P xs \<noteq> []" by (auto simp only: list.set)
  have "x \<le> last (filter P xs)"
    using sorted_le_last [OF _ mem(1)] sorted_wrt_filter [OF assms(1)] by simp
  with mem(2) assms(3) show False by simp
qed

lemma advance_commit_last_max:
  assumes "log_wf s" "advance_commit s < i" "i \<le> log_end s"
  shows "\<not> committable s i"
proof -
  let ?xs = "[u64_inc (r_commit_index s)..<Suc (last_log_index s)]"
  have inc: "u64_inc (r_commit_index s) = Suc (r_commit_index s)"
    using assms(1) by (simp add: log_wf_def wrap_simps)
  have "i \<in> set ?xs"
    using assms advance_commit_bounds [OF assms(1)]
    by (auto simp: inc last_log_index_end simp del: upt_Suc)
  then show ?thesis
    using last_filter_max [of ?xs i "r_commit_index s" "committable s"] assms(2)
    by (simp add: advance_commit_last inc del: upt_Suc)
qed

text \<open>
  C10. The commit rule. When a response moves the leader's commit index, the new index lies
  in the log, its entry is of the leader's current term, and a majority of the three nodes,
  the leader included, is recorded as holding it; and no later entry of the current term is
  recorded on a majority.
\<close>

theorem commit_rule:
  assumes "node_wf s" "r_commit_index s < r_commit_index (handle_append_entries_response msg s)"
  defines "s' \<equiv> handle_append_entries_response msg s"
  defines "holders i \<equiv> insert (r_id s) {p \<in> set (r_peers s).
             p_match (umap_at (r_progress s') p default_progress) \<ge> i \<and> p \<noteq> r_id s}"
  shows "r_state s = Leader \<and> m_success msg \<and> m_term msg = r_term s
     \<and> r_commit_index s' \<le> last_log_index s
     \<and> entry_term (log_entry s (r_commit_index s')) = r_term s
     \<and> 2 \<le> card (holders (r_commit_index s'))
     \<and> (\<forall>i. r_commit_index s' < i \<longrightarrow> i \<le> last_log_index s \<longrightarrow>
           entry_term (log_entry s i) = r_term s \<longrightarrow> card (holders i) < 2)"
proof -
  have lw: "log_wf s" using assms(1) by (simp add: node_wf_def raft_wf_def)
  have g: "\<not> misaddressed msg s" "r_state s = Leader" "m_success msg" "m_term msg = r_term s"
    using assms(2) by (auto simp: handle_append_entries_response_eq Let_def record_failure_def
        send_def broadcast_heartbeat_eq split: if_splits)
  define u where "u = record_success msg s"
  have u: "node_wf u" "log_wf u" "r_commit_index u = r_commit_index s" "r_term u = r_term s"
    "r_id u = r_id s" "r_peers u = r_peers s"
    using record_success_node [OF assms(1) g(1)] lw by (simp_all add: u_def)
      (simp add: record_success_def set_match_def Let_def)
  have lg: "log_entry u = log_entry s" "last_log_index u = last_log_index s"
    using log_fields_cong [of u s] by (auto simp: u_def record_success_def set_match_def Let_def)
  have c: "r_commit_index s' = advance_commit u" "r_progress s' = r_progress u"
    using assms(2) g
    by (auto simp: s'_def handle_append_entries_response_eq Let_def u_def persist_hard_state_eq
        split: if_splits)
  have h: "replicas u i = card (holders i)" if "0 < i" for i
    using replicas_card [OF u(1) that] u c by (simp add: holders_def)
  have "committable u (advance_commit u)" "0 < advance_commit u" "advance_commit u \<le> log_end u"
    using advance_commit_cases [OF u(2)] assms(2) c u by (auto simp: s'_def)
  moreover have len: "length (r_peers s) = 3" using assms(1) by (simp add: node_wf_def wf_defs)
  moreover have "card (holders i) < 2"
    if "advance_commit u < i" "i \<le> log_end u" "entry_term (log_entry s i) = r_term s" for i
    using advance_commit_last_max [OF u(2) that(1,2)] that h [of i] lg u len
    by (simp add: committable_def)
  ultimately show ?thesis
    using g c u lg h [of "advance_commit u"] last_log_index_end [OF u(2)]
    by (simp add: committable_def)
qed


definition ex_writer :: raft where
  "ex_writer = ex_leader\<lparr>r_log := [ex_entry 1 1], r_msgs := [],
     r_wal := Some (ex_file (ex_vote @ [RecEntry (ex_entry 1 1)]))\<rparr>"

definition ex_ack :: message where
  "ex_ack = default_message\<lparr>m_type := MsgAppendEntriesResponse, m_from := 2, m_to := 1,
     m_term := 1, m_success := True, m_match_index := 1\<rparr>"

lemma ex_writer_wf: "node_wf ex_writer"
  by (simp add: node_wf_def out_wf_def wf_defs ex_writer_def ex_leader_def ex_candidate_def
      ex_node_def ex_entry_def umap_at_def default_progress_def umap_ok_def two64_def
      split: option.split)

lemma ex_ack_commits: "r_commit_index (handle_append_entries_response ex_ack ex_writer) = 1"
  by (simp add: handle_append_entries_response_def misaddressed_def is_member_def ex_ack_def
      ex_writer_def ex_leader_def ex_candidate_def ex_node_def set_match_def umap_put_def Let_def
      advance_commit_def log_entry_def last_log_index_def ex_entry_def replicas_def io_forms ex_defs)

theorem commit_rule_witness:
  "node_wf ex_writer \<and> r_commit_index ex_writer = 0
     \<and> r_commit_index (handle_append_entries_response ex_ack ex_writer) = 1
     \<and> entry_term (log_entry ex_writer 1) = r_term ex_writer"
proof -
  have c: "r_commit_index ex_writer = 0"
    by (simp add: ex_writer_def ex_leader_def ex_candidate_def ex_node_def)
  then show ?thesis
    using commit_rule [OF ex_writer_wf, of ex_ack] ex_ack_commits ex_writer_wf by simp
qed

text \<open>The operations that leave the log alone.\<close>

lemma log_untouched:
  "r_log (tick s) = r_log s \<and> r_log_offset (tick s) = r_log_offset s"
  "r_log (snd (handle_request_vote msg s)) = r_log s
     \<and> r_log_offset (snd (handle_request_vote msg s)) = r_log_offset s"
  "r_log (handle_request_vote_response msg s) = r_log s
     \<and> r_log_offset (handle_request_vote_response msg s) = r_log_offset s"
  "r_log (handle_pre_vote_response msg s) = r_log s
     \<and> r_log_offset (handle_pre_vote_response msg s) = r_log_offset s"
  "r_log (handle_append_entries_response msg s) = r_log s
     \<and> r_log_offset (handle_append_entries_response msg s) = r_log_offset s"
  "r_log (handle_install_snapshot_response msg s) = r_log s
     \<and> r_log_offset (handle_install_snapshot_response msg s) = r_log_offset s"
  by (simp_all add: tick_def Let_def broadcast_heartbeat_eq pre_campaign_def become_pre_candidate_def
      reset_randomized_election_timeout_def handle_request_vote_def persist_hard_state_eq
      handle_request_vote_response_def become_leader_def handle_pre_vote_response_def campaign_def
      become_candidate_def handle_append_entries_response_eq record_success_def record_failure_def
      set_match_def send_def handle_install_snapshot_response_def)

text \<open>A leader that processes an AppendEntries or InstallSnapshot and stays leader refused it.\<close>

lemma leader_refuses:
  assumes "prepare_for_leader_rpc msg s = (b, s1)"
  shows "handle_append_entries msg s = (r, s') \<Longrightarrow> r_state s' = Leader \<Longrightarrow> \<not> b \<and> s' = s1"
    and "handle_install_snapshot msg s = (r, s') \<Longrightarrow> r_state s' = Leader \<Longrightarrow> \<not> b \<and> s' = s1"
proof -
  have st: "b \<Longrightarrow> r_state s1 = Follower" using prepare_accepted(2) assms by simp
  have lp: "r_state (snd (append_entries_loop i es s1)) = r_state s1" for i es
    using append_entries_loop_frame [of i es s1] by auto
  have cm: "r_state (snd (append_entries_commit msg resp u)) = r_state u" for resp u
    by (simp add: append_entries_commit_def Let_def io_forms)
  show "\<not> b \<and> s' = s1" if "handle_append_entries msg s = (r, s')" "r_state s' = Leader"
  proof (cases b)
    case True
    obtain q s2 where l:
      "append_entries_loop (u64_inc (m_prev_log_index msg)) (m_entries msg) s1 = (q, s2)" by fastforce
    have "r_state s' = Follower"
      using that(1) True st lp [of "u64_inc (m_prev_log_index msg)" "m_entries msg"] cm
      by (auto simp: handle_append_entries_def Let_def assms l io_forms case_prod_beta
          split: if_splits sum.splits option.splits bool.splits)
    then show ?thesis using that(2) by simp
  next
    case False
    then show ?thesis using that by (simp add: handle_append_entries_def assms)
  qed
  show "\<not> b \<and> s' = s1" if "handle_install_snapshot msg s = (r, s')" "r_state s' = Leader"
  proof (cases b)
    case True
    then have "r_state s' = Follower"
      using that(1) st
      by (auto simp: handle_install_snapshot_def Let_def assms io_forms
          split: if_splits sum.splits option.splits bool.splits)
    then show ?thesis using that(2) by simp
  next
    case False
    then show ?thesis using that by (simp add: handle_install_snapshot_def assms)
  qed
qed


definition log_grows :: "raft \<Rightarrow> raft \<Rightarrow> bool" where
  "log_grows s s' \<longleftrightarrow> log_end s \<le> log_end s' \<and> r_log_offset s \<le> r_log_offset s'
     \<and> (\<forall>i. r_log_offset s' < i \<longrightarrow> i \<le> log_end s \<longrightarrow> log_at s' i = log_at s i)"

lemma log_grows_same: "r_log s' = r_log s \<and> r_log_offset s' = r_log_offset s \<Longrightarrow> log_grows s s'"
  by (simp add: log_grows_def log_end_def log_at_def)

lemma log_grows_append: "r_log s' = r_log s @ xs \<Longrightarrow> r_log_offset s' = r_log_offset s \<Longrightarrow> log_grows s s'"
  by (auto simp: log_grows_def log_end_def log_at_def nth_append)

lemma log_grows_propose: "log_grows s (snd (propose d s))"
  using propose_frame [of d s] by (auto intro: log_grows_append)

lemma log_grows_read_index: "log_grows s (snd (read_index s))"
proof (rule read_index_state_cases)
  fix c i s1
  assume s1: "s1 = s\<lparr>r_read_index_pending := True,
        r_pending_read_context := r_next_read_context s, r_next_read_context := c,
        r_read_index_acks := [], r_pending_read_index := i\<rparr>"
  obtain xs where "r_log (snd (propose [] s1)) = r_log s @ xs"
      "r_log_offset (snd (propose [] s1)) = r_log_offset s"
    using propose_frame [of "[]" s1] by (auto simp: s1)
  then show "log_grows s (broadcast_heartbeat s1) \<and> log_grows s (snd (propose [] s1))
      \<and> (\<forall>tok. log_grows s (finish_read_index tok (snd (propose [] s1))))"
    by (auto simp: s1 broadcast_heartbeat_eq finish_read_index_def intro: log_grows_same log_grows_append)
qed (simp add: log_grows_same)

lemma log_grows_take_snapshot:
  assumes "log_wf s"
  shows "log_grows s (snd (take_snapshot i d s))"
proof (cases "i = 0 \<or> i \<le> r_log_offset s \<or> i > r_last_applied s")
  case True
  then show ?thesis by (simp add: take_snapshot_def log_grows_same)
next
  case False
  have ef: "entries_from (Suc (r_log_offset s)) (r_log s)" "i \<le> r_log_offset s + length (r_log s)"
    using assms False by (auto simp: log_wf_alt log_end_def)
  have c: "compact_log i (r_log s) = drop (i - r_log_offset s) (r_log s)"
    using compact_log_eq [OF ef(1) _ ef(2)] False by simp
  show ?thesis
    using False ef(2)
    by (auto simp: take_snapshot_def Let_def io_forms c log_grows_def log_end_def log_at_def
        split: sum.split bool.split)
qed

lemma reply_log:
  "log_grows s (snd (reply_outcome x)) = log_grows s (snd x)" "log_grows s (snd (reply y)) = log_grows s (snd y)"
  "r_state (snd (reply_outcome x)) = r_state (snd x)"
  by (auto simp: reply_outcome_def reply_def returns_def send_def log_grows_def log_end_def log_at_def
      split: prod.split sum.split)

lemma leader_log_grows:
  assumes "node_wf s" "r_state (snd (raft_step ev s)) = Leader"
  shows "log_grows s (snd (raft_step ev s))"
proof (cases ev)
  case (Receive m)
  obtain b s1 where p: "prepare_for_leader_rpc m s = (b, s1)" by fastforce
  then have s1: "log_grows s s1" using prepare_frame [of m s] by (auto intro: log_grows_same)
  have ae: "log_grows s (snd (handle_append_entries m s))"
    if "r_state (snd (handle_append_entries m s)) = Leader"
    using leader_refuses(1) [OF p, of "fst (handle_append_entries m s)" "snd (handle_append_entries m s)"]
      that s1 by simp
  have ins: "log_grows s (snd (handle_install_snapshot m s))"
    if "r_state (snd (handle_install_snapshot m s)) = Leader"
    using leader_refuses(2) [OF p, of "fst (handle_install_snapshot m s)" "snd (handle_install_snapshot m s)"]
      that s1 by simp
  show ?thesis
    using Receive assms(2) ae ins log_untouched [THEN log_grows_same]
    by (simp add: handle_raft_message_def reply_log log_grows_same split: if_splits)
qed (use assms(1) in \<open>simp_all add: node_wf_def raft_wf_def log_grows_read_index log_grows_propose
      log_grows_take_snapshot finish_read_index_def advance_def log_untouched(1) log_grows_same\<close>)

text \<open>
  A leader never removes or rewrites an entry of its own log: after any event that
  leaves the node leader, every index its log had reached is still there, and each one it
  still retains holds the same entry.
\<close>

theorem leader_append_only:
  assumes "node_wf s" "event_ok ev s" "raft_step ev s = (r, s')"
    "r_state s = Leader" "r_state s' = Leader" "r_log_offset s' < i" "i \<le> last_log_index s"
  shows "i \<le> last_log_index s' \<and> log_entry s' i = log_entry s i"
proof -
  have wf: "log_wf s" "log_wf s'"
    using raft_step_node_wf [OF assms(1,2)] assms(1,3) by (simp_all add: node_wf_def raft_wf_def)
  have g: "log_grows s s'" using leader_log_grows [OF assms(1), of ev] assms(3,5) by simp
  have "i \<le> log_end s" "i \<le> log_end s'" "r_log_offset s < i"
    using g assms(6,7) by (auto simp: last_log_index_end wf log_grows_def)
  then show ?thesis
    using g assms(6) log_entry_nth [OF wf(1), of i] log_entry_nth [OF wf(2), of i]
    by (simp add: last_log_index_end wf log_grows_def log_at_def)
qed

theorem leader_append_only_witness:
  "node_wf ex_writer \<and> r_state (snd (raft_step (Propose [9]) ex_writer)) = Leader
     \<and> length (r_log (snd (raft_step (Propose [9]) ex_writer))) = 2
     \<and> log_entry (snd (raft_step (Propose [9]) ex_writer)) 1 = log_entry ex_writer 1"
proof -
  let ?x = "raft_step (Propose [9]) ex_writer"
  have f: "r_state ex_writer = Leader" "last_log_index ex_writer = 1"
    by (simp_all add: ex_writer_def ex_leader_def ex_candidate_def ex_node_def last_log_index_def ex_defs)
  have ev: "event_ok (Propose [9]) ex_writer"
    by (simp add: event_ok_def ex_writer_def ex_leader_def ex_candidate_def ex_node_def log_end_def two64_def)
  have x: "r_state (snd ?x) = Leader" "r_log_offset (snd ?x) = 0" "length (r_log (snd ?x)) = 2"
    by (simp_all add: propose_def Let_def ex_writer_def ex_leader_def ex_candidate_def ex_node_def
        ex_io broadcast_heartbeat_eq ex_entry_def last_log_index_def ex_defs)
  show ?thesis
    using leader_append_only [OF ex_writer_wf ev prod.collapse [symmetric] f(1) x(1), of 1] x f ex_writer_wf
    by simp
qed

end
