(* ===== verification/Raft_Service.thy ===== *)
theory Raft_Service
  imports Raft_Props
begin

text \<open>
  The properties of the services a node offers to the runtime: applying, reading,
  snapshots; and of its refusals: bad configurations, failed storage, stale and misaddressed
  messages.
\<close>

subsection \<open>Applying\<close>

text \<open>
  C11. Entries are handed to the state machine strictly in order: the entry offered is the
  one after the last applied, it is committed, and the only acknowledgement that changes
  anything is the one for exactly that entry. When everything committed is applied, nothing
  is offered.
\<close>

theorem apply_in_order:
  assumes "node_wf s"
  shows "(r_last_applied s = r_commit_index s \<longrightarrow> next_entry_to_apply s = None)
     \<and> (r_last_applied s < r_commit_index s \<longrightarrow>
          (\<exists>e. next_entry_to_apply s = Some e \<and> entry_index e = r_last_applied s + 1
               \<and> advance (entry_index e) s = s\<lparr>r_last_applied := r_last_applied s + 1\<rparr>))
     \<and> (\<forall>i. i \<noteq> r_last_applied s + 1 \<longrightarrow> advance i s = s)
     \<and> r_last_applied (advance i s) \<le> r_commit_index s"
proof -
  have lw: "log_wf s" using assms by (simp add: node_wf_def raft_wf_def)
  then have inc: "u64_inc (r_last_applied s) = r_last_applied s + 1"
    by (simp add: log_wf_def wrap_simps)
  have "entry_index (log_entry s (r_last_applied s + 1)) = r_last_applied s + 1"
    if "r_last_applied s < r_commit_index s"
    using that lw by (intro log_entry_index) (auto simp: log_wf_def)
  then show ?thesis
    using lw by (auto simp: next_entry_to_apply_def advance_def inc log_wf_def)
qed

text \<open>A leader whose single entry has just been committed.\<close>

definition ex_committed :: raft where
  "ex_committed = ex_writer\<lparr>r_commit_index := 1,
     r_progress := [(2, \<lparr>p_match = 1, p_next = 2\<rparr>), (3, \<lparr>p_match = 0, p_next = 1\<rparr>)]\<rparr>"

lemma ex_committed_wf: "node_wf ex_committed"
  by (simp add: node_wf_def out_wf_def wf_defs ex_committed_def ex_writer_def ex_leader_def
      ex_candidate_def ex_node_def ex_entry_def umap_at_def default_progress_def umap_ok_def
      two64_def split: option.split)

theorem apply_in_order_witness:
  "node_wf ex_committed \<and> r_last_applied ex_committed < r_commit_index ex_committed
     \<and> (\<exists>e. next_entry_to_apply ex_committed = Some e \<and> entry_index e = 1)"
proof -
  have "r_last_applied ex_committed = 0" "r_commit_index ex_committed = 1"
    by (simp_all add: ex_committed_def ex_writer_def ex_leader_def ex_candidate_def ex_node_def)
  then show ?thesis using apply_in_order [OF ex_committed_wf] ex_committed_wf by auto
qed

subsection \<open>Linearizable reads\<close>


definition ex_reading :: raft where
  "ex_reading = ex_committed\<lparr>r_last_applied := 1, r_read_index_pending := True,
     r_pending_read_index := 1, r_pending_read_context := 1, r_next_read_context := 2,
     r_read_index_acks := [(2, True)]\<rparr>"


text \<open>
  The acknowledgements of a read round come only from answers to that round: a response
  adds an acknowledgement only if it is a success, in the leader's term, and carries the
  context of the pending round; a new round starts with none.
\<close>

theorem read_acks_answer_the_round:
  assumes "map_of (r_read_index_acks (handle_append_entries_response msg s)) p = Some True"
    "map_of (r_read_index_acks s) p \<noteq> Some True"
  shows "p = m_from msg \<and> m_success msg \<and> m_term msg = r_term s \<and> r_state s = Leader
     \<and> r_read_index_pending s \<and> m_read_context msg = r_pending_read_context s
     \<and> m_read_context msg \<noteq> 0"
  using assms
  by (auto simp: handle_append_entries_response_eq Let_def record_success_def record_failure_def
      set_match_def send_def broadcast_heartbeat_eq persist_hard_state_eq umap_simps become_follower_def
      reset_randomized_election_timeout_def split: if_splits)


definition ex_round :: raft where
  "ex_round = ex_reading\<lparr>r_read_index_acks := []\<rparr>"

definition ex_read_ack :: message where
  "ex_read_ack = ex_ack\<lparr>m_read_context := 1\<rparr>"

theorem read_acks_answer_the_round_witness:
  "map_of (r_read_index_acks (handle_append_entries_response ex_read_ack ex_round)) 2 = Some True
     \<and> map_of (r_read_index_acks ex_round) 2 \<noteq> Some True
     \<and> m_read_context ex_read_ack = r_pending_read_context ex_round"
proof -
  have h: "map_of (r_read_index_acks (handle_append_entries_response ex_read_ack ex_round)) 2 = Some True"
    by (simp add: handle_append_entries_response_def misaddressed_def is_member_def ex_read_ack_def
        ex_ack_def ex_round_def ex_reading_def ex_committed_def ex_writer_def ex_leader_def
        ex_candidate_def ex_node_def set_match_def umap_put_def Let_def io_forms ex_defs)
  have n: "map_of (r_read_index_acks ex_round) 2 \<noteq> Some True" by (simp add: ex_round_def)
  from read_acks_answer_the_round [OF h n] h n show ?thesis by simp
qed

subsection \<open>Snapshots\<close>

text \<open>
  C13. A snapshot at an applied index beyond the current one replaces exactly the prefix it
  covers: the entries after it stay, the end of the log and the terms at every index from
  the snapshot on do not change, and term, vote and commit index are untouched. Any other
  index is ignored.
\<close>

theorem take_snapshot_compacts:
  assumes "node_wf s" "take_snapshot i state s = (Inr (), s')" "\<not> r_storage_failed s'"
  shows "if r_log_offset s < i \<and> i \<le> r_last_applied s
     then r_log s' = drop (i - r_log_offset s) (r_log s) \<and> r_log_offset s' = i
       \<and> r_last_snapshot_data s' = state \<and> last_log_index s' = last_log_index s
       \<and> (\<forall>j \<ge> i. term_at s' j = term_at s j) \<and> r_commit_index s' = r_commit_index s
       \<and> current_hard_state s' = current_hard_state s
     else s' = s"
proof (cases "r_log_offset s < i \<and> i \<le> r_last_applied s")
  case False
  then show ?thesis using assms(2) by (auto simp: take_snapshot_def)
next
  case True
  have lw: "log_wf s" "log_wf s'"
    using assms(1,2) take_snapshot_wf [OF assms(1), of i state] by (auto simp: node_wf_def raft_wf_def)
  have ef: "entries_from (Suc (r_log_offset s)) (r_log s)" "i \<le> r_log_offset s + length (r_log s)"
    using lw True by (auto simp: log_wf_alt log_end_def)
  have "compact_log i (r_log s) = drop (i - r_log_offset s) (r_log s)"
    using compact_log_eq [OF ef(1) _ ef(2)] True by simp
  then have f: "r_log s' = drop (i - r_log_offset s) (r_log s)" "r_log_offset s' = i"
    "r_log_offset_term s' = term_at s i" "r_last_snapshot_data s' = state"
    "r_commit_index s' = r_commit_index s" "current_hard_state s' = current_hard_state s"
    using True assms(2,3)
    by (auto simp: take_snapshot_def Let_def io_forms current_hard_state_def
        split: sum.splits bool.splits if_splits)
  then have le: "log_end s' = log_end s" using ef(2) True by (simp add: log_end_def)
  have "term_at s' j = term_at s j" if ij: "i \<le> j" for j
  proof -
    consider "j = i" | "i < j" "j \<le> log_end s" | "log_end s < j" using ij by linarith
    then show ?thesis
    proof cases
      case 1
      then show ?thesis using f True by (simp add: term_at_def)
    next
      case 2
      have "Suc (r_log_offset s) \<le> j" "j - Suc i + (i - r_log_offset s) = j - Suc (r_log_offset s)"
        using 2 True by auto
      then show ?thesis
        using term_at_entry [OF lw(1), of j] term_at_entry [OF lw(2), of j] 2 True f le ef(2)
        by (simp add: add.commute)
    next
      case 3
      then show ?thesis
        using True f le lw ef(2) by (auto simp: term_at_def last_log_index_end log_end_def)
    qed
  qed
  then show ?thesis using True f le lw by (simp add: last_log_index_end)
qed

theorem take_snapshot_compacts_witness:
  "node_wf ex_reading \<and> fst (take_snapshot 1 [5] ex_reading) = Inr ()
     \<and> r_log (snd (take_snapshot 1 [5] ex_reading)) = []
     \<and> last_log_index (snd (take_snapshot 1 [5] ex_reading)) = last_log_index ex_reading"
proof -
  have wf: "node_wf ex_reading"
    by (simp add: node_wf_def out_wf_def wf_defs ex_reading_def ex_committed_def ex_writer_def
        ex_leader_def ex_candidate_def ex_node_def ex_entry_def umap_at_def default_progress_def
        umap_ok_def two64_def split: option.split)
  have f: "r_log_offset ex_reading = 0" "r_last_applied ex_reading = 1" "length (r_log ex_reading) = 1"
    by (simp_all add: ex_reading_def ex_committed_def ex_writer_def ex_leader_def ex_candidate_def
        ex_node_def)
  let ?x = "take_snapshot 1 [5] ex_reading"
  have x: "fst ?x = Inr ()" "\<not> r_storage_failed (snd ?x)"
    by (simp_all add: take_snapshot_def Let_def wal_save_snapshot_def save_snapshot_def
        snap_is_empty_def ex_io ex_reading_def ex_committed_def ex_writer_def ex_leader_def
        ex_candidate_def ex_node_def)
  have "?x = (Inr (), snd ?x)" using x(1) by (metis prod.collapse)
  from take_snapshot_compacts [OF wf this x(2)] show ?thesis using f wf x by simp
qed



definition ex_install :: message where
  "ex_install = default_message\<lparr>m_type := MsgInstallSnapshot, m_from := 1, m_to := 2, m_term := 1,
     m_snapshot_index := 4, m_snapshot_term := 1, m_snapshot_data := [5]\<rparr>"


subsection \<open>Refusals\<close>

lemma failed_become_follower [simp]:
  "r_storage_failed s \<Longrightarrow> r_storage_failed (become_follower t l s)"
  by (simp add: become_follower_def Let_def persist_hard_state_eq reset_randomized_election_timeout_def)

lemma failed_prepare: "r_storage_failed s \<Longrightarrow> \<not> fst (prepare_for_leader_rpc msg s)"
  by (auto simp: prepare_for_leader_rpc_def Let_def)




text \<open>
  A message that is not addressed to this node by another member, or that carries an
  older term, has no effect: vote requests, AppendEntries and InstallSnapshot are answered
  with a refusal and every response is ignored, the state staying exactly as it was.
\<close>

theorem misaddressed_or_stale_ignored:
  assumes "misaddressed msg s \<or> m_term msg < r_term s"
  shows "(\<exists>r. handle_request_vote msg s = (r, s) \<and> \<not> m_vote_granted r)
     \<and> handle_request_vote_response msg s = s
     \<and> (\<exists>r. handle_pre_vote msg s = (r, s) \<and> \<not> m_vote_granted r)
     \<and> (\<exists>r. handle_append_entries msg s = (Inr r, s) \<and> \<not> m_success r)
     \<and> handle_append_entries_response msg s = s
     \<and> (\<exists>r. handle_install_snapshot msg s = (Inr r, s) \<and> \<not> m_success r)
     \<and> handle_install_snapshot_response msg s = s"
proof -
  have p: "prepare_for_leader_rpc msg s = (False, s)"
    using assms by (auto simp: prepare_for_leader_rpc_def Let_def)
  note defs = handle_request_vote_def handle_request_vote_response_def handle_pre_vote_def
    handle_append_entries_def handle_append_entries_response_eq handle_install_snapshot_def
    handle_install_snapshot_response_def p default_message_def
  show ?thesis
  proof (cases "misaddressed msg s")
    case True
    then show ?thesis by (simp add: defs Let_def)
  next
    case False
    then have "\<not> r_term s < m_term msg" "m_term msg \<le> r_term s" "m_term msg \<noteq> r_term s"
      "m_term msg < r_term s"
      using assms by auto
    then show ?thesis by (simp add: defs Let_def)
  qed
qed

theorem misaddressed_or_stale_ignored_witness:
  "m_term (ex_request_vote 2) < r_term ex_replaced
     \<and> (\<exists>r. handle_request_vote (ex_request_vote 2) ex_replaced = (r, ex_replaced) \<and> \<not> m_vote_granted r)"
proof -
  have "m_term (ex_request_vote 2) < r_term ex_replaced"
    by (simp add: ex_request_vote_def ex_replaced_def)
  then show ?thesis using misaddressed_or_stale_ignored [of "ex_request_vote 2" ex_replaced] by blast
qed

lemma term_of_propose [simp]: "r_term (snd (propose data s)) = r_term s"
  using propose_frame [of data s] by simp

lemma term_of_read_index [simp]: "r_term (snd (read_index s)) = r_term s"
  by (rule read_index_state_cases) (simp_all add: broadcast_heartbeat_eq finish_read_index_def)

lemma term_local: "\<forall>m. ev \<noteq> Receive m \<Longrightarrow> r_term (snd (raft_step ev s)) = r_term s"
  by (cases ev) (simp_all add: tick_def Let_def pre_campaign_def become_pre_candidate_def
      reset_randomized_election_timeout_def broadcast_heartbeat_eq finish_read_index_def advance_def
      take_snapshot_def io_forms split: sum.split bool.split)

lemma prepare_term:
  "r_term (snd (prepare_for_leader_rpc msg s)) =
     (if \<not> misaddressed msg s \<and> r_term s < m_term msg then m_term msg else r_term s)"
  by (auto simp: prepare_for_leader_rpc_def Let_def become_follower_state
      reset_randomized_election_timeout_def)

lemma term_of_rpc:
  "r_term (snd (handle_append_entries msg s)) = r_term (snd (prepare_for_leader_rpc msg s))"
  "r_term (snd (handle_install_snapshot msg s)) = r_term (snd (prepare_for_leader_rpc msg s))"
proof -
  obtain b s1 where p: "prepare_for_leader_rpc msg s = (b, s1)" by fastforce
  obtain r s2 where l:
    "append_entries_loop (u64_inc (m_prev_log_index msg)) (m_entries msg) s1 = (r, s2)" by fastforce
  have s2: "r_term s2 = r_term s1" using append_entries_loop_same_term [OF l] by simp
  have c: "r_term (snd (append_entries_commit msg resp u)) = r_term u" for resp u
    by (simp add: append_entries_commit_def Let_def io_forms)
  show "r_term (snd (handle_append_entries msg s)) = r_term (snd (prepare_for_leader_rpc msg s))"
    using s2 c by (auto simp: handle_append_entries_def Let_def p l io_forms case_prod_beta
        split: bool.split sum.split option.split)
  show "r_term (snd (handle_install_snapshot msg s)) = r_term (snd (prepare_for_leader_rpc msg s))"
    by (auto simp: handle_install_snapshot_def Let_def p io_forms
        split: bool.split sum.split option.split)
qed

lemma term_of_request_vote:
  "r_term (snd (handle_request_vote msg s)) =
     (if \<not> misaddressed msg s \<and> r_term s < m_term msg then m_term msg else r_term s)"
  by (auto simp: handle_request_vote_def Let_def io_forms become_follower_state
      reset_randomized_election_timeout_def)

lemma term_of_responses:
  "r_term (handle_request_vote_response msg s) =
     (if \<not> misaddressed msg s \<and> r_term s < m_term msg then m_term msg else r_term s)"
  "r_term (handle_append_entries_response msg s) =
     (if \<not> misaddressed msg s \<and> r_term s < m_term msg then m_term msg else r_term s)"
  "r_term (handle_install_snapshot_response msg s) =
     (if \<not> misaddressed msg s \<and> r_term s < m_term msg then m_term msg else r_term s)"
  by (simp_all add: handle_request_vote_response_def handle_append_entries_response_eq Let_def
      handle_install_snapshot_response_def become_follower_state broadcast_heartbeat_eq
      record_failure_def persist_hard_state_eq send_def)

lemma term_of_pre_vote_response:
  assumes "r_term (handle_pre_vote_response msg s) \<noteq> r_term s"
  shows "\<not> misaddressed msg s"
    and "r_term s < m_term msg \<and> r_term (handle_pre_vote_response msg s) = m_term msg
     \<or> r_state s = PreCandidate \<and> r_state (handle_pre_vote_response msg s) = Candidate
       \<and> r_term (handle_pre_vote_response msg s) = u64_inc (r_term s)
       \<and> r_voted_for (handle_pre_vote_response msg s) = r_id s
       \<and> length (r_peers s) div 2 < count_true (r_pre_votes (handle_pre_vote_response msg s))"
  using assms
  by (auto simp: handle_pre_vote_response_def Let_def become_follower_state campaign_def
      become_candidate_def persist_hard_state_eq reset_randomized_election_timeout_def split: if_splits)

lemma reply_term [simp]:
  "r_term (snd (reply_outcome x)) = r_term (snd x)" "r_term (snd (reply y)) = r_term (snd y)"
  by (auto simp: reply_outcome_def reply_def returns_def send_def split: prod.split sum.split)

text \<open>
  What can change a node's term: a message of another member with a higher term, which
  the node then adopts, or the pre-vote answer that completes a majority while the node is
  a pre-candidate, which moves it to the next term as a candidate for itself.
\<close>

theorem term_change_has_a_reason:
  assumes "raft_step ev s = (r, s')" "r_term s' \<noteq> r_term s"
  shows "\<exists>m. ev = Receive m \<and> \<not> misaddressed m s
     \<and> (r_term s < m_term m \<and> r_term s' = m_term m
        \<or> m_type m = MsgPreVoteResponse \<and> r_state s = PreCandidate \<and> r_state s' = Candidate
          \<and> r_term s' = u64_inc (r_term s) \<and> r_voted_for s' = r_id s
          \<and> length (r_peers s) div 2 < count_true (r_pre_votes s'))"
proof -
  obtain m where m: "ev = Receive m" using term_local [of ev s] assms by auto
  have s': "s' = snd (handle_raft_message m s)" using assms(1) m by simp
  show ?thesis
  proof (cases rule: handle_raft_message_cases [of m s])
    case pre_vote_response
    then have "s' = handle_pre_vote_response m s" using s' by simp
    then show ?thesis using term_of_pre_vote_response [of m s] assms(2) m pre_vote_response(1) by auto
  qed (use assms(2) m s' in \<open>auto simp: term_of_request_vote term_of_responses term_of_rpc
        prepare_term split: if_splits\<close>)
qed


theorem term_change_has_a_reason_witness:
  "raft_step (Receive ex_pre_grant) (ex_pre_candidate []) =
       (Inr (), ex_candidate [ex_request_vote 2, ex_request_vote 3])
     \<and> (\<exists>m. Receive ex_pre_grant = Receive m \<and> \<not> misaddressed m (ex_pre_candidate []))"
proof -
  have "r_term (ex_candidate [ex_request_vote 2, ex_request_vote 3]) \<noteq> r_term (ex_pre_candidate [])"
    by (simp add: ex_candidate_def ex_pre_candidate_def ex_node_def)
  from term_change_has_a_reason [OF ex_pre_vote_won this] ex_pre_vote_won show ?thesis by blast
qed

text \<open>
  The constructor accepts exactly the configurations of three distinct non-zero members
  that include the node, with non-zero timeouts, and gives a well-formed follower of term 0
  whose randomized election timeout is at least the configured one and below its double.
\<close>

theorem raft_new_accepts:
  "(case raft_new c rng of
      Inl x \<Rightarrow> x = Invalid_argument \<and>
        \<not> (cfg_id c \<noteq> 0 \<and> 0 < cfg_election_tick c \<and> 0 < cfg_heartbeat_tick c
           \<and> length (cfg_peers c) = 3 \<and> distinct (cfg_peers c)
           \<and> 0 \<notin> set (cfg_peers c) \<and> cfg_id c \<in> set (cfg_peers c))
    | Inr s \<Rightarrow>
        cfg_id c \<noteq> 0 \<and> 0 < cfg_election_tick c \<and> 0 < cfg_heartbeat_tick c
        \<and> length (cfg_peers c) = 3 \<and> distinct (cfg_peers c)
        \<and> 0 \<notin> set (cfg_peers c) \<and> cfg_id c \<in> set (cfg_peers c)
        \<and> node_wf s \<and> r_state s = Follower \<and> r_term s = 0
        \<and> (cfg_election_tick c < 2 ^ 31 \<longrightarrow>
             r_randomized_election_timeout s \<in> {cfg_election_tick c ..< 2 * cfg_election_tick c}))"
proof (cases "raft_new c rng")
  case (Inl x)
  then show ?thesis
    by (auto simp: raft_new_def distinct_card card_distinct split: if_splits)
next
  case (Inr s)
  have wf: "node_wf s" by (rule raft_new_node_wf [OF Inr])
  let ?t = "cfg_election_tick c"
  have ok: "cfg_id c \<noteq> 0 \<and> 0 < ?t \<and> 0 < cfg_heartbeat_tick c \<and> length (cfg_peers c) = 3
      \<and> distinct (cfg_peers c) \<and> 0 \<notin> set (cfg_peers c) \<and> cfg_id c \<in> set (cfg_peers c)"
    using Inr by (auto simp: raft_new_def card_distinct split: if_splits)
  have f: "r_state s = Follower" "r_term s = 0"
    "r_randomized_election_timeout s = u32_add ?t (shd rng mod ?t)"
    using Inr by (auto simp: raft_new_def reset_randomized_election_timeout_def split: if_splits)
  have "u32_add ?t (shd rng mod ?t) \<in> {?t ..< 2 * ?t}" if "?t < 2 ^ 31"
  proof -
    have "shd rng mod ?t < ?t" using ok by simp
    moreover from this have "?t + shd rng mod ?t < two32" using that by (simp add: two32_def)
    ultimately show ?thesis by (simp add: wrap_simps)
  qed
  with Inr ok wf f show ?thesis by simp
qed

theorem raft_new_accepts_witness:
  "cfg_election_tick (raft_config_for (ex_config 1)) < 2 ^ 31
     \<and> (\<exists>s. raft_new (raft_config_for (ex_config 1)) (sconst 3) = Inr s \<and> node_wf s
          \<and> r_randomized_election_timeout s \<in> {10 ..< 20})"
proof -
  let ?c = "raft_config_for (ex_config 1)"
  have t: "cfg_election_tick ?c = 10" by (simp add: raft_config_for_def)
  obtain s where s: "raft_new ?c (sconst 3) = Inr s"
    by (simp add: raft_new_def raft_config_for_def ex_config_def default_config_def)
  show ?thesis using raft_new_accepts [of ?c "sconst 3"] s t by simp
qed

text \<open>
  C17. Every command line the node accepts gives a Raft configuration the constructor
  accepts: the node is one of the members 1, 2, 3 and its two peers are the other two.
\<close>

theorem accepted_command_line_starts:
  assumes "parse_node_config argv = Inr nc"
  shows "nc_id nc \<in> {1, 2, 3} \<and> pa_id ` set (nc_peers nc) = {1, 2, 3} - {nc_id nc}
     \<and> (\<exists>s. raft_new (raft_config_for nc) rng = Inr s \<and> r_id s = nc_id nc)"
proof -
  obtain c where c: "check_node_config c = Inr nc"
    using assms by (auto simp: parse_node_config_def split: sum.splits)
  note m = check_node_config_members [OF c]
  have i: "nc_id nc \<noteq> 0" "nc_id nc \<in> {1, 2, 3}" using m(1,2) by auto
  have "\<exists>s. raft_new (raft_config_for nc) rng = Inr s \<and> r_id s = nc_id nc"
    using i by (auto simp: raft_new_def raft_config_for_def default_config_def
        reset_randomized_election_timeout_def)
  then show ?thesis using i(2) m(1,3) by simp
qed

theorem accepted_command_line_starts_witness:
  "parse_node_config [''node'', ''--id=1'', ''--raft=a:1'', ''--client=a:2'', ''--peer=2@b:1'',
       ''--data=d'', ''--peer=3@c:1'', ''--tick-ms=20''] =
     Inr (ex_config 1\<lparr>nc_raft_address := ''a:1'', nc_client_address := ''a:2'',
       nc_peers := [\<lparr>pa_id = 2, pa_address = ''b:1''\<rparr>, \<lparr>pa_id = 3, pa_address = ''c:1''\<rparr>],
       nc_data_directory := ''d'', nc_tick_milliseconds := 20\<rparr>)
   \<and> (\<exists>s. raft_new (raft_config_for (ex_config 1\<lparr>nc_raft_address := ''a:1'',
       nc_client_address := ''a:2'',
       nc_peers := [\<lparr>pa_id = 2, pa_address = ''b:1''\<rparr>, \<lparr>pa_id = 3, pa_address = ''c:1''\<rparr>],
       nc_data_directory := ''d'', nc_tick_milliseconds := 20\<rparr>)) (sconst 3) = Inr s \<and> r_id s = 1)"
proof -
  let ?nc = "ex_config 1\<lparr>nc_raft_address := ''a:1'', nc_client_address := ''a:2'',
       nc_peers := [\<lparr>pa_id = 2, pa_address = ''b:1''\<rparr>, \<lparr>pa_id = 3, pa_address = ''c:1''\<rparr>],
       nc_data_directory := ''d'', nc_tick_milliseconds := 20\<rparr>"
  have p: "parse_node_config [''node'', ''--id=1'', ''--raft=a:1'', ''--client=a:2'',
       ''--peer=2@b:1'', ''--data=d'', ''--peer=3@c:1'', ''--tick-ms=20''] = Inr ?nc"
    by (simp add: parse_node_config_def parse_option_def option_value_def parse_integer_def from_chars_def
        parse_peer_def is_digit_def digit_value_def decimal_def default_node_config_def
        two64_def two32_def check_node_config_def ex_config_def insert_commute)
  then show ?thesis
    using accepted_command_line_starts [OF p, of "sconst 3"] by (simp add: ex_config_def)
qed

end
