(* ===== verification/KV_Store.thy ===== *)
theory KV_Store
  imports Raft_Proto
begin

text \<open>
  The key-value state machine, \<^verbatim>\<open>src/server/kv_store.h\<close> and \<^verbatim>\<open>src/server/kv_store.cpp\<close>. The
  store is the association list of the \<^verbatim>\<open>unordered_map\<close>, in its iteration order; what a
  client can see of it is the finite map \<open>map_of\<close>. MessagePack is a parameter of the
  operations that pack or unpack.
\<close>

subsection \<open>Commands and the codec\<close>

definition CommandSet :: nat where "CommandSet = 0"
definition CommandDel :: nat where "CommandDel = 1"

text \<open>\<open>cmd_type\<close> is the \<^verbatim>\<open>uint8_t\<close> behind \<^verbatim>\<open>CommandType\<close>.\<close>

record command =
  cmd_type :: nat
  cmd_strs :: "string list"
  cmd_origin_node :: nat
  cmd_request_id :: nat

definition default_command :: command where
  "default_command =
     \<lparr>cmd_type = CommandSet, cmd_strs = [], cmd_origin_node = 0, cmd_request_id = 0\<rparr>"

text \<open>
  What the MessagePack library hands to the conversion of a command: the object in the
  place of the type, if the array has one, and the other fields, converted by the library.
\<close>

datatype msgpack_object = Positive_integer nat | Other_object

record raw_command =
  raw_type :: "msgpack_object option"
  raw_strs :: "string list"
  raw_origin_node :: nat
  raw_request_id :: nat

type_synonym store = "(string \<times> string) list"

record kv_codec =
  kc_pack_command :: "command \<Rightarrow> bytes"
  kc_unpack_command :: "bytes \<Rightarrow> exn + raw_command"
  kc_pack_store :: "store \<Rightarrow> bytes"
  kc_unpack_store :: "bytes \<Rightarrow> exn + store"

text \<open>The documented behaviour of the library on the values the node packs.\<close>

definition command_codec_ok :: "kv_codec \<Rightarrow> command \<Rightarrow> bool" where
  "command_codec_ok K c \<longleftrightarrow>
     kc_unpack_command K (kc_pack_command K c) =
       Inr \<lparr>raw_type = Some (Positive_integer (cmd_type c)), raw_strs = cmd_strs c,
            raw_origin_node = cmd_origin_node c, raw_request_id = cmd_request_id c\<rparr>"

definition store_codec_ok :: "kv_codec \<Rightarrow> store \<Rightarrow> bool" where
  "store_codec_ok K st \<longleftrightarrow>
     (case kc_unpack_store K (kc_pack_store K st) of
        Inl _ \<Rightarrow> False | Inr st' \<Rightarrow> map_of st' = map_of st)"

definition convert_command_type :: "msgpack_object \<Rightarrow> exn + nat" where
  "convert_command_type obj =
     (case obj of Positive_integer n \<Rightarrow> Inr (n mod 256) | Other_object \<Rightarrow> Inl Type_error)"

definition unpack_command :: "kv_codec \<Rightarrow> bytes \<Rightarrow> exn + command" where
  "unpack_command K data =
     (case kc_unpack_command K data of
        Inl x \<Rightarrow> Inl x
      | Inr r \<Rightarrow>
          (case (case raw_type r of None \<Rightarrow> Inr (cmd_type default_command)
                                  | Some obj \<Rightarrow> convert_command_type obj) of
             Inl x \<Rightarrow> Inl x
           | Inr ty \<Rightarrow> Inr \<lparr>cmd_type = ty, cmd_strs = raw_strs r,
                            cmd_origin_node = raw_origin_node r,
                            cmd_request_id = raw_request_id r\<rparr>))"

subsection \<open>Operations\<close>

definition kv_get :: "string \<Rightarrow> store \<Rightarrow> string option" where
  "kv_get key st = map_of st key"

definition kv_set :: "string \<Rightarrow> string \<Rightarrow> store \<Rightarrow> store" where
  "kv_set key value st = AList.update key value st"

definition kv_del :: "string \<Rightarrow> store \<Rightarrow> bool \<times> store" where
  "kv_del key st = (map_of st key \<noteq> None, AList.delete key st)"

record apply_result =
  ar_type :: nat
  ar_origin_node :: nat
  ar_request_id :: nat
  ar_affected :: nat
  ar_applied_index :: nat

fun kv_del_all :: "string list \<Rightarrow> nat \<Rightarrow> store \<Rightarrow> nat \<times> store" where
  "kv_del_all [] affected st = (affected, st)"
| "kv_del_all (key # keys) affected st =
     (case kv_del key st of (found, st') \<Rightarrow>
        kv_del_all keys (if found then u64_inc affected else affected) st')"

definition kv_apply :: "kv_codec \<Rightarrow> entry \<Rightarrow> store \<Rightarrow> (exn + apply_result) \<times> store" where
  "kv_apply K e st =
     (case unpack_command K (entry_data e) of
        Inl x \<Rightarrow> (Inl x, st)
      | Inr cmd \<Rightarrow>
          (let result = \<lparr>ar_type = cmd_type cmd, ar_origin_node = cmd_origin_node cmd,
                         ar_request_id = cmd_request_id cmd, ar_affected = 0,
                         ar_applied_index = entry_index e\<rparr>
           in if cmd_type cmd = CommandSet then
                if length (cmd_strs cmd) \<noteq> 2 then (Inl Invalid_argument, st)
                else (Inr (result\<lparr>ar_affected := 1\<rparr>),
                      kv_set (cmd_strs cmd ! 0) (cmd_strs cmd ! 1) st)
              else if cmd_type cmd = CommandDel then
                if cmd_strs cmd = [] then (Inl Invalid_argument, st)
                else (case kv_del_all (cmd_strs cmd) 0 st of
                        (n, st') \<Rightarrow> (Inr (result\<lparr>ar_affected := n\<rparr>), st'))
              else (Inl Invalid_argument, st)))"

definition serialize :: "kv_codec \<Rightarrow> store \<Rightarrow> bytes" where
  "serialize K st = kc_pack_store K st"

definition deserialize :: "kv_codec \<Rightarrow> bytes \<Rightarrow> store \<Rightarrow> (exn + unit) \<times> store" where
  "deserialize K data st =
     (case kc_unpack_store K data of
        Inl x \<Rightarrow> (Inl x, st) | Inr restored \<Rightarrow> (Inr (), restored))"

subsection \<open>The contract\<close>

text \<open>What the commands mean, on finite maps.\<close>

datatype kv_op = Put string string | Remove "string set"

fun kv_effect :: "kv_op \<Rightarrow> (string \<rightharpoonup> string) \<Rightarrow> (string \<rightharpoonup> string)" where
  "kv_effect (Put k v) m = m(k \<mapsto> v)"
| "kv_effect (Remove ks) m = m |` (- ks)"

fun kv_affected :: "kv_op \<Rightarrow> (string \<rightharpoonup> string) \<Rightarrow> nat" where
  "kv_affected (Put k v) m = 1"
| "kv_affected (Remove ks) m = card (ks \<inter> dom m)"

definition meaning :: "command \<Rightarrow> kv_op option" where
  "meaning c =
     (if cmd_type c = CommandSet then
        (case cmd_strs c of [k, v] \<Rightarrow> Some (Put k v) | _ \<Rightarrow> None)
      else if cmd_type c = CommandDel \<and> cmd_strs c \<noteq> [] then Some (Remove (set (cmd_strs c)))
      else None)"

lemma command_types [simp]: "CommandSet \<noteq> CommandDel" "CommandDel \<noteq> CommandSet"
  by (simp_all add: CommandSet_def CommandDel_def)

lemma kv_del_view [simp]:
  "fst (kv_del k st) = (map_of st k \<noteq> None)"
  "map_of (snd (kv_del k st)) = (map_of st)(k := None)"
  by (auto simp: kv_del_def delete_conv fun_eq_iff)

lemma kv_set_view [simp]: "map_of (kv_set k v st) = (map_of st)(k \<mapsto> v)"
  by (simp add: kv_set_def update_conv')

lemma kv_del_all_view:
  assumes "n + length ks < two64"
  shows "fst (kv_del_all ks n st) = n + card (set ks \<inter> dom (map_of st))
     \<and> map_of (snd (kv_del_all ks n st)) = map_of st |` (- set ks)"
  using assms
proof (induction ks arbitrary: n st)
  case Nil
  then show ?case by (simp add: restrict_map_def fun_eq_iff)
next
  case (Cons k ks)
  let ?n = "if map_of st k = None then n else u64_inc n" and ?st = "snd (kv_del k st)"
  have n: "?n = (if map_of st k = None then n else Suc n)" using Cons.prems by (simp add: wrap_simps)
  have len: "?n + length ks < two64" unfolding n using Cons.prems by simp
  have step: "kv_del_all (k # ks) n st = kv_del_all ks ?n ?st" by (simp add: kv_del_def)
  have d: "dom (map_of ?st) = dom (map_of st) - {k}" by auto
  have "card (set (k # ks) \<inter> dom (map_of st)) =
      card (set ks \<inter> (dom (map_of st) - {k})) + (if map_of st k = None then 0 else 1)"
  proof (cases "map_of st k")
    case None
    then have "set (k # ks) \<inter> dom (map_of st) = set ks \<inter> (dom (map_of st) - {k})" by auto
    with None show ?thesis by simp
  next
    case (Some v)
    then have "set (k # ks) \<inter> dom (map_of st) = insert k (set ks \<inter> (dom (map_of st) - {k}))" by auto
    with Some show ?thesis by simp
  qed
  moreover have "fst (kv_del_all ks ?n ?st) = ?n + card (set ks \<inter> dom (map_of ?st))"
    "map_of (snd (kv_del_all ks ?n ?st)) = map_of ?st |` (- set ks)"
    using Cons.IH [OF len, of ?st] by (rule conjunct1, rule conjunct2)
  moreover have "map_of ?st |` (- set ks) = map_of st |` (- set (k # ks))"
    by (auto simp: restrict_map_def fun_eq_iff)
  ultimately show ?case unfolding step d n by (simp split: if_splits)
qed

lemma kv_apply_meaning:
  assumes "unpack_command K (entry_data e) = Inr c" "length (cmd_strs c) < two64"
  shows "kv_apply K e st =
     (case meaning c of
        None \<Rightarrow> (Inl Invalid_argument, st)
      | Some op \<Rightarrow>
          (Inr \<lparr>ar_type = cmd_type c, ar_origin_node = cmd_origin_node c,
                ar_request_id = cmd_request_id c, ar_affected = kv_affected op (map_of st),
                ar_applied_index = entry_index e\<rparr>, snd (kv_apply K e st)))
     \<and> (\<forall>op. meaning c = Some op \<longrightarrow> map_of (snd (kv_apply K e st)) = kv_effect op (map_of st))"
proof (cases "cmd_type c = CommandSet")
  case True
  then show ?thesis
    using assms by (auto simp: kv_apply_def meaning_def Let_def split: list.split)
next
  case False
  then show ?thesis
    using assms kv_del_all_view [of 0 "cmd_strs c" st]
    by (auto simp: kv_apply_def meaning_def Let_def split: prod.split)
qed

subsection \<open>A codec to run the model with\<close>

text \<open>Length-prefixed strings; enough to evaluate the operations on short commands.\<close>

fun ex_pack_strings :: "string list \<Rightarrow> bytes" where
  "ex_pack_strings [] = []"
| "ex_pack_strings (s # ss) =
     of_nat (length s) # map (\<lambda>c. of_nat (of_char c)) s @ ex_pack_strings ss"

fun ex_unpack_strings :: "bytes \<Rightarrow> string list" where
  "ex_unpack_strings [] = []"
| "ex_unpack_strings (n # bs) =
     map (\<lambda>b. char_of (unat b)) (take (unat n) bs) # ex_unpack_strings (drop (unat n) bs)"

fun ex_pairs :: "string list \<Rightarrow> store" where
  "ex_pairs (k # v # kvs) = (k, v) # ex_pairs kvs"
| "ex_pairs _ = []"

definition ex_codec :: kv_codec where
  "ex_codec =
     \<lparr>kc_pack_command = (\<lambda>c. of_nat (cmd_type c) # of_nat (cmd_origin_node c)
          # of_nat (cmd_request_id c) # ex_pack_strings (cmd_strs c)),
      kc_unpack_command = (\<lambda>bs. case bs of
          ty # origin # request # rest \<Rightarrow>
            Inr \<lparr>raw_type = Some (Positive_integer (unat ty)), raw_strs = ex_unpack_strings rest,
                 raw_origin_node = unat origin, raw_request_id = unat request\<rparr>
        | _ \<Rightarrow> Inl Runtime_error),
      kc_pack_store = (\<lambda>st. ex_pack_strings (concat (map (\<lambda>(k, v). [k, v]) st))),
      kc_unpack_store = (\<lambda>bs. Inr (ex_pairs (ex_unpack_strings bs)))\<rparr>"

definition ex_set :: entry where
  "ex_set = default_entry\<lparr>entry_term := 1, entry_index := 1,
     entry_data := kc_pack_command ex_codec
       \<lparr>cmd_type = CommandSet, cmd_strs = [''a'', ''b''], cmd_origin_node = 2, cmd_request_id = 7\<rparr>\<rparr>"

definition ex_del :: entry where
  "ex_del = default_entry\<lparr>entry_term := 1, entry_index := 2,
     entry_data := kc_pack_command ex_codec
       \<lparr>cmd_type = CommandDel, cmd_strs = [''a'', ''z'', ''a''], cmd_origin_node = 2,
        cmd_request_id = 8\<rparr>\<rparr>"

lemmas ex_kv_defs =
  ex_codec_def ex_set_def ex_del_def unpack_command_def convert_command_type_def
  CommandSet_def CommandDel_def default_entry_def EntryNormal_def two64_def char_of_def bit_0

lemma ex_unpack_del:
  "unpack_command ex_codec (entry_data ex_del) =
     Inr \<lparr>cmd_type = CommandDel, cmd_strs = [''a'', ''z'', ''a''], cmd_origin_node = 2,
          cmd_request_id = 8\<rparr>"
  by (simp add: ex_kv_defs)

lemma ex_apply_set: "kv_apply ex_codec ex_set [] =
    (Inr \<lparr>ar_type = CommandSet, ar_origin_node = 2, ar_request_id = 7, ar_affected = 1,
      ar_applied_index = 1\<rparr>, [(''a'', ''b'')])"
  by (simp add: kv_apply_def kv_set_def ex_kv_defs)

lemma ex_apply_del: "kv_apply ex_codec ex_del [(''a'', ''b'')] =
    (Inr \<lparr>ar_type = CommandDel, ar_origin_node = 2, ar_request_id = 8, ar_affected = 1,
      ar_applied_index = 2\<rparr>, [])"
proof -
  have "entry_index ex_del = 2" by (simp add: ex_del_def)
  then show ?thesis
    by (simp add: kv_apply_def ex_unpack_del kv_del_def u64_inc_def u64_add_def u64_def two64_def)
qed

text \<open>
  C30. Applying a committed entry implements the abstract commands: an entry that does not
  decode, has the wrong number of arguments or an unknown type throws and leaves the store
  as it was; SET binds the key; DEL removes exactly the named keys and reports how many of
  them, counted once, were present.
\<close>

theorem kv_apply_refines:
  assumes "\<forall>c. unpack_command K (entry_data e) = Inr c \<longrightarrow> length (cmd_strs c) < two64"
  shows "(case kv_apply K e st of
       (Inl x, st') \<Rightarrow> st' = st \<and>
         (unpack_command K (entry_data e) = Inl x
          \<or> (\<exists>c. unpack_command K (entry_data e) = Inr c \<and> meaning c = None
               \<and> x = Invalid_argument))
     | (Inr r, st') \<Rightarrow> (\<exists>c op. unpack_command K (entry_data e) = Inr c \<and> meaning c = Some op
         \<and> map_of st' = kv_effect op (map_of st)
         \<and> r = \<lparr>ar_type = cmd_type c, ar_origin_node = cmd_origin_node c,
               ar_request_id = cmd_request_id c, ar_affected = kv_affected op (map_of st),
               ar_applied_index = entry_index e\<rparr>))"
proof (cases "unpack_command K (entry_data e)")
  case (Inl x)
  then show ?thesis by (simp add: kv_apply_def)
next
  case (Inr c)
  have len: "length (cmd_strs c) < two64" using assms Inr by simp
  show ?thesis
  proof (cases "meaning c")
    case None
    then show ?thesis using kv_apply_meaning [OF Inr len, of st] Inr by simp
  next
    case (Some op)
    then obtain r st' where st': "kv_apply K e st = (Inr r, st')"
        "r = \<lparr>ar_type = cmd_type c, ar_origin_node = cmd_origin_node c,
           ar_request_id = cmd_request_id c, ar_affected = kv_affected op (map_of st),
           ar_applied_index = entry_index e\<rparr>" "map_of st' = kv_effect op (map_of st)"
      using kv_apply_meaning [OF Inr len, of st] by (cases "kv_apply K e st") auto
    show ?thesis unfolding st'(1) using st'(2,3) Inr Some by auto
  qed
qed

theorem kv_apply_refines_witness:
  "unpack_command ex_codec (entry_data ex_del) =
       Inr \<lparr>cmd_type = CommandDel, cmd_strs = [''a'', ''z'', ''a''], cmd_origin_node = 2,
            cmd_request_id = 8\<rparr>
   \<and> (\<exists>r st'. kv_apply ex_codec ex_del [(''a'', ''b'')] = (Inr r, st') \<and> map_of st' ''a'' = None
        \<and> ar_affected r = 1)"
proof -
  let ?x = "kv_apply ex_codec ex_del [(''a'', ''b'')]"
  have m: "meaning \<lparr>cmd_type = CommandDel, cmd_strs = [''a'', ''z'', ''a''],
      cmd_origin_node = 2, cmd_request_id = 8\<rparr> = Some (Remove {''a'', ''z''})"
    by (auto simp: meaning_def)
  have d: "{''a'', ''z''} \<inter> dom (map_of [(''a'', ''b'')]) = {''a''}" by auto
  have "\<forall>c. unpack_command ex_codec (entry_data ex_del) = Inr c \<longrightarrow> length (cmd_strs c) < two64"
    by (simp add: ex_unpack_del two64_def)
  from kv_apply_refines [OF this, of "[(''a'', ''b'')]"] ex_unpack_del show ?thesis
    by (auto simp: m d split: prod.splits sum.splits)
qed

subsection \<open>Replay\<close>

text \<open>Applying entries in order; the first exception ends it.\<close>

fun kv_replay :: "kv_codec \<Rightarrow> entry list \<Rightarrow> store \<Rightarrow> exn + store" where
  "kv_replay K [] st = Inr st"
| "kv_replay K (e # es) st =
     (case kv_apply K e st of (Inl x, _) \<Rightarrow> Inl x | (Inr _, st') \<Rightarrow> kv_replay K es st')"

text \<open>
  A deterministic state machine seen through \<open>view\<close>: the outcome of a step depends on the
  view only. Then so does the outcome of a replay, and a replay may be cut anywhere and
  continued from any state with the same view, such as one restored from a snapshot.
\<close>

locale state_machine =
  fixes step :: "'e \<Rightarrow> 's \<Rightarrow> 'x + 's" and replay :: "'e list \<Rightarrow> 's \<Rightarrow> 'x + 's"
    and view :: "'s \<Rightarrow> 'v"
  assumes step_view: "view s = view t \<Longrightarrow>
      rel_sum (=) (\<lambda>s' t'. view s' = view t') (step e s) (step e t)"
    and replay_Nil: "replay [] s = Inr s"
    and replay_Cons: "replay (e # es) s = (case step e s of Inl x \<Rightarrow> Inl x | Inr s' \<Rightarrow> replay es s')"
begin

lemma replay_append:
  "replay (es @ fs) s = (case replay es s of Inl x \<Rightarrow> Inl x | Inr s' \<Rightarrow> replay fs s')"
  by (induction es arbitrary: s) (auto simp: replay_Nil replay_Cons split: sum.split)

lemma replay_view:
  "view s = view t \<Longrightarrow> rel_sum (=) (\<lambda>s' t'. view s' = view t') (replay es s) (replay es t)"
proof (induction es arbitrary: s t)
  case Nil
  then show ?case by (simp add: replay_Nil)
next
  case (Cons e es)
  from step_view [OF Cons.prems, of e] show ?case
    using Cons.IH by (auto simp: replay_Cons rel_sum_simps elim!: rel_sum.cases)
qed

lemma replay_from_snapshot:
  assumes "replay es s = Inr u" "view t = view u"
  shows "rel_sum (=) (\<lambda>s' t'. view s' = view t') (replay (es @ fs) s) (replay fs t)"
  using replay_view [of u t fs] assms by (simp add: replay_append)

end

definition kv_step :: "kv_codec \<Rightarrow> entry \<Rightarrow> store \<Rightarrow> exn + store" where
  "kv_step K e st = (case kv_apply K e st of (Inl x, _) \<Rightarrow> Inl x | (Inr _, st') \<Rightarrow> Inr st')"

lemma kv_del_all_cong:
  "map_of st = map_of st' \<Longrightarrow>
     fst (kv_del_all ks n st) = fst (kv_del_all ks n st')
     \<and> map_of (snd (kv_del_all ks n st)) = map_of (snd (kv_del_all ks n st'))"
proof (induction ks arbitrary: n st st')
  case Nil
  then show ?case by simp
next
  case (Cons k ks)
  have "map_of (AList.delete k st) = map_of (AList.delete k st')"
    using Cons.prems by (simp add: delete_conv')
  from Cons.IH [OF this] Cons.prems show ?case by (simp add: kv_del_def)
qed

lemma kv_step_cong:
  assumes "map_of st = map_of st'"
  shows "rel_sum (=) (\<lambda>a b. map_of a = map_of b) (kv_step K e st) (kv_step K e st')"
  using assms kv_del_all_cong [OF assms]
  by (auto simp: kv_step_def kv_apply_def Let_def split_beta rel_sum_simps split: sum.split)

interpretation kv: state_machine "kv_step K" "kv_replay K" map_of for K
  by unfold_locales (simp_all add: kv_step_cong, simp add: kv_step_def split: prod.split sum.split)

text \<open>
  C31. A snapshot stands for the entries it covers: replaying a log from the beginning, and
  restoring the snapshot taken after a prefix into any store and replaying the rest, give
  the same outcome, and on success the same bindings.
\<close>

theorem snapshot_replaces_prefix:
  assumes "kv_replay K es [] = Inr st" "store_codec_ok K st"
  shows "\<exists>st'. deserialize K (serialize K st) old = (Inr (), st') \<and>
     (case kv_replay K fs st' of
        Inl x \<Rightarrow> kv_replay K (es @ fs) [] = Inl x
      | Inr a \<Rightarrow> \<exists>b. kv_replay K (es @ fs) [] = Inr b \<and> map_of a = map_of b)"
proof -
  obtain st' where d: "deserialize K (serialize K st) old = (Inr (), st')" "map_of st' = map_of st"
    using assms(2) by (auto simp: store_codec_ok_def deserialize_def serialize_def split: sum.splits)
  have "rel_sum (=) (\<lambda>a b. map_of a = map_of b) (kv_replay K (es @ fs) []) (kv_replay K fs st')"
    by (rule kv.replay_from_snapshot [OF assms(1) d(2)])
  with d(1) show ?thesis by (auto elim!: rel_sum.cases)
qed

theorem snapshot_replaces_prefix_witness:
  "kv_replay ex_codec [ex_set] [] = Inr [(''a'', ''b'')]
   \<and> (\<exists>st' a. deserialize ex_codec (serialize ex_codec [(''a'', ''b'')]) [(''q'', ''r'')] = (Inr (), st')
        \<and> kv_replay ex_codec [ex_del] st' = Inr a
        \<and> kv_replay ex_codec ([ex_set] @ [ex_del]) [] = Inr []
        \<and> map_of a = Map.empty)"
proof -
  have r: "kv_replay ex_codec [ex_set] [] = Inr [(''a'', ''b'')]" by (simp add: ex_apply_set)
  have k: "store_codec_ok ex_codec [(''a'', ''b'')]"
    by (simp add: store_codec_ok_def ex_codec_def char_of_def bit_0)
  have b: "kv_replay ex_codec ([ex_set] @ [ex_del]) [] = Inr []"
    by (simp add: ex_apply_set ex_apply_del)
  obtain st' where st': "deserialize ex_codec (serialize ex_codec [(''a'', ''b'')]) [(''q'', ''r'')]
      = (Inr (), st')" and c: "case kv_replay ex_codec [ex_del] st' of
        Inl x \<Rightarrow> kv_replay ex_codec ([ex_set] @ [ex_del]) [] = Inl x
      | Inr a \<Rightarrow> \<exists>b. kv_replay ex_codec ([ex_set] @ [ex_del]) [] = Inr b \<and> map_of a = map_of b"
    using snapshot_replaces_prefix [OF r k, of "[(''q'', ''r'')]" "[ex_del]"] by blast
  from c obtain a where "kv_replay ex_codec [ex_del] st' = Inr a" "map_of a = Map.empty"
    unfolding b by (cases "kv_replay ex_codec [ex_del] st'") simp_all
  with st' r b show ?thesis by blast
qed

end
