(* ===== verification/Byte_Words.thy ===== *)
theory Byte_Words
  imports Prelude
begin

text \<open>
  Fixed-width integers as bytes. \<open>byte_at\<close> is the cast of a shifted 32-bit word to a byte,
  \<open>from_byte\<close> the widening cast followed by a shift; the two headers of the program are
  built from them in opposite byte orders.
\<close>

unbundle bit_operations_syntax

definition byte_at :: "nat \<Rightarrow> 32 word \<Rightarrow> byte" where
  "byte_at k w = ucast (drop_bit (8 * k) w)"

definition from_byte :: "nat \<Rightarrow> byte \<Rightarrow> 32 word" where
  "from_byte k b = push_bit (8 * k) (ucast b)"

lemma bit_byte_at [bit_simps]: "bit (byte_at k w) n \<longleftrightarrow> n < 8 \<and> bit w (8 * k + n)"
  by (auto simp: byte_at_def bit_simps)

lemma bit_from_byte [bit_simps]:
  "bit (from_byte k b) n \<longleftrightarrow> n < 32 \<and> 8 * k \<le> n \<and> n < 8 * k + 8 \<and> bit b (n - 8 * k)"
  by (auto simp: from_byte_def bit_simps dest: bit_imp_le_length)

lemma bytes_of_word:
  "from_byte 3 (byte_at 3 w) OR from_byte 2 (byte_at 2 w) OR from_byte (Suc 0) (byte_at (Suc 0) w)
     OR from_byte 0 (byte_at 0 w) = w"
proof (rule bit_word_eqI)
  fix n
  assume "n < LENGTH(32)"
  then consider "n < 8" | "8 \<le> n" "n < 16" | "16 \<le> n" "n < 24" | "24 \<le> n" "n < 32" by fastforce
  then show "bit (from_byte 3 (byte_at 3 w) OR from_byte 2 (byte_at 2 w) OR from_byte (Suc 0) (byte_at (Suc 0) w)
     OR from_byte 0 (byte_at 0 w)) n = bit w n"
    by cases (auto simp: bit_simps)
qed

lemma word_of_bytes:
  "byte_at 0 (from_byte 3 b3 OR from_byte 2 b2 OR from_byte (Suc 0) b1 OR from_byte 0 b0) = b0"
  "byte_at (Suc 0) (from_byte 3 b3 OR from_byte 2 b2 OR from_byte (Suc 0) b1 OR from_byte 0 b0) = b1"
  "byte_at 2 (from_byte 3 b3 OR from_byte 2 b2 OR from_byte (Suc 0) b1 OR from_byte 0 b0) = b2"
  "byte_at 3 (from_byte 3 b3 OR from_byte 2 b2 OR from_byte (Suc 0) b1 OR from_byte 0 b0) = b3"
  by (rule bit_word_eqI; auto simp: bit_simps)+

text \<open>A word below \<open>2 ^ 24\<close> has a zero top byte.\<close>

lemma top_byte_zero: "unat w < 2 ^ 24 \<Longrightarrow> byte_at 3 (w :: 32 word) = 0"
proof -
  assume "unat w < 2 ^ 24"
  then have "unat (drop_bit 24 w) = 0" by (simp add: drop_bit_eq_div unat_div)
  then show "byte_at 3 w = 0" by (simp add: byte_at_def unat_eq_0)
qed

end
