(* ===== verification/Byte_Buffer.thy ===== *)
theory Byte_Buffer
  imports Prelude
begin

text \<open>
  The bounded byte accumulator of \<^verbatim>\<open>src/common/bytebuffer.h\<close> and \<^verbatim>\<open>bytebuffer.cpp\<close>, and the
  contract it gives its client: a bounded queue of bytes.
\<close>

subsection \<open>The buffer\<close>

record byte_buffer =
  bb_bytes :: bytes
  bb_read_offset :: nat
  bb_max_size :: nat

definition kDefaultLimit :: nat where
  "kDefaultLimit = 64 * 1024 * 1024 + 5"

definition buffer_new :: "nat \<Rightarrow> exn + byte_buffer" where
  "buffer_new max_size =
     (if max_size = 0 then Inl Invalid_argument
      else Inr \<lparr>bb_bytes = [], bb_read_offset = 0, bb_max_size = max_size\<rparr>)"

definition readable_bytes :: "byte_buffer \<Rightarrow> nat" where
  "readable_bytes b = u64_sub (length (bb_bytes b)) (bb_read_offset b)"

definition buffer_empty :: "byte_buffer \<Rightarrow> bool" where
  "buffer_empty b \<longleftrightarrow> readable_bytes b = 0"

definition buffer_compact :: "byte_buffer \<Rightarrow> byte_buffer" where
  "buffer_compact b =
     (if bb_read_offset b = 0 then b
      else b\<lparr>bb_bytes := drop (bb_read_offset b) (bb_bytes b), bb_read_offset := 0\<rparr>)"

text \<open>The range to append is a pointer, \<open>None\<close> when null, and a size.\<close>

definition buffer_append :: "bytes option \<Rightarrow> nat \<Rightarrow> byte_buffer \<Rightarrow> exn + byte_buffer" where
  "buffer_append source count b =
     (if count = 0 then Inr b
      else case source of
             None \<Rightarrow> Inl Invalid_argument
           | Some bs \<Rightarrow>
               if count > u64_sub (bb_max_size b) (readable_bytes b) then Inl Length_error
               else let c = buffer_compact b
                    in Inr (c\<lparr>bb_bytes := bb_bytes c @ take count bs\<rparr>))"

definition buffer_clear :: "byte_buffer \<Rightarrow> byte_buffer" where
  "buffer_clear b = b\<lparr>bb_bytes := [], bb_read_offset := 0\<rparr>"

definition buffer_consume :: "nat \<Rightarrow> byte_buffer \<Rightarrow> exn + byte_buffer" where
  "buffer_consume count b =
     (if count > readable_bytes b then Inl Out_of_range
      else let c = b\<lparr>bb_read_offset := u64_add (bb_read_offset b) count\<rparr>
           in Inr (if bb_read_offset c = length (bb_bytes c) then buffer_clear c else c))"

text \<open>\<^verbatim>\<open>data()\<close> with \<^verbatim>\<open>readable_bytes()\<close>: the bytes a reader sees; none behind a null pointer.\<close>

definition buffer_data :: "byte_buffer \<Rightarrow> bytes option" where
  "buffer_data b =
     (if buffer_empty b then None else Some (drop (bb_read_offset b) (bb_bytes b)))"

subsection \<open>The contract\<close>

text \<open>
  A queue of bytes with a limit: appending adds at the end or is refused when the limit
  would be exceeded, consuming removes from the front or is refused when there is less.
\<close>

locale byte_queue =
  fixes append :: "bytes \<Rightarrow> 'q \<Rightarrow> exn + 'q" and consume :: "nat \<Rightarrow> 'q \<Rightarrow> exn + 'q"
    and contents :: "'q \<Rightarrow> bytes" and limit :: "'q \<Rightarrow> nat" and invar :: "'q \<Rightarrow> bool"
  assumes append_ok: "invar q \<Longrightarrow> length (contents q) + length bs \<le> limit q \<Longrightarrow>
      \<exists>q'. append bs q = Inr q' \<and> invar q' \<and> contents q' = contents q @ bs \<and> limit q' = limit q"
    and append_full: "invar q \<Longrightarrow> length (contents q) + length bs > limit q \<Longrightarrow>
      append bs q = Inl Length_error"
    and consume_ok: "invar q \<Longrightarrow> n \<le> length (contents q) \<Longrightarrow>
      \<exists>q'. consume n q = Inr q' \<and> invar q' \<and> contents q' = drop n (contents q) \<and> limit q' = limit q"
    and consume_short: "invar q \<Longrightarrow> n > length (contents q) \<Longrightarrow> consume n q = Inl Out_of_range"
    and within: "invar q \<Longrightarrow> length (contents q) \<le> limit q"
begin

lemma append_two:
  assumes "invar q" "contents q = []" "length as + length bs \<le> limit q"
  shows "\<exists>q1 q2. append as q = Inr q1 \<and> append bs q1 = Inr q2 \<and> invar q2 \<and> contents q2 = as @ bs"
proof -
  obtain q1 where q1: "append as q = Inr q1" "invar q1" "contents q1 = as" "limit q1 = limit q"
    using append_ok [OF assms(1), of as] assms(2,3) by auto
  obtain q2 where "append bs q1 = Inr q2" "invar q2" "contents q2 = as @ bs"
    using append_ok [OF q1(2), of bs] q1(3,4) assms(3) by auto
  with q1(1) show ?thesis by blast
qed

text \<open>What goes in comes out: a piece appended to a queue is read back after what was there.\<close>

lemma append_then_consume:
  assumes "invar q" "append bs q = Inr q1"
  shows "\<exists>q2. consume (length (contents q)) q1 = Inr q2 \<and> contents q2 = bs"
proof -
  have "length (contents q) + length bs \<le> limit q"
    using append_full [OF assms(1), of bs] assms(2) by (cases "length (contents q) + length bs \<le> limit q") auto
  with append_ok [OF assms(1), of bs] assms(2)
  have q1: "invar q1" "contents q1 = contents q @ bs" by auto
  then show ?thesis using consume_ok [of q1 "length (contents q)"] by auto
qed

end

definition buffer_ok :: "byte_buffer \<Rightarrow> bool" where
  "buffer_ok b \<longleftrightarrow> bb_read_offset b \<le> length (bb_bytes b)
     \<and> (bb_read_offset b = length (bb_bytes b) \<longrightarrow> bb_bytes b = [])
     \<and> length (bb_bytes b) - bb_read_offset b \<le> bb_max_size b
     \<and> length (bb_bytes b) < two64 \<and> 0 < bb_max_size b \<and> bb_max_size b < two64"

definition buffer_contents :: "byte_buffer \<Rightarrow> bytes" where
  "buffer_contents b = drop (bb_read_offset b) (bb_bytes b)"

definition buffer_put :: "bytes \<Rightarrow> byte_buffer \<Rightarrow> exn + byte_buffer" where
  "buffer_put bs b = buffer_append (Some bs) (length bs) b"

lemma readable: "buffer_ok b \<Longrightarrow> readable_bytes b = length (buffer_contents b)"
  by (simp add: buffer_ok_def readable_bytes_def buffer_contents_def u64_sub_id)

lemma append_room:
  "buffer_ok b \<Longrightarrow> n > u64_sub (bb_max_size b) (readable_bytes b) \<longleftrightarrow>
     length (buffer_contents b) + n > bb_max_size b"
  by (auto simp: readable, auto simp: buffer_ok_def buffer_contents_def u64_sub_id)

interpretation buffer: byte_queue buffer_put buffer_consume buffer_contents bb_max_size buffer_ok
proof unfold_locales
  fix q :: byte_buffer and bs :: bytes
  assume q: "buffer_ok q" "length (buffer_contents q) + length bs \<le> bb_max_size q"
  have e: "buffer_put bs q = Inr (if bs = [] then q else
      (buffer_compact q)\<lparr>bb_bytes := buffer_contents q @ bs\<rparr>)"
    using append_room [OF q(1), of "length bs"] q(2)
    by (auto simp: buffer_put_def buffer_append_def Let_def buffer_compact_def buffer_contents_def)
  show "\<exists>q'. buffer_put bs q = Inr q' \<and> buffer_ok q' \<and> buffer_contents q' = buffer_contents q @ bs
      \<and> bb_max_size q' = bb_max_size q"
    unfolding e using q
    by (cases "bs = []") (auto simp: buffer_ok_def buffer_compact_def buffer_contents_def)
next
  fix q :: byte_buffer and bs :: bytes
  assume "buffer_ok q" "length (buffer_contents q) + length bs > bb_max_size q"
  then show "buffer_put bs q = Inl Length_error"
    using append_room [of q "length bs"]
    by (auto simp: buffer_put_def buffer_append_def buffer_ok_def buffer_contents_def)
next
  fix q n
  assume q: "buffer_ok q" "n \<le> length (buffer_contents q)"
  then show "\<exists>q'. buffer_consume n q = Inr q' \<and> buffer_ok q'
      \<and> buffer_contents q' = drop n (buffer_contents q) \<and> bb_max_size q' = bb_max_size q"
    by (auto simp: buffer_consume_def readable Let_def buffer_clear_def buffer_ok_def
        buffer_contents_def u64_add_id add.commute)
next
  fix q n
  assume "buffer_ok q" "n > length (buffer_contents q)"
  then show "buffer_consume n q = Inl Out_of_range"
    by (simp add: buffer_consume_def readable)
next
  fix q
  assume "buffer_ok q"
  then show "length (buffer_contents q) \<le> bb_max_size q"
    by (simp add: buffer_ok_def buffer_contents_def)
qed

lemma buffer_new_ok:
  "0 < n \<Longrightarrow> n < two64 \<Longrightarrow> \<exists>b. buffer_new n = Inr b \<and> buffer_ok b \<and> buffer_contents b = [] \<and> bb_max_size b = n"
  by (simp add: buffer_new_def buffer_ok_def buffer_contents_def)

lemma buffer_data_contents:
  "buffer_ok b \<Longrightarrow> buffer_data b = (if buffer_contents b = [] then None else Some (buffer_contents b))"
  by (auto simp: buffer_data_def buffer_empty_def readable) (simp add: buffer_contents_def)

text \<open>
  The buffer is a bounded queue of bytes: an append adds exactly its bytes behind the
  unread ones, or is refused and only then when the unread bytes would exceed the limit; a
  consume removes exactly the bytes asked for from the front, or is refused when there are
  fewer; consumed bytes are never seen again.
\<close>

theorem buffer_is_a_bounded_queue:
  assumes "buffer_ok b"
  shows "(case buffer_put bs b of
       Inl x \<Rightarrow> x = Length_error \<and> length (buffer_contents b) + length bs > bb_max_size b
     | Inr b' \<Rightarrow> buffer_ok b' \<and> buffer_contents b' = buffer_contents b @ bs
         \<and> length (buffer_contents b') \<le> bb_max_size b)
   \<and> (case buffer_consume n b of
       Inl x \<Rightarrow> x = Out_of_range \<and> n > length (buffer_contents b)
     | Inr b' \<Rightarrow> buffer_ok b' \<and> buffer_contents b' = drop n (buffer_contents b)
         \<and> n \<le> length (buffer_contents b))"
proof -
  have "case buffer_put bs b of
       Inl x \<Rightarrow> x = Length_error \<and> length (buffer_contents b) + length bs > bb_max_size b
     | Inr b' \<Rightarrow> buffer_ok b' \<and> buffer_contents b' = buffer_contents b @ bs
         \<and> length (buffer_contents b') \<le> bb_max_size b"
    using buffer.append_ok [OF assms, of bs] buffer.append_full [OF assms, of bs]
    by (cases "length (buffer_contents b) + length bs \<le> bb_max_size b") auto
  moreover have "case buffer_consume n b of
       Inl x \<Rightarrow> x = Out_of_range \<and> n > length (buffer_contents b)
     | Inr b' \<Rightarrow> buffer_ok b' \<and> buffer_contents b' = drop n (buffer_contents b)
         \<and> n \<le> length (buffer_contents b)"
    using buffer.consume_ok [OF assms, of n] buffer.consume_short [OF assms, of n]
    by (cases "n \<le> length (buffer_contents b)") auto
  ultimately show ?thesis by blast
qed

theorem buffer_is_a_bounded_queue_witness:
  "buffer_put [7, 8] \<lparr>bb_bytes = [4, 5, 6], bb_read_offset = 2, bb_max_size = 3\<rparr> =
       Inr \<lparr>bb_bytes = [6, 7, 8], bb_read_offset = 0, bb_max_size = 3\<rparr>
   \<and> buffer_put [7, 8, 9] \<lparr>bb_bytes = [4, 5, 6], bb_read_offset = 2, bb_max_size = 3\<rparr> = Inl Length_error
   \<and> buffer_consume 2 \<lparr>bb_bytes = [4, 5, 6], bb_read_offset = 2, bb_max_size = 3\<rparr> = Inl Out_of_range"
proof -
  let ?b = "\<lparr>bb_bytes = [4, 5, 6], bb_read_offset = 2, bb_max_size = 3\<rparr>"
  have b: "buffer_ok ?b" by (simp add: buffer_ok_def two64_def)
  have c: "buffer_contents ?b = [6]" by (simp add: buffer_contents_def)
  have "buffer_put [7, 8] ?b = Inr \<lparr>bb_bytes = [6, 7, 8], bb_read_offset = 0, bb_max_size = 3\<rparr>"
    by (simp add: buffer_put_def buffer_append_def buffer_compact_def readable_bytes_def u64_sub_def
        u64_def two64_def)
  with buffer_is_a_bounded_queue [OF b, of "[7, 8, 9]" 2] show ?thesis
    by (auto simp: c split: sum.splits)
qed

end
