(* ===== verification/Transport.thy ===== *)
theory Transport
  imports Byte_Words Byte_Buffer Raft_Proto
begin

text \<open>
  The framing of messages between nodes: the header codec of \<^verbatim>\<open>src/transport/proto.h\<close>, the
  encoder of \<^verbatim>\<open>src/transport/peer.cpp\<close> and the receiving connection of
  \<^verbatim>\<open>src/transport/server.cpp\<close>. MessagePack is a parameter.
\<close>

subsection \<open>Header codec\<close>

definition TransportTypeStream :: byte where
  "TransportTypeStream = 1"

definition kHeaderSize :: nat where
  "kHeaderSize = 5"

definition kMaxPayloadSize :: nat where
  "kMaxPayloadSize = 64 * 1024 * 1024"

record transport_header =
  th_type :: byte
  th_payload_size :: "32 word"

definition encode_header :: "byte \<Rightarrow> 32 word \<Rightarrow> exn + bytes" where
  "encode_header ty payload_size =
     (if ty \<noteq> TransportTypeStream then Inl Invalid_argument
      else if payload_size = 0 then Inl Invalid_argument
      else if unat payload_size > kMaxPayloadSize then Inl Length_error
      else Inr [ty, byte_at 3 payload_size, byte_at 2 payload_size, byte_at 1 payload_size,
                byte_at 0 payload_size])"

text \<open>The argument is the pointer, \<open>None\<close> when null, with the range it points to.\<close>

definition decode_header :: "bytes option \<Rightarrow> exn + transport_header" where
  "decode_header source =
     (case source of
        None \<Rightarrow> Inl Invalid_argument
      | Some bs \<Rightarrow>
          if length bs < kHeaderSize then Inl Invalid_argument
          else if bs ! 0 \<noteq> TransportTypeStream then Inl Invalid_argument
          else
            let payload_size = from_byte 3 (bs ! 1) OR from_byte 2 (bs ! 2) OR from_byte 1 (bs ! 3)
                  OR from_byte 0 (bs ! 4)
            in if payload_size = 0 then Inl Invalid_argument
               else if unat payload_size > kMaxPayloadSize then Inl Length_error
               else Inr \<lparr>th_type = bs ! 0, th_payload_size = payload_size\<rparr>)"

lemma five_bytes:
  assumes "length bs = 5"
  obtains a b c d e where "bs = [a, b, c, d, e]"
  using assms by (auto simp: length_Suc_conv numeral_eq_Suc)

lemma header_decodes:
  "encode_header ty n = Inr bs \<Longrightarrow> decode_header (Some bs) = Inr \<lparr>th_type = ty, th_payload_size = n\<rparr>"
  by (auto simp: encode_header_def decode_header_def kHeaderSize_def bytes_of_word Let_def
      split: if_splits)

text \<open>
  The frame header survives the wire in both directions: what the encoder writes the
  decoder reads back, any five bytes the decoder accepts are the bytes the encoder writes for
  what was read, and both refuse the same sizes: zero and more than the payload limit.
\<close>

theorem header_round_trip:
  "(case encode_header ty n of
      Inr bs \<Rightarrow> length bs = kHeaderSize \<and> decode_header (Some bs) = Inr \<lparr>th_type = ty, th_payload_size = n\<rparr>
    | Inl x \<Rightarrow> ty \<noteq> TransportTypeStream \<or> n = 0 \<or> unat n > kMaxPayloadSize)
   \<and> (case decode_header (Some bs) of
      Inr h \<Rightarrow> th_payload_size h \<noteq> 0 \<and> unat (th_payload_size h) \<le> kMaxPayloadSize
         \<and> encode_header (th_type h) (th_payload_size h) = Inr (take kHeaderSize bs)
    | Inl x \<Rightarrow> length bs < kHeaderSize \<or> (\<forall>n. encode_header (bs ! 0) n \<noteq> Inr (take kHeaderSize bs)))"
proof -
  have "case encode_header ty n of
      Inr bs \<Rightarrow> length bs = kHeaderSize \<and> decode_header (Some bs) = Inr \<lparr>th_type = ty, th_payload_size = n\<rparr>
    | Inl x \<Rightarrow> ty \<noteq> TransportTypeStream \<or> n = 0 \<or> unat n > kMaxPayloadSize"
    using header_decodes [of ty n] by (auto simp: encode_header_def kHeaderSize_def split: sum.split)
  moreover have "case decode_header (Some bs) of
      Inr h \<Rightarrow> th_payload_size h \<noteq> 0 \<and> unat (th_payload_size h) \<le> kMaxPayloadSize
         \<and> encode_header (th_type h) (th_payload_size h) = Inr (take kHeaderSize bs)
    | Inl x \<Rightarrow> length bs < kHeaderSize \<or> (\<forall>n. encode_header (bs ! 0) n \<noteq> Inr (take kHeaderSize bs))"
  proof (cases "length bs < kHeaderSize")
    case True
    then show ?thesis by (simp add: decode_header_def)
  next
    case False
    then have "length (take 5 bs) = 5" by (simp add: kHeaderSize_def)
    then obtain a b c d e' where t: "take 5 bs = [a, b, c, d, e']" by (rule five_bytes)
    have "bs ! k = take 5 bs ! k" if "k < 5" for k using that by simp
    then have n: "bs ! 0 = a" "bs ! Suc 0 = b" "bs ! 2 = c" "bs ! 3 = d" "bs ! 4 = e'"
      unfolding t by (simp_all add: numeral_eq_Suc)
    show ?thesis
    proof (cases "decode_header (Some bs)")
      case (Inr h)
      then show ?thesis
        using False t word_of_bytes [of b c d e']
        by (auto simp: decode_header_def encode_header_def kHeaderSize_def n Let_def split: if_splits)
    next
      case (Inl x)
      have "decode_header (Some bs) = decode_header (Some (take 5 bs))"
        using False n t by (simp add: decode_header_def kHeaderSize_def Let_def)
      then have "encode_header (bs ! 0) n \<noteq> Inr (take kHeaderSize bs)" for n
        using Inl header_decodes [of "bs ! 0" n "take kHeaderSize bs"] by (auto simp: kHeaderSize_def)
      with Inl show ?thesis by simp
    qed
  qed
  ultimately show ?thesis by blast
qed

subsection \<open>Sending: frames\<close>

record message_codec =
  mc_pack :: "message \<Rightarrow> bytes"
  mc_unpack :: "bytes \<Rightarrow> exn + message"

definition encode_message :: "message_codec \<Rightarrow> message \<Rightarrow> exn + bytes" where
  "encode_message K m =
     (let payload = mc_pack K m
      in if length payload > kMaxPayloadSize then Inl Length_error
         else case encode_header TransportTypeStream (of_nat (length payload)) of
                Inl x \<Rightarrow> Inl x
              | Inr header \<Rightarrow>
                  (case buffer_new (kHeaderSize + kMaxPayloadSize) of
                     Inl x \<Rightarrow> Inl x
                   | Inr frame \<Rightarrow>
                       (case buffer_append (Some header) (length header) frame of
                          Inl x \<Rightarrow> Inl x
                        | Inr frame1 \<Rightarrow>
                            (case buffer_append (Some payload) (length payload) frame1 of
                               Inl x \<Rightarrow> Inl x
                             | Inr frame2 \<Rightarrow>
                                 (case buffer_data frame2 of
                                    None \<Rightarrow> Inr []
                                  | Some bs \<Rightarrow> Inr (take (readable_bytes frame2) bs))))))"

text \<open>The documented behaviour of the library on a message: a non-empty encoding, read back.\<close>

definition message_codec_ok :: "message_codec \<Rightarrow> message \<Rightarrow> bool" where
  "message_codec_ok K m \<longleftrightarrow> mc_pack K m \<noteq> [] \<and> mc_unpack K (mc_pack K m) = Inr m"

lemma payload_word: "n \<le> kMaxPayloadSize \<Longrightarrow> unat (of_nat n :: 32 word) = n"
  by (simp add: unat_of_nat kMaxPayloadSize_def)

lemma encode_message_frame:
  assumes "mc_pack K m \<noteq> []" "length (mc_pack K m) \<le> kMaxPayloadSize"
  shows "\<exists>header. length header = kHeaderSize
     \<and> encode_header TransportTypeStream (of_nat (length (mc_pack K m))) = Inr header
     \<and> encode_message K m = Inr (header @ mc_pack K m)"
proof -
  let ?p = "mc_pack K m"
  have n: "unat (of_nat (length ?p) :: 32 word) = length ?p" by (rule payload_word [OF assms(2)])
  then have "(of_nat (length ?p) :: 32 word) \<noteq> 0" using assms(1) by (metis length_0_conv unat_0)
  then obtain header where h: "encode_header TransportTypeStream (of_nat (length ?p)) = Inr header"
      "length header = kHeaderSize"
    using assms(2) n by (auto simp: encode_header_def kHeaderSize_def)
  obtain b where b: "buffer_new (kHeaderSize + kMaxPayloadSize) = Inr b" "buffer_ok b"
      "buffer_contents b = []" "bb_max_size b = kHeaderSize + kMaxPayloadSize"
    using buffer_new_ok [of "kHeaderSize + kMaxPayloadSize"]
    by (auto simp: kHeaderSize_def kMaxPayloadSize_def two64_def)
  obtain b1 b2 where "buffer_put header b = Inr b1" "buffer_put ?p b1 = Inr b2" "buffer_ok b2"
      "buffer_contents b2 = header @ ?p"
    using buffer.append_two [OF b(2,3), of header ?p] b(4) h(2) assms(2) by auto
  with h b assms show ?thesis
    by (simp add: encode_message_def Let_def buffer_put_def buffer_data_contents readable)
qed

subsection \<open>Receiving: one connection\<close>

text \<open>
  A connection waits for a header or for a payload of known size. \<open>cn_arrived\<close> are the bytes
  the socket has delivered and no read has taken yet: an asynchronous read of \<open>n\<close> bytes
  completes when that many have arrived. \<open>cn_owner\<close> is the server as long as it exists, with the
  handler it passes messages to; the handler the node installs posts the message and returns.
\<close>

datatype read_op = Read_header | Read_payload nat

record connection =
  cn_owner :: "(message \<Rightarrow> exn + unit) option"
  cn_read :: read_op
  cn_arrived :: bytes
  cn_stopped :: bool

definition new_connection :: connection where
  "new_connection = \<lparr>cn_owner = Some (\<lambda>_. Inr ()), cn_read = Read_header, cn_arrived = [], cn_stopped = False\<rparr>"

definition conn_stop :: "connection \<Rightarrow> connection" where
  [simp]: "conn_stop c = (if cn_stopped c then c else c\<lparr>cn_stopped := True\<rparr>)"

definition conn_finish :: "connection \<Rightarrow> connection" where
  "conn_finish c = (if cn_stopped c then c else conn_stop c)"

text \<open>\<^verbatim>\<open>Server::Impl::dispatch\<close>: whether the handler is called with the message.\<close>

definition dispatch :: "message \<Rightarrow> bool" where
  "dispatch m \<longleftrightarrow> m_type m = MsgRequestVote \<or> m_type m = MsgRequestVoteResponse
     \<or> m_type m = MsgAppendEntries \<or> m_type m = MsgAppendEntriesResponse
     \<or> m_type m = MsgPreVote \<or> m_type m = MsgPreVoteResponse
     \<or> m_type m = MsgInstallSnapshot \<or> m_type m = MsgInstallSnapshotResponse"

definition read_header :: "connection \<Rightarrow> connection" where
  "read_header c = (if cn_stopped c then c else c\<lparr>cn_read := Read_header\<rparr>)"

definition decode_and_dispatch ::
  "message_codec \<Rightarrow> bytes \<Rightarrow> connection \<Rightarrow> message list \<times> connection" where
  "decode_and_dispatch K payload c =
     (case mc_unpack K payload of
        Inl _ \<Rightarrow> ([], conn_finish c)
      | Inr m \<Rightarrow>
          (case cn_owner c of
             None \<Rightarrow> ([], conn_finish c)
           | Some handler \<Rightarrow>
               if \<not> dispatch m then ([], conn_finish c)
               else (case handler m of
                       Inl _ \<Rightarrow> ([], conn_finish c)
                     | Inr _ \<Rightarrow> ([m], read_header c))))"

definition read_payload :: "message_codec \<Rightarrow> nat \<Rightarrow> connection \<Rightarrow> message list \<times> connection" where
  "read_payload K n c =
     (if n = 0 then decode_and_dispatch K [] c else ([], c\<lparr>cn_read := Read_payload n\<rparr>))"

text \<open>
  The completion handlers of the two reads, given the bytes they asked for, or \<open>None\<close> when
  the read ended with an error.
\<close>

definition on_header :: "message_codec \<Rightarrow> bytes option \<Rightarrow> connection \<Rightarrow> message list \<times> connection" where
  "on_header K result c =
     (case result of
        None \<Rightarrow> ([], conn_finish c)
      | Some header_bytes \<Rightarrow>
          (case decode_header (Some header_bytes) of
             Inl _ \<Rightarrow> ([], conn_finish c)
           | Inr h \<Rightarrow> read_payload K (unat (th_payload_size h)) c))"

definition on_payload :: "message_codec \<Rightarrow> bytes option \<Rightarrow> connection \<Rightarrow> message list \<times> connection" where
  "on_payload K result c =
     (case result of
        None \<Rightarrow> ([], conn_finish c)
      | Some payload \<Rightarrow> decode_and_dispatch K payload c)"

text \<open>The outstanding read ends with an error.\<close>

definition conn_read_error :: "message_codec \<Rightarrow> connection \<Rightarrow> message list \<times> connection" where
  "conn_read_error K c =
     (case cn_read c of Read_header \<Rightarrow> on_header K None c | Read_payload _ \<Rightarrow> on_payload K None c)"

lemma conn_read_error_stops: "fst (conn_read_error K c) = [] \<and> cn_stopped (snd (conn_read_error K c))"
  by (simp add: conn_read_error_def on_header_def on_payload_def conn_finish_def split: read_op.split)

text \<open>The completion of the outstanding read, if enough bytes have arrived.\<close>

definition conn_step :: "message_codec \<Rightarrow> connection \<Rightarrow> (message list \<times> connection) option" where
  "conn_step K c =
     (if cn_stopped c then None
      else case cn_read c of
             Read_header \<Rightarrow>
               if length (cn_arrived c) < kHeaderSize then None
               else Some (on_header K (Some (take kHeaderSize (cn_arrived c)))
                      (c\<lparr>cn_arrived := drop kHeaderSize (cn_arrived c)\<rparr>))
           | Read_payload n \<Rightarrow>
               if length (cn_arrived c) < n then None
               else Some (on_payload K (Some (take n (cn_arrived c)))
                      (c\<lparr>cn_arrived := drop n (cn_arrived c)\<rparr>)))"

text \<open>A payload read ends with a header read or a closed connection, so the reads come to rest.\<close>

definition reads_left :: "connection \<Rightarrow> nat" where
  "reads_left c = 2 * length (cn_arrived c) + (case cn_read c of Read_header \<Rightarrow> 0 | Read_payload _ \<Rightarrow> 1)
     + (if cn_stopped c then 0 else 2)"

lemma decode_and_dispatch_left:
  assumes "decode_and_dispatch K p c = (ms, c')" "\<not> cn_stopped c"
  shows "cn_arrived c' = cn_arrived c \<and> (cn_stopped c' \<or> cn_read c' = Read_header)"
  using assms by (auto simp: decode_and_dispatch_def conn_finish_def read_header_def
      split: sum.splits if_splits option.splits)

lemma conn_step_left:
  assumes "conn_step K c = Some (ms, c')"
  shows "reads_left c' < reads_left c"
proof (cases "cn_read c")
  case Read_header
  then have c: "\<not> cn_stopped c" "kHeaderSize \<le> length (cn_arrived c)"
    "on_header K (Some (take kHeaderSize (cn_arrived c)))
       (c\<lparr>cn_arrived := drop kHeaderSize (cn_arrived c)\<rparr>) = (ms, c')"
    using assms by (auto simp: conn_step_def split: if_splits)
  then show ?thesis
    using Read_header
    by (auto simp: on_header_def read_payload_def reads_left_def conn_finish_def kHeaderSize_def
        decode_and_dispatch_def read_header_def split: sum.splits if_splits option.splits)
next
  case (Read_payload n)
  let ?c = "c\<lparr>cn_arrived := drop n (cn_arrived c)\<rparr>"
  have c: "\<not> cn_stopped c" "decode_and_dispatch K (take n (cn_arrived c)) ?c = (ms, c')"
    using assms Read_payload by (auto simp: conn_step_def on_payload_def split: if_splits)
  have "\<not> cn_stopped ?c" using c(1) by simp
  from decode_and_dispatch_left [OF c(2) this] show ?thesis
    using Read_payload c(1) by (auto simp: reads_left_def split: read_op.split)
qed

function conn_run :: "message_codec \<Rightarrow> connection \<Rightarrow> message list \<times> connection" where
  "conn_run K c =
     (case conn_step K c of
        None \<Rightarrow> ([], c)
      | Some (ms, c') \<Rightarrow> (case conn_run K c' of (ms', c'') \<Rightarrow> (ms @ ms', c'')))"
  by auto
termination
  by (relation "measure (reads_left \<circ> snd)") (auto dest: conn_step_left)

declare conn_run.simps [simp del]

text \<open>Bytes arrive from the socket; every read they complete runs its handler.\<close>

definition conn_receive :: "message_codec \<Rightarrow> bytes \<Rightarrow> connection \<Rightarrow> message list \<times> connection" where
  "conn_receive K bs c = conn_run K (c\<lparr>cn_arrived := cn_arrived c @ bs\<rparr>)"

fun conn_receive_all ::
  "message_codec \<Rightarrow> bytes list \<Rightarrow> connection \<Rightarrow> message list \<times> connection" where
  "conn_receive_all K [] c = ([], c)"
| "conn_receive_all K (bs # bss) c =
     (case conn_receive K bs c of (ms, c') \<Rightarrow>
        (case conn_receive_all K bss c' of (ms', c'') \<Rightarrow> (ms @ ms', c'')))"

subsection \<open>The stream is cut into frames independently of how it arrives\<close>

lemma conn_step_more:
  assumes "conn_step K c = Some (ms, c')"
  shows "conn_step K (c\<lparr>cn_arrived := cn_arrived c @ xs\<rparr>) = Some (ms, c'\<lparr>cn_arrived := cn_arrived c' @ xs\<rparr>)"
  using assms
  by (auto simp: conn_step_def on_header_def on_payload_def read_payload_def decode_and_dispatch_def
      conn_finish_def read_header_def split: read_op.splits if_splits sum.splits option.splits)

lemma conn_run_more:
  "conn_run K (c\<lparr>cn_arrived := cn_arrived c @ xs\<rparr>) =
     (case conn_run K c of (ms, c1) \<Rightarrow> (case conn_receive K xs c1 of (ms', c2) \<Rightarrow> (ms @ ms', c2)))"
proof (induction K c rule: conn_run.induct)
  case (1 K c)
  show ?case
  proof (cases "conn_step K c")
    case None
    then show ?thesis by (simp add: conn_run.simps [of K c] conn_receive_def)
  next
    case (Some y)
    obtain ms c' where y: "y = (ms, c')" by force
    note step = Some [unfolded y]
    show ?thesis
      using 1 [OF step refl] conn_step_more [OF step, of xs]
      by (simp add: conn_run.simps [of K c] conn_run.simps [of K "c\<lparr>cn_arrived := _\<rparr>"] step
          split: prod.splits)
  qed
qed

lemma conn_receive_append:
  "conn_receive K (xs @ ys) c =
     (case conn_receive K xs c of (ms, c1) \<Rightarrow> (case conn_receive K ys c1 of (ms', c2) \<Rightarrow> (ms @ ms', c2)))"
  using conn_run_more [of K "c\<lparr>cn_arrived := cn_arrived c @ xs\<rparr>" ys]
  by (simp add: conn_receive_def)

definition conn_idle :: "message_codec \<Rightarrow> connection \<Rightarrow> bool" where
  "conn_idle K c \<longleftrightarrow> conn_step K c = None"

lemma conn_run_idle: "conn_idle K (snd (conn_run K c))"
proof (induction K c rule: conn_run.induct)
  case (1 K c)
  then show ?case
    by (subst conn_run.simps) (auto simp: conn_idle_def split: option.split prod.split)
qed

lemma conn_receive_all_concat:
  "conn_idle K c \<Longrightarrow> conn_receive_all K bss c = conn_receive K (concat bss) c"
proof (induction bss arbitrary: c)
  case Nil
  then show ?case by (simp add: conn_receive_def conn_run.simps [of K c] conn_idle_def)
next
  case (Cons bs bss)
  have "conn_idle K (snd (conn_receive K bs c))" by (simp add: conn_receive_def conn_run_idle)
  with Cons.IH [of "snd (conn_receive K bs c)"] show ?case
    by (simp add: conn_receive_append split_beta)
qed

lemma conn_receive_frame:
  assumes "message_codec_ok K m" "dispatch m" "encode_message K m = Inr frame"
    "cn_read c = Read_header" "cn_arrived c = []" "\<not> cn_stopped c" "cn_owner c = Some (\<lambda>_. Inr ())"
  shows "conn_receive K frame c = ([m], c)"
proof -
  let ?p = "mc_pack K m"
  have p: "?p \<noteq> []" "mc_unpack K ?p = Inr m" using assms(1) by (auto simp: message_codec_ok_def)
  have len: "length ?p \<le> kMaxPayloadSize"
    using assms(3) by (auto simp: encode_message_def Let_def split: if_splits)
  obtain header where h: "length header = kHeaderSize" "frame = header @ ?p"
      "encode_header TransportTypeStream (of_nat (length ?p)) = Inr header"
    using encode_message_frame [OF p(1) len] assms(3) by auto
  have d: "decode_header (Some header) =
      Inr \<lparr>th_type = TransportTypeStream, th_payload_size = of_nat (length ?p)\<rparr>"
    using header_decodes [OF h(3)] by simp
  let ?c1 = "c\<lparr>cn_arrived := ?p, cn_read := Read_payload (length ?p)\<rparr>"
  have 1: "conn_step K (c\<lparr>cn_arrived := frame\<rparr>) = Some ([], ?c1)"
    using assms(4,6) h d p payload_word [OF len]
    by (simp add: conn_step_def on_header_def read_payload_def)
  have 2: "conn_step K ?c1 = Some ([m], c)"
    using assms(2,4-7) p by (simp add: conn_step_def on_payload_def decode_and_dispatch_def read_header_def)
  have "conn_step K c = None" using assms(4-6) by (simp add: conn_step_def kHeaderSize_def)
  then show ?thesis
    using 1 2 assms(5) conn_run.simps [of K c] conn_run.simps [of K ?c1]
    by (simp add: conn_receive_def conn_run.simps [of K "c\<lparr>cn_arrived := frame\<rparr>"])
qed

lemma conn_receive_frames:
  assumes "list_all2 (\<lambda>m f. message_codec_ok K m \<and> dispatch m \<and> encode_message K m = Inr f) ms fs"
    "cn_read c = Read_header" "cn_arrived c = []" "\<not> cn_stopped c" "cn_owner c = Some (\<lambda>_. Inr ())"
  shows "conn_receive K (concat fs @ tail) c =
    (case conn_receive K tail c of (ms', c') \<Rightarrow> (ms @ ms', c'))"
  using assms(1)
proof (induction ms fs rule: list_all2_induct)
  case Nil
  show ?case by simp
next
  case (Cons m ms f fs)
  then have "conn_receive K f c = ([m], c)" using conn_receive_frame assms(2-5) by blast
  with Cons.IH show ?case by (simp add: conn_receive_append split: prod.splits)
qed

text \<open>
  C35. Messages cross the connection unchanged and in order: when the bytes of any number of
  frames, and the beginning of one more, reach a new connection in pieces of any sizes, the
  handler gets exactly the messages, in order, and the connection stays open.
\<close>

theorem messages_cross_connection:
  assumes "list_all2 (\<lambda>m f. message_codec_ok K m \<and> dispatch m \<and> encode_message K m = Inr f) ms fs"
    and "concat pieces = concat fs @ tail" "length tail < kHeaderSize"
  shows "conn_receive_all K pieces new_connection = (ms, new_connection\<lparr>cn_arrived := tail\<rparr>)"
proof -
  have new: "cn_read new_connection = Read_header" "cn_arrived new_connection = []"
    "\<not> cn_stopped new_connection" "cn_owner new_connection = Some (\<lambda>_. Inr ())"
    "conn_idle K new_connection"
    by (simp_all add: new_connection_def conn_idle_def conn_step_def kHeaderSize_def)
  have "conn_step K (new_connection\<lparr>cn_arrived := tail\<rparr>) = None"
    using assms(3) by (simp add: new_connection_def conn_step_def)
  then have "conn_receive K tail new_connection = ([], new_connection\<lparr>cn_arrived := tail\<rparr>)"
    using new(2) by (simp add: conn_receive_def conn_run.simps [of K "new_connection\<lparr>cn_arrived := tail\<rparr>"])
  then show ?thesis
    using conn_receive_all_concat [OF new(5), of pieces] conn_receive_frames [OF assms(1) new(1-4), of tail]
      assms(2) by simp
qed

text \<open>A closed connection takes nothing; nothing but the eight message types is delivered.\<close>

lemma conn_step_dispatch:
  "conn_step K c = Some (ms, c') \<Longrightarrow> list_all dispatch ms \<and> (cn_stopped c' \<longrightarrow> ms = [])"
  by (auto simp: conn_step_def on_header_def on_payload_def read_payload_def decode_and_dispatch_def
      conn_finish_def read_header_def split: read_op.splits if_splits sum.splits option.splits)

lemma conn_run_dispatch: "list_all dispatch (fst (conn_run K c))"
proof (induction K c rule: conn_run.induct)
  case (1 K c)
  show ?case
  proof (cases "conn_step K c")
    case None
    then show ?thesis by (simp add: conn_run.simps [of K c])
  next
    case (Some y)
    obtain ms c' where y: "y = (ms, c')" by force
    note step = Some [unfolded y]
    show ?thesis
      using 1 [OF step refl] conn_step_dispatch [OF step]
      by (simp add: conn_run.simps [of K c] step split_beta)
  qed
qed

text \<open>
  A bad frame ends the connection: bytes that do not start with a valid header close a
  connection that waits for one, nothing is delivered from them or from anything that
  arrives later, and whatever arrives only messages of the eight known types are delivered.
\<close>

theorem bad_frame_closes_connection:
  assumes "cn_read c = Read_header" "cn_arrived c = []" "\<not> cn_stopped c"
    and "kHeaderSize \<le> length bs" "decode_header (Some (take kHeaderSize bs)) = Inl x"
  shows "\<exists>c'. conn_receive_all K (bs # later) c = ([], c') \<and> cn_stopped c'
     \<and> list_all dispatch (fst (conn_receive K other d))"
proof -
  have stopped: "conn_receive K xs d = ([], d\<lparr>cn_arrived := cn_arrived d @ xs\<rparr>)" if "cn_stopped d" for xs d
    using that by (simp add: conn_receive_def conn_run.simps [of K "d\<lparr>cn_arrived := _\<rparr>"] conn_step_def)
  have all: "\<exists>c'. conn_receive_all K xss d = ([], c') \<and> cn_stopped c'" if "cn_stopped d" for xss d
    using that by (induction xss arbitrary: d) (auto simp: stopped)
  let ?c1 = "c\<lparr>cn_arrived := drop kHeaderSize bs, cn_stopped := True\<rparr>"
  have "conn_step K (c\<lparr>cn_arrived := bs\<rparr>) = Some ([], ?c1)" "conn_step K ?c1 = None"
    using assms by (simp_all add: conn_step_def on_header_def conn_finish_def)
  then have "conn_receive K bs c = ([], ?c1)"
    using assms(2) by (simp add: conn_receive_def conn_run.simps [of K "c\<lparr>cn_arrived := bs\<rparr>"]
        conn_run.simps [of K ?c1])
  moreover have "list_all dispatch (fst (conn_receive K other d))"
    by (simp add: conn_receive_def conn_run_dispatch)
  ultimately show ?thesis using all [of ?c1 later] by auto
qed

subsection \<open>Examples\<close>

text \<open>A codec that carries the type, the sender and the receiver of a short message.\<close>

definition ex_wire :: message_codec where
  "ex_wire =
     \<lparr>mc_pack = (\<lambda>m. [of_nat (m_type m), of_nat (m_from m), of_nat (m_to m)]),
      mc_unpack = (\<lambda>bs. if length bs = 3
        then Inr (default_message\<lparr>m_type := unat (bs ! 0), m_from := unat (bs ! 1), m_to := unat (bs ! 2)\<rparr>)
        else Inl Runtime_error)\<rparr>"

definition ex_ping :: message where
  "ex_ping = default_message\<lparr>m_type := MsgAppendEntries, m_from := 2, m_to := 3\<rparr>"

lemma ex_ping_codec: "message_codec_ok ex_wire ex_ping" "dispatch ex_ping"
  by (simp_all add: message_codec_ok_def ex_wire_def ex_ping_def default_message_def dispatch_def
      msg_type_defs)

lemma ex_ping_frame: "encode_message ex_wire ex_ping = Inr [1, 0, 0, 0, 3, 2, 2, 3]"
proof -
  have b: "byte_at 3 3 = 0" "byte_at 2 3 = 0" "byte_at (Suc 0) 3 = 0" "byte_at 0 3 = 3"
    by (simp_all add: byte_at_def)
  have h: "encode_header TransportTypeStream 3 = Inr [1, 0, 0, 0, 3]"
    by (simp add: encode_header_def TransportTypeStream_def kMaxPayloadSize_def b)
  have p: "mc_pack ex_wire ex_ping = [2, 2, 3]"
    by (simp add: ex_wire_def ex_ping_def msg_type_defs)
  show ?thesis using encode_message_frame [of ex_wire ex_ping] p h by (simp add: kMaxPayloadSize_def)
qed

theorem header_round_trip_witness:
  "encode_header TransportTypeStream 258 = Inr [1, 0, 0, 1, 2]
   \<and> decode_header (Some [1, 0, 0, 1, 2]) = Inr \<lparr>th_type = 1, th_payload_size = 258\<rparr>"
proof -
  have b: "byte_at 3 258 = 0" "byte_at 2 258 = 0" "byte_at (Suc 0) 258 = 1" "byte_at 0 258 = 2"
    by (simp_all add: byte_at_def)
  have e: "encode_header TransportTypeStream 258 = Inr [1, 0, 0, 1, 2]"
    by (simp add: encode_header_def TransportTypeStream_def kMaxPayloadSize_def b)
  then show ?thesis
    using header_round_trip [of TransportTypeStream 258 "[]"] by (simp add: TransportTypeStream_def)
qed

theorem messages_cross_connection_witness:
  "conn_receive_all ex_wire [[1, 0], [0, 0, 3, 2], [2, 3, 1, 0, 0, 0, 3, 2, 2, 3, 1]] new_connection =
     ([ex_ping, ex_ping], new_connection\<lparr>cn_arrived := [1]\<rparr>)"
proof -
  have f: "list_all2 (\<lambda>m f. message_codec_ok ex_wire m \<and> dispatch m \<and> encode_message ex_wire m = Inr f)
      [ex_ping, ex_ping] [[1, 0, 0, 0, 3, 2, 2, 3], [1, 0, 0, 0, 3, 2, 2, 3]]"
    by (simp add: ex_ping_codec ex_ping_frame)
  show ?thesis
    by (rule messages_cross_connection [OF f, of _ "[1]"]) (simp_all add: kHeaderSize_def)
qed

theorem bad_frame_closes_connection_witness:
  "\<exists>c'. conn_receive_all ex_wire ([2, 0, 0, 0, 3, 2] # [[1, 0, 0, 0, 3, 2, 2, 3]]) new_connection = ([], c')
     \<and> cn_stopped c'"
proof -
  have d: "decode_header (Some (take kHeaderSize [2, 0, 0, 0, 3, 2])) = Inl Invalid_argument"
    by (simp add: decode_header_def kHeaderSize_def TransportTypeStream_def)
  have n: "cn_read new_connection = Read_header" "cn_arrived new_connection = []"
      "\<not> cn_stopped new_connection" by (simp_all add: new_connection_def)
  have l: "kHeaderSize \<le> length [2, 0, 0, 0, 3, 2 :: byte]" by (simp add: kHeaderSize_def)
  show ?thesis
    using bad_frame_closes_connection [OF n l d, of ex_wire "[[1, 0, 0, 0, 3, 2, 2, 3]]"] by blast
qed

end
