(* ===== verification/Peer.thy ===== *)
theory Peer
  imports Transport "HOL-Library.Sublist"
begin

text \<open>
  The sending side of the transport, \<^verbatim>\<open>src/transport/peer.cpp\<close>: admission to the bounded
  queue, coalescing of AppendEntries frames, connecting, writing and retrying. The handlers
  run on one strand; the operations Asio still has to complete are part of the state, and a
  step of the system is a call from the Raft loop or the completion of one such operation.
\<close>

subsection \<open>State\<close>

record pending_frame =
  pf_bytes :: bytes
  pf_replaceable_append :: bool
  pf_from :: nat
  pf_to :: nat
  pf_term :: nat
  pf_read_context :: nat

definition kMaxPendingFrames :: nat where
  "kMaxPendingFrames = 512"

definition kMaxPendingBytes :: nat where
  "kMaxPendingBytes = kMaxPayloadSize + kHeaderSize"

datatype posted = Post_frame pending_frame | Post_stop

text \<open>
  \<open>pr_posted\<close>, \<open>pr_resolving\<close>, \<open>pr_connecting\<close>, \<open>pr_writing\<close> and \<open>pr_timer\<close> are the
  outstanding operations of Asio: the handlers posted to the strand, the name resolution, the
  connection attempt, the write with its frame, the wait of the retry timer. \<open>pr_sent\<close> are the
  frames written completely.
\<close>

record peer =
  pr_outbound :: "pending_frame list"
  pr_pending_frames :: nat
  pr_pending_bytes :: nat
  pr_stop_requested :: bool
  pr_stopped :: bool
  pr_connected :: bool
  pr_connect_in_progress :: bool
  pr_write_in_progress :: bool
  pr_retry_pending :: bool
  pr_retry_delay :: nat
  pr_posted :: "posted list"
  pr_resolving :: bool
  pr_connecting :: bool
  pr_writing :: "bytes option"
  pr_timer :: bool
  pr_sent :: "pending_frame list"

definition new_peer :: peer where
  "new_peer = \<lparr>pr_outbound = [], pr_pending_frames = 0, pr_pending_bytes = 0,
     pr_stop_requested = False, pr_stopped = False, pr_connected = False,
     pr_connect_in_progress = False, pr_write_in_progress = False, pr_retry_pending = False,
     pr_retry_delay = 20, pr_posted = [], pr_resolving = False, pr_connecting = False,
     pr_writing = None, pr_timer = False, pr_sent = []\<rparr>"

subsection \<open>Operations\<close>

definition stopping :: "peer \<Rightarrow> bool" where
  "stopping p \<longleftrightarrow> pr_stopped p \<or> pr_stop_requested p"

definition reserve :: "nat \<Rightarrow> peer \<Rightarrow> bool \<times> peer" where
  "reserve n p =
     (if pr_stop_requested p \<or> pr_pending_frames p \<ge> kMaxPendingFrames
         \<or> n > u64_sub kMaxPendingBytes (pr_pending_bytes p)
      then (False, p)
      else (True, p\<lparr>pr_pending_frames := u64_inc (pr_pending_frames p),
                    pr_pending_bytes := u64_add (pr_pending_bytes p) n\<rparr>))"

definition release :: "nat \<Rightarrow> peer \<Rightarrow> peer" where
  "release n p =
     p\<lparr>pr_pending_frames := u64_dec (pr_pending_frames p),
       pr_pending_bytes := u64_sub (pr_pending_bytes p) n\<rparr>"

definition frame_for :: "message \<Rightarrow> bytes \<Rightarrow> pending_frame" where
  "frame_for m bs =
     \<lparr>pf_bytes = bs, pf_replaceable_append = (m_type m = MsgAppendEntries), pf_from = m_from m,
      pf_to = m_to m, pf_term = m_term m, pf_read_context = m_read_context m\<rparr>"

definition enqueue :: "message \<Rightarrow> bytes \<Rightarrow> peer \<Rightarrow> bool \<times> peer" where
  "enqueue m bs p =
     (case reserve (length bs) p of
        (False, p') \<Rightarrow> (False, p')
      | (True, p') \<Rightarrow> (True, p'\<lparr>pr_posted := pr_posted p' @ [Post_frame (frame_for m bs)]\<rparr>))"

text \<open>The \<^verbatim>\<open>catch\<close> branch of \<^verbatim>\<open>enqueue\<close>: posting the handler throws and the reservation is undone.\<close>

definition enqueue_throws :: "bytes \<Rightarrow> peer \<Rightarrow> peer" where
  "enqueue_throws bs p =
     (case reserve (length bs) p of (False, p') \<Rightarrow> p' | (True, p') \<Rightarrow> release (length bs) p')"

definition peer_send :: "message_codec \<Rightarrow> message \<Rightarrow> peer \<Rightarrow> (exn + bool) \<times> peer" where
  "peer_send K m p =
     (case encode_message K m of
        Inl x \<Rightarrow> (Inl x, p)
      | Inr bs \<Rightarrow> (case enqueue m bs p of (ok, p') \<Rightarrow> (Inr ok, p')))"

definition write_next :: "peer \<Rightarrow> peer" where
  "write_next p =
     (if stopping p \<or> \<not> pr_connected p \<or> pr_write_in_progress p \<or> pr_outbound p = [] then p
      else p\<lparr>pr_write_in_progress := True, pr_writing := Some (pf_bytes (hd (pr_outbound p)))\<rparr>)"

definition peer_connect :: "peer \<Rightarrow> peer" where
  "peer_connect p =
     (if stopping p \<or> pr_connected p \<or> pr_connect_in_progress p \<or> pr_retry_pending p
         \<or> pr_outbound p = [] then p
      else p\<lparr>pr_connect_in_progress := True, pr_resolving := True\<rparr>)"

definition schedule_retry :: "peer \<Rightarrow> peer" where
  "schedule_retry p =
     (if stopping p \<or> pr_outbound p = [] \<or> pr_retry_pending p then p
      else p\<lparr>pr_retry_pending := True, pr_timer := True,
             pr_retry_delay := min (pr_retry_delay p * 2) 500\<rparr>)"

definition mark_disconnected :: "peer \<Rightarrow> peer" where
  "mark_disconnected p = p\<lparr>pr_connected := False, pr_write_in_progress := False\<rparr>"

definition same_append_stream :: "pending_frame \<Rightarrow> pending_frame \<Rightarrow> bool" where
  "same_append_stream previous frame \<longleftrightarrow>
     pf_replaceable_append previous \<and> pf_from previous = pf_from frame
     \<and> pf_to previous = pf_to frame \<and> pf_term previous = pf_term frame
     \<and> pf_read_context previous = pf_read_context frame"

text \<open>The handler that \<^verbatim>\<open>enqueue\<close> posts to the strand.\<close>

definition run_frame :: "pending_frame \<Rightarrow> peer \<Rightarrow> peer" where
  "run_frame frame p =
     (if stopping p then release (length (pf_bytes frame)) p
      else
        let back_is_in_flight = (pr_write_in_progress p \<and> length (pr_outbound p) = 1)
        in if \<not> back_is_in_flight \<and> pf_replaceable_append frame \<and> pr_outbound p \<noteq> []
              \<and> same_append_stream (last (pr_outbound p)) frame
           then
             let replaced_size = length (pf_bytes (last (pr_outbound p)));
                 p1 = release replaced_size
                        (p\<lparr>pr_outbound := butlast (pr_outbound p) @ [frame]\<rparr>)
             in if pr_connected p1 then write_next p1 else p1
           else
             let p1 = p\<lparr>pr_outbound := pr_outbound p @ [frame]\<rparr>
             in if pr_connected p1 then write_next p1 else peer_connect p1)"

definition on_resolve :: "bool \<Rightarrow> peer \<Rightarrow> peer" where
  "on_resolve error p =
     (if stopping p then p
      else if error then schedule_retry (p\<lparr>pr_connect_in_progress := False\<rparr>)
      else p\<lparr>pr_connecting := True\<rparr>)"

definition on_connect :: "bool \<Rightarrow> peer \<Rightarrow> peer" where
  "on_connect error p =
     (let p1 = p\<lparr>pr_connect_in_progress := False\<rparr>
      in if stopping p1 then p1
         else if error then schedule_retry (mark_disconnected p1)
         else write_next (p1\<lparr>pr_connected := True, pr_retry_delay := 20\<rparr>))"

definition on_write :: "bool \<Rightarrow> bytes \<Rightarrow> peer \<Rightarrow> peer" where
  "on_write error frame p =
     (let p1 = p\<lparr>pr_write_in_progress := False\<rparr>
      in if stopping p1 then p1
         else if error then schedule_retry (mark_disconnected p1)
         else write_next (release (length frame)
                (p1\<lparr>pr_outbound := tl (pr_outbound p1), pr_sent := pr_sent p1 @ [hd (pr_outbound p1)]\<rparr>)))"

definition on_retry :: "bool \<Rightarrow> peer \<Rightarrow> peer" where
  "on_retry error p =
     (let p1 = p\<lparr>pr_retry_pending := False\<rparr>
      in if \<not> error \<and> \<not> stopping p1 then peer_connect p1 else p1)"

definition peer_request_stop :: "peer \<Rightarrow> peer" where
  "peer_request_stop p =
     (if pr_stop_requested p then p
      else p\<lparr>pr_stop_requested := True, pr_posted := pr_posted p @ [Post_stop]\<rparr>)"

definition peer_stop_now :: "peer \<Rightarrow> peer" where
  "peer_stop_now p =
     (if pr_stopped p then p
      else
        let p1 = p\<lparr>pr_stopped := True, pr_connected := False, pr_connect_in_progress := False,
                   pr_write_in_progress := False, pr_retry_pending := False\<rparr>;
            p2 = fold (\<lambda>f. release (length (pf_bytes f))) (pr_outbound p1) p1
        in p2\<lparr>pr_outbound := []\<rparr>)"

definition run_posted :: "posted \<Rightarrow> peer \<Rightarrow> peer" where
  "run_posted t p = (case t of Post_frame f \<Rightarrow> run_frame f p | Post_stop \<Rightarrow> peer_stop_now p)"

subsection \<open>Runs\<close>

text \<open>
  \<open>peer_run accepted p\<close>: the peer can be in state \<open>p\<close> after \<open>enqueue\<close> accepted the frames
  \<open>accepted\<close>, in this order. The timer's wait fails only when the timer is cancelled, which
  only stopping does.
\<close>

inductive peer_run :: "pending_frame list \<Rightarrow> peer \<Rightarrow> bool" where
  new: "peer_run [] new_peer"
| accept: "peer_run acc p \<Longrightarrow> enqueue m bs p = (True, p') \<Longrightarrow> peer_run (acc @ [frame_for m bs]) p'"
| refuse: "peer_run acc p \<Longrightarrow> enqueue m bs p = (False, p') \<Longrightarrow> peer_run acc p'"
| throws: "peer_run acc p \<Longrightarrow> peer_run acc (enqueue_throws bs p)"
| posted: "peer_run acc p \<Longrightarrow> pr_posted p = t # ts \<Longrightarrow>
    peer_run acc (run_posted t (p\<lparr>pr_posted := ts\<rparr>))"
| resolved: "peer_run acc p \<Longrightarrow> pr_resolving p \<Longrightarrow>
    peer_run acc (on_resolve err (p\<lparr>pr_resolving := False\<rparr>))"
| connected: "peer_run acc p \<Longrightarrow> pr_connecting p \<Longrightarrow>
    peer_run acc (on_connect err (p\<lparr>pr_connecting := False\<rparr>))"
| written: "peer_run acc p \<Longrightarrow> pr_writing p = Some frame \<Longrightarrow>
    peer_run acc (on_write err frame (p\<lparr>pr_writing := None\<rparr>))"
| timer: "peer_run acc p \<Longrightarrow> pr_timer p \<Longrightarrow> (err \<Longrightarrow> pr_stopped p) \<Longrightarrow>
    peer_run acc (on_retry err (p\<lparr>pr_timer := False\<rparr>))"
| stop: "peer_run acc p \<Longrightarrow> peer_run acc (peer_request_stop p)"

subsection \<open>Invariant\<close>

fun frames_of :: "posted list \<Rightarrow> pending_frame list" where
  "frames_of [] = []"
| "frames_of (Post_frame f # ts) = f # frames_of ts"
| "frames_of (Post_stop # ts) = frames_of ts"

definition frame_bytes :: "pending_frame list \<Rightarrow> nat" where
  "frame_bytes fs = sum_list (map (length \<circ> pf_bytes) fs)"

definition queued :: "peer \<Rightarrow> pending_frame list" where
  "queued p = pr_outbound p @ frames_of (pr_posted p)"

text \<open>The counters say exactly what is queued, and stay within the limits.\<close>

definition counts_for :: "pending_frame list \<Rightarrow> peer \<Rightarrow> bool" where
  "counts_for fs p \<longleftrightarrow> pr_pending_frames p = length fs \<and> pr_pending_bytes p = frame_bytes fs
     \<and> length fs \<le> kMaxPendingFrames \<and> frame_bytes fs \<le> kMaxPendingBytes"

text \<open>While the peer is not stopping, the flags say which operations are outstanding.\<close>

definition flags_ok :: "peer \<Rightarrow> bool" where
  "flags_ok p \<longleftrightarrow> pr_write_in_progress p = (pr_writing p \<noteq> None)
     \<and> (pr_writing p \<noteq> None \<longrightarrow> pr_connected p \<and> pr_outbound p \<noteq> []
          \<and> pr_writing p = Some (pf_bytes (hd (pr_outbound p))))
     \<and> pr_connect_in_progress p = (pr_resolving p \<or> pr_connecting p)
     \<and> \<not> (pr_resolving p \<and> pr_connecting p) \<and> pr_retry_pending p = pr_timer p
     \<and> (pr_connected p \<longrightarrow> \<not> pr_connect_in_progress p \<and> \<not> pr_retry_pending p)
     \<and> (pr_connect_in_progress p \<longrightarrow> \<not> pr_retry_pending p)"

text \<open>Something that will continue the work is outstanding whenever there is work.\<close>

definition busy_ok :: "peer \<Rightarrow> bool" where
  "busy_ok p \<longleftrightarrow> (pr_outbound p \<noteq> [] \<longrightarrow>
     (if pr_connected p then pr_write_in_progress p
      else pr_connect_in_progress p \<or> pr_retry_pending p))"

definition peer_ok :: "peer \<Rightarrow> bool" where
  "peer_ok p \<longleftrightarrow> counts_for (queued p) p \<and> (pr_stopped p \<longrightarrow> pr_stop_requested p \<and> pr_outbound p = [])
     \<and> (Post_stop \<in> set (pr_posted p) \<longrightarrow> pr_stop_requested p)
     \<and> (\<not> stopping p \<longrightarrow> flags_ok p \<and> busy_ok p) \<and> pr_retry_delay p \<in> {20..500}"

subsection \<open>Preservation\<close>

lemma frame_bytes_simps [simp]:
  "frame_bytes [] = 0" "frame_bytes (f # fs) = length (pf_bytes f) + frame_bytes fs"
  "frame_bytes (fs @ gs) = frame_bytes fs + frame_bytes gs"
  by (simp_all add: frame_bytes_def)

lemma frames_of_append [simp]: "frames_of (ts @ us) = frames_of ts @ frames_of us"
proof (induction ts)
  case (Cons t ts)
  then show ?case by (cases t) simp_all
qed simp

lemma limits_lt: "kMaxPendingFrames < two64" "kMaxPendingBytes < two64"
  by (simp_all add: kMaxPendingFrames_def kMaxPendingBytes_def kMaxPayloadSize_def kHeaderSize_def
      two64_def)

lemma release_fields [simp]:
  "pr_outbound (release n p) = pr_outbound p" "pr_posted (release n p) = pr_posted p"
  "pr_stop_requested (release n p) = pr_stop_requested p" "pr_stopped (release n p) = pr_stopped p"
  "pr_connected (release n p) = pr_connected p"
  "pr_connect_in_progress (release n p) = pr_connect_in_progress p"
  "pr_write_in_progress (release n p) = pr_write_in_progress p"
  "pr_retry_pending (release n p) = pr_retry_pending p" "pr_retry_delay (release n p) = pr_retry_delay p"
  "pr_resolving (release n p) = pr_resolving p" "pr_connecting (release n p) = pr_connecting p"
  "pr_writing (release n p) = pr_writing p" "pr_timer (release n p) = pr_timer p"
  "pr_sent (release n p) = pr_sent p" "stopping (release n p) = stopping p"
  "flags_ok (release n p) = flags_ok p" "busy_ok (release n p) = busy_ok p"
  by (simp_all add: release_def stopping_def flags_ok_def busy_ok_def)

lemma counts_release:
  assumes "counts_for (fs @ f # gs) p"
  shows "counts_for (fs @ gs) (release (length (pf_bytes f)) p)"
  using assms limits_lt by (auto simp: counts_for_def release_def u64_dec_id u64_sub_id)

lemma counts_release_all:
  "counts_for (fs @ gs) p \<Longrightarrow> counts_for gs (fold (\<lambda>f. release (length (pf_bytes f))) fs p)"
proof (induction fs arbitrary: p)
  case (Cons f fs)
  then show ?case using counts_release [of "[]" f "fs @ gs" p] by simp
qed simp

lemma counts_reserve:
  assumes "counts_for fs p" "reserve (length (pf_bytes f)) p = (True, p')"
  shows "counts_for (fs @ [f]) p'"
  using assms limits_lt
  by (auto simp: counts_for_def reserve_def u64_sub_id wrap_simps not_le split: if_splits)

lemma counts_cong:
  "pr_pending_frames p' = pr_pending_frames p \<Longrightarrow> pr_pending_bytes p' = pr_pending_bytes p \<Longrightarrow>
     counts_for fs p' = counts_for fs p"
  by (simp add: counts_for_def)

text \<open>The operations that only start something leave the queue and the counters alone.\<close>

lemma starters [simp]:
  "pr_outbound (write_next p) = pr_outbound p" "pr_posted (write_next p) = pr_posted p"
  "pr_outbound (peer_connect p) = pr_outbound p" "pr_posted (peer_connect p) = pr_posted p"
  "pr_outbound (schedule_retry p) = pr_outbound p" "pr_posted (schedule_retry p) = pr_posted p"
  "pr_outbound (mark_disconnected p) = pr_outbound p" "pr_posted (mark_disconnected p) = pr_posted p"
  "counts_for fs (write_next p) = counts_for fs p" "counts_for fs (peer_connect p) = counts_for fs p"
  "counts_for fs (schedule_retry p) = counts_for fs p"
  "counts_for fs (mark_disconnected p) = counts_for fs p"
  "pr_stop_requested (write_next p) = pr_stop_requested p" "pr_stopped (write_next p) = pr_stopped p"
  "pr_stop_requested (peer_connect p) = pr_stop_requested p" "pr_stopped (peer_connect p) = pr_stopped p"
  "pr_stop_requested (schedule_retry p) = pr_stop_requested p" "pr_stopped (schedule_retry p) = pr_stopped p"
  "pr_stop_requested (mark_disconnected p) = pr_stop_requested p"
  "pr_stopped (mark_disconnected p) = pr_stopped p"
  "pr_sent (write_next p) = pr_sent p" "pr_sent (peer_connect p) = pr_sent p"
  "pr_sent (schedule_retry p) = pr_sent p" "pr_sent (mark_disconnected p) = pr_sent p"
  "stopping (write_next p) = stopping p" "stopping (peer_connect p) = stopping p"
  "stopping (schedule_retry p) = stopping p" "stopping (mark_disconnected p) = stopping p"
  by (simp_all add: write_next_def peer_connect_def schedule_retry_def mark_disconnected_def
      counts_for_def stopping_def)

lemma flags_irrelevant [simp]:
  "flags_ok (p\<lparr>pr_posted := ts\<rparr>) = flags_ok p" "busy_ok (p\<lparr>pr_posted := ts\<rparr>) = busy_ok p"
  "flags_ok (p\<lparr>pr_pending_frames := a\<rparr>) = flags_ok p" "busy_ok (p\<lparr>pr_pending_frames := a\<rparr>) = busy_ok p"
  "flags_ok (p\<lparr>pr_pending_bytes := a\<rparr>) = flags_ok p" "busy_ok (p\<lparr>pr_pending_bytes := a\<rparr>) = busy_ok p"
  "stopping (p\<lparr>pr_posted := ts\<rparr>) = stopping p" "stopping (p\<lparr>pr_outbound := fs\<rparr>) = stopping p"
  "stopping (p\<lparr>pr_pending_frames := a\<rparr>) = stopping p" "stopping (p\<lparr>pr_pending_bytes := a\<rparr>) = stopping p"
  "stopping (p\<lparr>pr_connect_in_progress := x\<rparr>) = stopping p" "stopping (p\<lparr>pr_connected := x\<rparr>) = stopping p"
  "stopping (p\<lparr>pr_write_in_progress := x\<rparr>) = stopping p" "stopping (p\<lparr>pr_retry_pending := x\<rparr>) = stopping p"
  "stopping (p\<lparr>pr_retry_delay := d\<rparr>) = stopping p" "stopping (p\<lparr>pr_sent := fs\<rparr>) = stopping p"
  "stopping (p\<lparr>pr_resolving := x\<rparr>) = stopping p" "stopping (p\<lparr>pr_connecting := x\<rparr>) = stopping p"
  "stopping (p\<lparr>pr_writing := w\<rparr>) = stopping p" "stopping (p\<lparr>pr_timer := x\<rparr>) = stopping p"
  by (simp_all add: flags_ok_def busy_ok_def stopping_def)

lemma peer_okI:
  assumes "counts_for (queued p) p" "pr_stopped p \<Longrightarrow> pr_stop_requested p \<and> pr_outbound p = []"
    "Post_stop \<in> set (pr_posted p) \<Longrightarrow> pr_stop_requested p"
    "\<not> stopping p \<Longrightarrow> flags_ok p \<and> busy_ok p" "pr_retry_delay p \<in> {20..500}"
  shows "peer_ok p"
  using assms unfolding peer_ok_def by blast

lemma new_peer_ok: "peer_ok new_peer"
  by (simp add: peer_ok_def new_peer_def counts_for_def queued_def stopping_def flags_ok_def busy_ok_def)

lemma enqueue_throws_same: "peer_ok p \<Longrightarrow> enqueue_throws bs p = p"
  using limits_lt
  by (auto simp: peer_ok_def counts_for_def enqueue_throws_def reserve_def release_def wrap_simps
      split: if_splits)

lemma enqueue_ok:
  assumes "peer_ok p"
  shows "peer_ok (snd (enqueue m bs p))"
proof (cases "reserve (length bs) p")
  case (Pair ok p')
  show ?thesis
  proof (cases ok)
    case False
    then show ?thesis using Pair assms by (auto simp: enqueue_def reserve_def split: if_splits)
  next
    case True
    let ?f = "frame_for m bs"
    have r: "reserve (length (pf_bytes ?f)) p = (True, p')" using Pair True by (simp add: frame_for_def)
    have c: "counts_for (queued p @ [?f]) p'"
      using counts_reserve [OF _ r] assms by (simp add: peer_ok_def)
    obtain a b where p': "p' = p\<lparr>pr_pending_frames := a, pr_pending_bytes := b\<rparr>" "\<not> pr_stop_requested p"
      using r by (auto simp: reserve_def split: if_splits)
    have e: "snd (enqueue m bs p) = p'\<lparr>pr_posted := pr_posted p' @ [Post_frame ?f]\<rparr>"
      using Pair True by (simp add: enqueue_def)
    show ?thesis unfolding e
    proof (rule peer_okI)
      show "counts_for (queued (p'\<lparr>pr_posted := pr_posted p' @ [Post_frame ?f]\<rparr>))
          (p'\<lparr>pr_posted := pr_posted p' @ [Post_frame ?f]\<rparr>)"
        using c by (simp add: queued_def p'(1) counts_for_def)
    qed (use assms p' in \<open>simp_all add: peer_ok_def\<close>)
  qed
qed

lemma request_stop_ok: "peer_ok p \<Longrightarrow> peer_ok (peer_request_stop p)"
  by (auto simp: peer_ok_def peer_request_stop_def queued_def stopping_def counts_for_def)

text \<open>The handler of an accepted frame; its frame was taken from the posted ones.\<close>

definition frame_due :: "pending_frame \<Rightarrow> peer \<Rightarrow> bool" where
  "frame_due f p \<longleftrightarrow> counts_for (pr_outbound p @ f # frames_of (pr_posted p)) p
     \<and> (pr_stopped p \<longrightarrow> pr_stop_requested p \<and> pr_outbound p = [])
     \<and> (Post_stop \<in> set (pr_posted p) \<longrightarrow> pr_stop_requested p)
     \<and> (\<not> stopping p \<longrightarrow> flags_ok p \<and> busy_ok p) \<and> pr_retry_delay p \<in> {20..500}"

lemma write_next_flags:
  assumes "flags_ok p" "pr_connected p" "pr_outbound p \<noteq> [] \<or> \<not> pr_write_in_progress p" "\<not> stopping p"
  shows "flags_ok (write_next p) \<and> busy_ok (write_next p) \<and> pr_retry_delay (write_next p) = pr_retry_delay p"
  using assms by (auto simp: write_next_def flags_ok_def busy_ok_def)

lemma connect_flags:
  assumes "flags_ok p" "\<not> pr_connected p" "\<not> stopping p"
  shows "flags_ok (peer_connect p) \<and> busy_ok (peer_connect p)
     \<and> pr_retry_delay (peer_connect p) = pr_retry_delay p"
  using assms by (auto simp: peer_connect_def flags_ok_def busy_ok_def)

lemma retry_flags:
  assumes "flags_ok p" "\<not> pr_connected p" "\<not> pr_connect_in_progress p" "\<not> stopping p"
    "pr_retry_delay p \<in> {20..500}"
  shows "flags_ok (schedule_retry p) \<and> busy_ok (schedule_retry p)
     \<and> pr_retry_delay (schedule_retry p) \<in> {20..500}"
  using assms by (auto simp: schedule_retry_def flags_ok_def busy_ok_def)

text \<open>Whether the frame replaces the last one, and the queue after it.\<close>

definition replaces :: "pending_frame \<Rightarrow> peer \<Rightarrow> bool" where
  "replaces f p \<longleftrightarrow> \<not> (pr_write_in_progress p \<and> length (pr_outbound p) = 1)
     \<and> pf_replaceable_append f \<and> pr_outbound p \<noteq> [] \<and> same_append_stream (last (pr_outbound p)) f"

definition with_frame :: "pending_frame \<Rightarrow> peer \<Rightarrow> peer" where
  "with_frame f p =
     (if replaces f p then release (length (pf_bytes (last (pr_outbound p))))
        (p\<lparr>pr_outbound := butlast (pr_outbound p) @ [f]\<rparr>)
      else p\<lparr>pr_outbound := pr_outbound p @ [f]\<rparr>)"

lemma run_frame_eq:
  "\<not> stopping p \<Longrightarrow> run_frame f p =
     (if pr_connected p then write_next (with_frame f p)
      else if replaces f p then with_frame f p else peer_connect (with_frame f p))"
  unfolding run_frame_def Let_def replaces_def [symmetric] with_frame_def by simp

lemma with_frame_fields [simp]:
  "pr_write_in_progress (with_frame f p) = pr_write_in_progress p"
  "pr_writing (with_frame f p) = pr_writing p" "pr_connected (with_frame f p) = pr_connected p"
  "pr_connect_in_progress (with_frame f p) = pr_connect_in_progress p"
  "pr_resolving (with_frame f p) = pr_resolving p" "pr_connecting (with_frame f p) = pr_connecting p"
  "pr_timer (with_frame f p) = pr_timer p" "pr_retry_pending (with_frame f p) = pr_retry_pending p"
  "pr_retry_delay (with_frame f p) = pr_retry_delay p" "pr_stopped (with_frame f p) = pr_stopped p"
  "pr_stop_requested (with_frame f p) = pr_stop_requested p" "pr_posted (with_frame f p) = pr_posted p"
  "stopping (with_frame f p) = stopping p" "pr_outbound (with_frame f p) \<noteq> []"
  "pr_sent (with_frame f p) = pr_sent p"
  by (simp_all add: with_frame_def)

lemma with_frame_counts:
  assumes "counts_for (pr_outbound p @ f # frames_of (pr_posted p)) p"
  shows "counts_for (queued (with_frame f p)) (with_frame f p)"
proof (cases "replaces f p")
  case True
  then have "pr_outbound p = butlast (pr_outbound p) @ [last (pr_outbound p)]" by (simp add: replaces_def)
  then have "counts_for (butlast (pr_outbound p) @ last (pr_outbound p) # f # frames_of (pr_posted p)) p"
    using assms by (metis append.assoc append_Cons append_Nil)
  from counts_release [OF this] True show ?thesis
    by (simp add: with_frame_def queued_def counts_for_def release_def)
next
  case False
  then show ?thesis using assms by (simp add: with_frame_def queued_def counts_for_def)
qed

text \<open>The frame being written stays at the front.\<close>

lemma with_frame_front:
  assumes "flags_ok p" "pr_writing p \<noteq> None"
  shows "hd (pr_outbound (with_frame f p)) = hd (pr_outbound p)"
proof (cases "replaces f p")
  case True
  then have "butlast (pr_outbound p) \<noteq> []"
    using assms by (cases "pr_outbound p" rule: rev_cases) (auto simp: replaces_def flags_ok_def)
  then show ?thesis
    using True by (cases "pr_outbound p" rule: rev_cases) (auto simp: with_frame_def)
next
  case False
  then show ?thesis using assms by (auto simp: with_frame_def flags_ok_def)
qed

lemma with_frame_flags:
  assumes "flags_ok p"
  shows "flags_ok (with_frame f p)"
proof (cases "pr_writing p")
  case None
  then show ?thesis using assms unfolding flags_ok_def with_frame_fields by blast
next
  case (Some w)
  then have "hd (pr_outbound (with_frame f p)) = hd (pr_outbound p)"
    using with_frame_front [OF assms] by simp
  then show ?thesis
    using assms with_frame_fields(14) [of f p] unfolding flags_ok_def with_frame_fields(1-13)
    by (elim conjE, intro conjI) (assumption | simp)+
qed

lemma run_frame_flags:
  assumes "flags_ok p" "busy_ok p" "\<not> stopping p"
  shows "flags_ok (run_frame f p) \<and> busy_ok (run_frame f p) \<and> pr_retry_delay (run_frame f p) = pr_retry_delay p"
proof (cases "pr_connected p")
  case True
  then show ?thesis
    using write_next_flags [OF with_frame_flags [OF assms(1)], of f] assms(3) by (simp add: run_frame_eq)
next
  case False
  have "busy_ok (with_frame f p)" if "replaces f p"
    using that assms(2) False by (simp add: busy_ok_def replaces_def)
  then show ?thesis
    using connect_flags [OF with_frame_flags [OF assms(1)], of f] with_frame_flags [OF assms(1)] assms(3) False
    by (simp add: run_frame_eq)
qed

lemma run_frame_fields:
  assumes "\<not> stopping p"
  shows "pr_posted (run_frame f p) = pr_posted p" "pr_stopped (run_frame f p) = pr_stopped p"
    "pr_stop_requested (run_frame f p) = pr_stop_requested p" "pr_sent (run_frame f p) = pr_sent p"
    "pr_outbound (run_frame f p) = pr_outbound (with_frame f p)"
  using assms by (simp_all add: run_frame_eq)

lemma run_frame_ok:
  assumes "frame_due f p"
  shows "peer_ok (run_frame f p)"
proof (cases "stopping p")
  case True
  then show ?thesis
    using assms counts_release [of "pr_outbound p" f "frames_of (pr_posted p)" p]
    by (simp add: frame_due_def run_frame_def peer_ok_def queued_def)
next
  case False
  have d: "counts_for (pr_outbound p @ f # frames_of (pr_posted p)) p" "flags_ok p" "busy_ok p"
    "pr_retry_delay p \<in> {20..500}" "\<not> pr_stopped p" "Post_stop \<notin> set (pr_posted p)"
    using assms False by (auto simp: frame_due_def stopping_def)
  have "counts_for (queued (run_frame f p)) (run_frame f p)"
    using with_frame_counts [OF d(1)] False by (simp add: run_frame_eq queued_def)
  then show ?thesis
    using run_frame_flags [OF d(2,3) False, of f] d run_frame_fields [OF False, of f]
    by (intro peer_okI) simp_all
qed

lemma fold_release_fields [simp]:
  "pr_posted (fold (\<lambda>f. release (length (pf_bytes f))) fs p) = pr_posted p"
  "pr_stopped (fold (\<lambda>f. release (length (pf_bytes f))) fs p) = pr_stopped p"
  "pr_stop_requested (fold (\<lambda>f. release (length (pf_bytes f))) fs p) = pr_stop_requested p"
  "pr_retry_delay (fold (\<lambda>f. release (length (pf_bytes f))) fs p) = pr_retry_delay p"
  by (induction fs arbitrary: p) simp_all

lemma stop_now_ok:
  assumes "peer_ok p" "pr_stop_requested p"
  shows "peer_ok (peer_stop_now p)"
proof (cases "pr_stopped p")
  case True
  then show ?thesis using assms by (simp add: peer_stop_now_def)
next
  case False
  let ?p1 = "p\<lparr>pr_stopped := True, pr_connected := False, pr_connect_in_progress := False,
      pr_write_in_progress := False, pr_retry_pending := False\<rparr>"
  have "counts_for (pr_outbound p @ frames_of (pr_posted p)) ?p1"
    using assms(1) by (simp add: peer_ok_def queued_def counts_for_def)
  from counts_release_all [OF this] show ?thesis
    using False assms
    by (intro peer_okI) (simp_all add: peer_stop_now_def Let_def queued_def counts_for_def stopping_def peer_ok_def)
qed

lemma run_posted_ok:
  assumes "peer_ok p" "pr_posted p = t # ts"
  shows "peer_ok (run_posted t (p\<lparr>pr_posted := ts\<rparr>))"
proof (cases t)
  case (Post_frame f)
  then have "frame_due f (p\<lparr>pr_posted := ts\<rparr>)"
    using assms by (simp add: peer_ok_def frame_due_def queued_def counts_for_def)
  then show ?thesis using Post_frame by (simp add: run_posted_def run_frame_ok)
next
  case Post_stop
  then have "peer_ok (p\<lparr>pr_posted := ts\<rparr>)" "pr_stop_requested p"
    using assms by (simp_all add: peer_ok_def queued_def counts_for_def)
  then show ?thesis using Post_stop by (simp add: run_posted_def stop_now_ok)
qed

text \<open>Completions: when the peer is stopping they change nothing that matters.\<close>

lemma peer_ok_stopping:
  assumes "peer_ok p" "stopping p" "pr_outbound p' = pr_outbound p" "pr_posted p' = pr_posted p"
    "pr_pending_frames p' = pr_pending_frames p" "pr_pending_bytes p' = pr_pending_bytes p"
    "pr_stopped p' = pr_stopped p" "pr_stop_requested p' = pr_stop_requested p"
    "pr_retry_delay p' = pr_retry_delay p"
  shows "peer_ok p'"
  using assms by (simp add: peer_ok_def queued_def counts_for_def stopping_def)

lemma peer_ok_going:
  assumes "peer_ok p" "\<not> stopping p"
  shows "flags_ok p" "busy_ok p" "pr_retry_delay p \<in> {20..500}" "\<not> pr_stopped p"
    "\<not> pr_stop_requested p" "Post_stop \<notin> set (pr_posted p)" "counts_for (queued p) p"
  using assms by (auto simp: peer_ok_def stopping_def)

lemma peer_ok_goingI:
  assumes "peer_ok p" "\<not> stopping p" "pr_outbound p' = pr_outbound p" "pr_posted p' = pr_posted p"
    "\<And>fs. counts_for fs p' = counts_for fs p"
    "pr_stopped p' = pr_stopped p" "pr_stop_requested p' = pr_stop_requested p"
    "flags_ok p' \<and> busy_ok p' \<and> pr_retry_delay p' \<in> {20..500}"
  shows "peer_ok p'"
  using assms(3-) peer_ok_going [OF assms(1,2)] by (intro peer_okI) (simp_all add: queued_def)

lemma counts_irrelevant [simp]:
  "counts_for fs (p\<lparr>pr_resolving := x\<rparr>) = counts_for fs p"
  "counts_for fs (p\<lparr>pr_connecting := x\<rparr>) = counts_for fs p"
  "counts_for fs (p\<lparr>pr_connect_in_progress := x\<rparr>) = counts_for fs p"
  "counts_for fs (p\<lparr>pr_connected := x\<rparr>) = counts_for fs p"
  "counts_for fs (p\<lparr>pr_retry_delay := d\<rparr>) = counts_for fs p"
  "counts_for fs (p\<lparr>pr_retry_pending := x\<rparr>) = counts_for fs p"
  "counts_for fs (p\<lparr>pr_timer := x\<rparr>) = counts_for fs p"
  "counts_for fs (p\<lparr>pr_writing := w\<rparr>) = counts_for fs p"
  "counts_for fs (p\<lparr>pr_write_in_progress := x\<rparr>) = counts_for fs p"
  "counts_for fs (p\<lparr>pr_sent := ss\<rparr>) = counts_for fs p"
  "counts_for fs (p\<lparr>pr_outbound := os\<rparr>) = counts_for fs p"
  "counts_for fs (p\<lparr>pr_posted := ts\<rparr>) = counts_for fs p"
  by (simp_all add: counts_for_def)

lemma on_resolve_ok:
  assumes "peer_ok p" "pr_resolving p"
  shows "peer_ok (on_resolve err (p\<lparr>pr_resolving := False\<rparr>))"
proof (cases "stopping p")
  case True
  then show ?thesis by (intro peer_ok_stopping [OF assms(1)]) (simp_all add: on_resolve_def)
next
  case False
  let ?q = "p\<lparr>pr_resolving := False, pr_connect_in_progress := False\<rparr>"
  note g = peer_ok_going [OF assms(1) False]
  have "flags_ok ?q" "\<not> pr_connected ?q" using g(1) assms(2) by (auto simp: flags_ok_def)
  from retry_flags [OF this] False g(3)
  have r: "flags_ok (schedule_retry ?q) \<and> busy_ok (schedule_retry ?q)
      \<and> pr_retry_delay (schedule_retry ?q) \<in> {20..500}" by simp
  have c: "flags_ok (p\<lparr>pr_resolving := False, pr_connecting := True\<rparr>)
      \<and> busy_ok (p\<lparr>pr_resolving := False, pr_connecting := True\<rparr>)"
    using g(1,2) assms(2) by (auto simp: flags_ok_def busy_ok_def)
  show ?thesis
    by (rule peer_ok_goingI [OF assms(1) False])
      (use False r c g(3) in \<open>simp_all add: on_resolve_def\<close>)
qed

lemma on_connect_ok:
  assumes "peer_ok p" "pr_connecting p"
  shows "peer_ok (on_connect err (p\<lparr>pr_connecting := False\<rparr>))"
proof (cases "stopping p")
  case True
  then show ?thesis by (intro peer_ok_stopping [OF assms(1)]) (simp_all add: on_connect_def Let_def)
next
  case False
  let ?q = "p\<lparr>pr_connecting := False, pr_connect_in_progress := False\<rparr>"
  let ?w = "?q\<lparr>pr_connected := True, pr_retry_delay := 20\<rparr>"
  note g = peer_ok_going [OF assms(1) False]
  have off: "\<not> pr_connected p" "pr_writing p = None" using g(1) assms(2) by (auto simp: flags_ok_def)
  have "flags_ok (mark_disconnected ?q)" "\<not> pr_connected (mark_disconnected ?q)"
    "\<not> pr_connect_in_progress (mark_disconnected ?q)" "pr_retry_delay (mark_disconnected ?q) = pr_retry_delay p"
    using g(1) assms(2) by (auto simp: flags_ok_def mark_disconnected_def)
  with retry_flags [of "mark_disconnected ?q"] False g(3)
  have "flags_ok (schedule_retry (mark_disconnected ?q)) \<and> busy_ok (schedule_retry (mark_disconnected ?q))
      \<and> pr_retry_delay (schedule_retry (mark_disconnected ?q)) \<in> {20..500}" by simp
  moreover have "flags_ok ?w" "\<not> pr_write_in_progress ?w"
    using g(1) assms(2) off by (auto simp: flags_ok_def)
  with write_next_flags [of ?w] False
  have "flags_ok (write_next ?w) \<and> busy_ok (write_next ?w) \<and> pr_retry_delay (write_next ?w) = 20" by simp
  ultimately show ?thesis
    by (intro peer_ok_goingI [OF assms(1) False]) (use False in \<open>simp_all add: on_connect_def Let_def\<close>)
qed

lemma on_write_ok:
  assumes "peer_ok p" "pr_writing p = Some frame"
  shows "peer_ok (on_write err frame (p\<lparr>pr_writing := None\<rparr>))"
proof (cases "stopping p")
  case True
  then show ?thesis by (intro peer_ok_stopping [OF assms(1)]) (simp_all add: on_write_def Let_def)
next
  case go: False
  let ?q = "p\<lparr>pr_writing := None, pr_write_in_progress := False\<rparr>"
  note g = peer_ok_going [OF assms(1) go]
  have out: "pr_connected p" "pr_outbound p \<noteq> []" "frame = pf_bytes (hd (pr_outbound p))"
    using g(1) assms(2) by (auto simp: flags_ok_def)
  show ?thesis
  proof (cases err)
    case True
    have "flags_ok (mark_disconnected ?q)" "\<not> pr_connected (mark_disconnected ?q)"
      "\<not> pr_connect_in_progress (mark_disconnected ?q)" "pr_retry_delay (mark_disconnected ?q) = pr_retry_delay p"
      using g(1) out by (auto simp: flags_ok_def mark_disconnected_def)
    with retry_flags [of "mark_disconnected ?q"] go g(3)
    have "flags_ok (schedule_retry (mark_disconnected ?q)) \<and> busy_ok (schedule_retry (mark_disconnected ?q))
      \<and> pr_retry_delay (schedule_retry (mark_disconnected ?q)) \<in> {20..500}" by simp
    then show ?thesis
      by (intro peer_ok_goingI [OF assms(1) go]) (use go True in \<open>simp_all add: on_write_def Let_def\<close>)
  next
    case False
    let ?w = "release (length frame) (?q\<lparr>pr_outbound := tl (pr_outbound p),
        pr_sent := pr_sent p @ [hd (pr_outbound p)]\<rparr>)"
    have e: "on_write err frame (p\<lparr>pr_writing := None\<rparr>) = write_next ?w"
      using False go by (simp add: on_write_def Let_def)
    have "queued p = [] @ hd (pr_outbound p) # (tl (pr_outbound p) @ frames_of (pr_posted p))"
      using out by (simp add: queued_def)
    then have "counts_for ([] @ hd (pr_outbound p) # (tl (pr_outbound p) @ frames_of (pr_posted p)))
        (?q\<lparr>pr_outbound := tl (pr_outbound p), pr_sent := pr_sent p @ [hd (pr_outbound p)]\<rparr>)"
      using g(7) by (simp only: counts_irrelevant)
    from counts_release [OF this]
    have c: "counts_for (tl (pr_outbound p) @ frames_of (pr_posted p)) ?w" by (simp add: out(3))
    have "flags_ok ?w" "pr_connected ?w" "\<not> pr_write_in_progress ?w"
      using g(1) out by (auto simp: flags_ok_def)
    with write_next_flags [of ?w] go
    have "flags_ok (write_next ?w) \<and> busy_ok (write_next ?w) \<and> pr_retry_delay (write_next ?w) = pr_retry_delay p"
      by simp
    then show ?thesis unfolding e using c g by (intro peer_okI) (simp_all add: queued_def)
  qed
qed

lemma on_retry_ok:
  assumes "peer_ok p" "pr_timer p" "err \<Longrightarrow> pr_stopped p"
  shows "peer_ok (on_retry err (p\<lparr>pr_timer := False\<rparr>))"
proof (cases "stopping p")
  case True
  then show ?thesis by (intro peer_ok_stopping [OF assms(1)]) (simp_all add: on_retry_def Let_def)
next
  case False
  let ?q = "p\<lparr>pr_timer := False, pr_retry_pending := False\<rparr>"
  note g = peer_ok_going [OF assms(1) False]
  have "flags_ok ?q" "\<not> pr_connected ?q" using g(1) assms(2) by (auto simp: flags_ok_def)
  from connect_flags [OF this] False
  have "flags_ok (peer_connect ?q) \<and> busy_ok (peer_connect ?q) \<and> pr_retry_delay (peer_connect ?q) = pr_retry_delay p"
    by simp
  moreover have "\<not> err" using assms(3) g(4) by blast
  ultimately show ?thesis
    by (intro peer_ok_goingI [OF assms(1) False]) (use False g(3) in \<open>simp_all add: on_retry_def Let_def\<close>)
qed

lemma peer_run_ok: "peer_run acc p \<Longrightarrow> peer_ok p"
proof (induction rule: peer_run.induct)
  case (accept acc p m bs p')
  then show ?case using enqueue_ok [of p m bs] by simp
next
  case (refuse acc p m bs p')
  then show ?case using enqueue_ok [of p m bs] by simp
qed (simp_all add: new_peer_ok enqueue_throws_same run_posted_ok on_resolve_ok on_connect_ok on_write_ok on_retry_ok request_stop_ok)

subsection \<open>Properties\<close>

text \<open>
  C36. The queue to a peer is bounded and its accounting is exact: in every run the counters
  equal the number and the size of the frames that are queued, at most 512 frames and one
  maximal frame of bytes, and a stopped peer whose handlers have run holds no reservation.
\<close>

theorem peer_queue_bounded:
  assumes "peer_run acc p"
  shows "pr_pending_frames p = length (queued p) \<and> pr_pending_bytes p = frame_bytes (queued p)
     \<and> pr_pending_frames p \<le> kMaxPendingFrames \<and> pr_pending_bytes p \<le> kMaxPendingBytes
     \<and> (pr_stopped p \<and> pr_posted p = [] \<longrightarrow> pr_pending_frames p = 0 \<and> pr_pending_bytes p = 0)"
  using peer_run_ok [OF assms] by (auto simp: peer_ok_def counts_for_def queued_def)

text \<open>
  C37. The sender never gets stuck: while it is not stopping and has a frame to send, Asio has
  exactly one of a write of the front frame, a resolution, a connection attempt or a retry
  wait outstanding, and the wait is between 20 and 500 milliseconds.
\<close>

theorem peer_never_stuck:
  assumes "peer_run acc p" "\<not> stopping p" "pr_outbound p \<noteq> []"
  shows "(pr_writing p = Some (pf_bytes (hd (pr_outbound p))) \<and> pr_connected p
       \<or> pr_resolving p \<or> pr_connecting p \<or> pr_timer p)
     \<and> length (filter id [pr_writing p \<noteq> None, pr_resolving p, pr_connecting p, pr_timer p]) = 1
     \<and> pr_retry_delay p \<in> {20..500}"
proof -
  note g = peer_ok_going [OF peer_run_ok [OF assms(1)] assms(2)]
  show ?thesis
  proof (cases "pr_connected p")
    case True
    then show ?thesis using g(1-3) assms(3) by (auto simp: flags_ok_def busy_ok_def)
  next
    case False
    then have "pr_writing p = None" using g(1) by (auto simp: flags_ok_def)
    with False show ?thesis using g(1-3) assms(3) by (auto simp: flags_ok_def busy_ok_def)
  qed
qed

text \<open>An AppendEntries frame directly before one of the same stream is dropped.\<close>

definition superseded :: "pending_frame list \<Rightarrow> pending_frame list \<Rightarrow> bool" where
  "superseded xs ys \<longleftrightarrow> (\<exists>as g f bs. xs = as @ g # f # bs \<and> ys = as @ f # bs
     \<and> same_append_stream g f \<and> pf_replaceable_append f)"

lemma superseded_append: "superseded xs ys \<Longrightarrow> superseded (xs @ zs) (ys @ zs)"
  by (fastforce simp: superseded_def)

lemma superseded_steps_append: "superseded\<^sup>*\<^sup>* xs ys \<Longrightarrow> superseded\<^sup>*\<^sup>* (xs @ zs) (ys @ zs)"
  by (induction rule: rtranclp_induct) (auto dest: superseded_append intro: rtranclp.rtrancl_into_rtrancl)

lemma superseded_facts:
  "superseded\<^sup>*\<^sup>* xs ys \<Longrightarrow> subseq ys xs
     \<and> filter (\<lambda>f. \<not> pf_replaceable_append f) ys = filter (\<lambda>f. \<not> pf_replaceable_append f) xs"
proof (induction rule: rtranclp_induct)
  case (step ys zs)
  then obtain as g f bs where s: "ys = as @ g # f # bs" "zs = as @ f # bs" "pf_replaceable_append g"
    by (auto simp: superseded_def same_append_stream_def)
  then have "subseq zs ys" by (simp add: list_emb_append_mono list_emb_Cons)
  with step.IH s show ?case by (auto intro: subseq_order.trans)
qed simp

definition in_order :: "pending_frame list \<Rightarrow> peer \<Rightarrow> bool" where
  "in_order acc p \<longleftrightarrow> stopping p \<or> superseded\<^sup>*\<^sup>* acc (pr_sent p @ queued p)"

lemma in_order_same:
  assumes "in_order acc p" "stopping p \<Longrightarrow> stopping p'" "pr_sent p' @ queued p' = pr_sent p @ queued p"
  shows "in_order acc p'"
  using assms by (auto simp: in_order_def)

lemma with_frame_superseded:
  "superseded\<^sup>*\<^sup>* (pr_sent p @ pr_outbound p @ f # ts) (pr_sent p @ pr_outbound (with_frame f p) @ ts)"
proof (cases "replaces f p")
  case True
  then have o: "pr_outbound p = butlast (pr_outbound p) @ [last (pr_outbound p)]"
    and r: "same_append_stream (last (pr_outbound p)) f" "pf_replaceable_append f"
    by (simp_all add: replaces_def)
  have "superseded ((pr_sent p @ butlast (pr_outbound p)) @ last (pr_outbound p) # f # ts)
      ((pr_sent p @ butlast (pr_outbound p)) @ f # ts)"
    using r unfolding superseded_def by blast
  moreover have e: "pr_sent p @ pr_outbound p @ f # ts =
      (pr_sent p @ butlast (pr_outbound p)) @ last (pr_outbound p) # f # ts"
    by (subst o) simp
  ultimately show ?thesis unfolding e using True by (simp add: with_frame_def r_into_rtranclp)
next
  case False
  then show ?thesis by (simp add: with_frame_def)
qed

lemma run_posted_in_order:
  assumes "peer_ok p" "in_order acc p" "pr_posted p = t # ts"
  shows "in_order acc (run_posted t (p\<lparr>pr_posted := ts\<rparr>))"
proof (cases "stopping p")
  case True
  then have "stopping (run_posted t (p\<lparr>pr_posted := ts\<rparr>))"
    by (auto simp: run_posted_def run_frame_def peer_stop_now_def Let_def stopping_def split: posted.split)
  then show ?thesis by (simp add: in_order_def)
next
  case False
  let ?p = "p\<lparr>pr_posted := ts\<rparr>"
  obtain f where t: "t = Post_frame f"
    using peer_ok_going(6) [OF assms(1) False] assms(3) by (cases t) auto
  have "superseded\<^sup>*\<^sup>* acc (pr_sent p @ pr_outbound p @ f # frames_of ts)"
    using assms(2,3) False t by (simp add: in_order_def queued_def)
  also have "superseded\<^sup>*\<^sup>* \<dots> (pr_sent p @ pr_outbound (with_frame f ?p) @ frames_of ts)"
    using with_frame_superseded [of ?p f "frames_of ts"] by simp
  finally show ?thesis
    using run_frame_fields [of ?p f] False t by (simp add: run_posted_def in_order_def queued_def)
qed

lemma on_write_in_order:
  assumes "peer_ok p" "in_order acc p" "pr_writing p = Some frame"
  shows "in_order acc (on_write err frame (p\<lparr>pr_writing := None\<rparr>))"
proof (cases "stopping p")
  case True
  then show ?thesis by (simp add: in_order_def on_write_def Let_def)
next
  case False
  obtain f fs where "pr_outbound p = f # fs"
    using peer_ok_going(1) [OF assms(1) False] assms(3) by (auto simp: flags_ok_def neq_Nil_conv)
  with assms(2) False show ?thesis by (simp add: in_order_def on_write_def Let_def queued_def)
qed

lemma peer_run_in_order: "peer_run acc p \<Longrightarrow> in_order acc p"
proof (induction rule: peer_run.induct)
  case new
  show ?case by (simp add: in_order_def new_peer_def queued_def)
next
  case (accept acc p m bs p')
  then have q: "queued p' = queued p @ [frame_for m bs]" "pr_sent p' = pr_sent p" "stopping p' = stopping p"
    by (auto simp: enqueue_def reserve_def queued_def split: if_splits)
  show ?case
    using accept.IH superseded_steps_append [of acc "pr_sent p @ queued p" "[frame_for m bs]"]
    by (auto simp: in_order_def q)
next
  case (refuse acc p m bs p')
  then show ?case by (auto simp: enqueue_def reserve_def split: if_splits)
next
  case (throws acc p bs)
  then show ?case using enqueue_throws_same [OF peer_run_ok [OF throws.hyps]] by simp
next
  case (posted acc p t ts)
  then show ?case using run_posted_in_order peer_run_ok by blast
next
  case (written acc p frame err)
  then show ?case using on_write_in_order peer_run_ok by blast
qed (auto elim!: in_order_same simp: on_resolve_def on_connect_def on_retry_def peer_request_stop_def
    queued_def Let_def stopping_def)

text \<open>
  C38. Nothing is lost or reordered on the way to a peer that is not stopping: what was
  written followed by what is still queued is the accepted frames in order, without the
  AppendEntries frames that were directly followed by a newer one of the same term, sender,
  receiver and read round; in particular every other frame is still there.
\<close>

theorem peer_keeps_order:
  assumes "peer_run acc p" "\<not> stopping p"
  shows "superseded\<^sup>*\<^sup>* acc (pr_sent p @ queued p) \<and> subseq (pr_sent p @ queued p) acc
     \<and> filter (\<lambda>f. \<not> pf_replaceable_append f) (pr_sent p @ queued p) =
         filter (\<lambda>f. \<not> pf_replaceable_append f) acc"
proof -
  have "superseded\<^sup>*\<^sup>* acc (pr_sent p @ queued p)"
    using peer_run_in_order [OF assms(1)] assms(2) by (simp add: in_order_def)
  with superseded_facts [OF this] show ?thesis by blast
qed

subsection \<open>A run\<close>

text \<open>Two heartbeats are accepted; the peer connects and writes the newer one.\<close>

definition ex_beat :: "nat \<Rightarrow> pending_frame" where
  "ex_beat n = frame_for ex_ping (replicate n 0)"

lemma ex_peer_run: "peer_run [ex_beat 6, ex_beat 7]
    (new_peer\<lparr>pr_outbound := [ex_beat 7], pr_pending_frames := 1, pr_pending_bytes := 7,
      pr_connect_in_progress := True, pr_resolving := True\<rparr>)"
proof -
  have u: "two64 = 18446744073709551616" by (simp add: two64_def)
  have b: "pf_bytes (ex_beat n) = replicate n 0" "pf_replaceable_append (ex_beat n)"
      "same_append_stream (ex_beat n) (ex_beat k)" for n k
    by (simp_all add: ex_beat_def frame_for_def ex_ping_def same_append_stream_def)
  let ?p1 = "new_peer\<lparr>pr_pending_frames := 1, pr_pending_bytes := 6, pr_posted := [Post_frame (ex_beat 6)]\<rparr>"
  let ?p2 = "?p1\<lparr>pr_pending_frames := 2, pr_pending_bytes := 13,
      pr_posted := [Post_frame (ex_beat 6), Post_frame (ex_beat 7)]\<rparr>"
  have "enqueue ex_ping (replicate 6 0) new_peer = (True, ?p1)"
    by (simp add: enqueue_def reserve_def new_peer_def ex_beat_def kMaxPendingFrames_def
        kMaxPendingBytes_def kMaxPayloadSize_def kHeaderSize_def u64_inc_def u64_add_def u64_sub_def u64_def u)
  from peer_run.accept [OF peer_run.new this] have 1: "peer_run [ex_beat 6] ?p1" by (simp add: ex_beat_def)
  have "enqueue ex_ping (replicate 7 0) ?p1 = (True, ?p2)"
    by (simp add: enqueue_def reserve_def new_peer_def ex_beat_def kMaxPendingFrames_def
        kMaxPendingBytes_def kMaxPayloadSize_def kHeaderSize_def u64_inc_def u64_add_def u64_sub_def u64_def u)
  from peer_run.accept [OF 1 this] have 2: "peer_run [ex_beat 6, ex_beat 7] ?p2" by (simp add: ex_beat_def)
  have "pr_posted ?p2 = Post_frame (ex_beat 6) # [Post_frame (ex_beat 7)]" by simp
  from peer_run.posted [OF 2 this]
  have 3: "peer_run [ex_beat 6, ex_beat 7] (?p2\<lparr>pr_posted := [Post_frame (ex_beat 7)],
      pr_outbound := [ex_beat 6], pr_connect_in_progress := True, pr_resolving := True\<rparr>)"
    by (simp add: run_posted_def run_frame_eq stopping_def new_peer_def replaces_def with_frame_def
        peer_connect_def)
  from peer_run.posted [OF 3, of "Post_frame (ex_beat 7)" "[]"] show ?thesis
    by (simp add: run_posted_def run_frame_eq stopping_def new_peer_def replaces_def with_frame_def b
        release_def u64_dec_def u64_sub_def u64_def u)
qed

theorem peer_queue_bounded_witness:
  "frame_bytes (queued (new_peer\<lparr>pr_outbound := [ex_beat 7], pr_pending_frames := 1,
     pr_pending_bytes := 7, pr_connect_in_progress := True, pr_resolving := True\<rparr>)) = 7"
  using peer_queue_bounded [OF ex_peer_run] by simp

theorem peer_never_stuck_witness:
  "peer_run [ex_beat 6, ex_beat 7]
      (new_peer\<lparr>pr_outbound := [ex_beat 7], pr_pending_frames := 1, pr_pending_bytes := 7,
        pr_connect_in_progress := True, pr_resolving := True\<rparr>)
   \<and> length (filter id [False, True, False, False]) = (1::nat)"
proof -
  have "\<not> stopping (new_peer\<lparr>pr_outbound := [ex_beat 7], pr_pending_frames := 1, pr_pending_bytes := 7,
      pr_connect_in_progress := True, pr_resolving := True\<rparr>)" by (simp add: stopping_def new_peer_def)
  from peer_never_stuck [OF ex_peer_run this] ex_peer_run show ?thesis by (simp add: new_peer_def)
qed

theorem peer_keeps_order_witness:
  "superseded\<^sup>*\<^sup>* [ex_beat 6, ex_beat 7] [ex_beat 7]"
proof -
  have "\<not> stopping (new_peer\<lparr>pr_outbound := [ex_beat 7], pr_pending_frames := 1, pr_pending_bytes := 7,
      pr_connect_in_progress := True, pr_resolving := True\<rparr>)" by (simp add: stopping_def new_peer_def)
  from peer_keeps_order [OF ex_peer_run this] show ?thesis by (simp add: new_peer_def queued_def)
qed

end
