(* ===== verification/Resp_Codec.thy ===== *)
theory Resp_Codec
  imports Text
begin

text \<open>
  The RESP codec, \<^verbatim>\<open>src/server/resp_codec.h\<close> and \<^verbatim>\<open>src/server/resp_codec.cpp\<close>: the
  incremental decoder of client commands with its limits, and the reply encoders. The cursor
  of the source is the list of characters still to read.
\<close>

subsection \<open>Data\<close>

type_synonym resp_command = "string list"

record resp_limits =
  max_buffer_bytes :: nat
  max_array_elements :: nat
  max_bulk_string_bytes :: nat

definition default_limits :: resp_limits where
  "default_limits = \<lparr>max_buffer_bytes = 2 * 1024 * 1024, max_array_elements = 1024,
     max_bulk_string_bytes = 1024 * 1024\<rparr>"

record resp_decoder =
  d_limits :: resp_limits
  d_buffer :: string

abbreviation CR :: char where "CR \<equiv> CHR 0x0D"
abbreviation LF :: char where "LF \<equiv> CHR 0x0A"

subsection \<open>Parsing\<close>

text \<open>The line up to the first CRLF and what follows it; \<open>None\<close> when there is none.\<close>

fun read_line :: "string \<Rightarrow> (string \<times> string) option" where
  "read_line [] = None"
| "read_line (c # cs) =
     (if c = CR \<and> cs \<noteq> [] \<and> hd cs = LF then Some ([], tl cs)
      else case read_line cs of None \<Rightarrow> None | Some (l, r) \<Rightarrow> Some (c # l, r))"

definition parse_size :: "string \<Rightarrow> exn + nat" where
  "parse_size value =
     (if value = [] then Inl Resp_protocol_error
      else case from_chars two64 value of
             None \<Rightarrow> Inl Resp_protocol_error
           | Some (n, read) \<Rightarrow>
               if read \<noteq> length value then Inl Resp_protocol_error else Inr n)"

text \<open>
  A parse has three outcomes: an exception, \<open>Inr None\<close> when the input ends too early, and
  \<open>Inr (Some _)\<close>. \<open>parse_arguments\<close> is the loop over the bulk strings; it returns the
  arguments and the rest of the input.
\<close>

fun parse_arguments ::
  "resp_limits \<Rightarrow> nat \<Rightarrow> string \<Rightarrow> exn + (string list \<times> string) option" where
  "parse_arguments limits 0 input = Inr (Some ([], input))"
| "parse_arguments limits (Suc k) input =
     (if input = [] then Inr None
      else if hd input \<noteq> CHR ''$'' then Inl Resp_protocol_error
      else case read_line (tl input) of
             None \<Rightarrow> Inr None
           | Some (line, rest) \<Rightarrow>
               (case parse_size line of
                  Inl x \<Rightarrow> Inl x
                | Inr n \<Rightarrow>
                    if n > max_bulk_string_bytes limits then Inl Resp_protocol_error
                    else if n > length rest then Inr None
                    else if length rest - n < 2 then Inr None
                    else if rest ! n \<noteq> CR \<or> rest ! (n + 1) \<noteq> LF then Inl Resp_protocol_error
                    else (case parse_arguments limits k (drop (n + 2) rest) of
                            Inl x \<Rightarrow> Inl x
                          | Inr None \<Rightarrow> Inr None
                          | Inr (Some (args, rest')) \<Rightarrow> Inr (Some (take n rest # args, rest')))))"

definition parse_command :: "resp_limits \<Rightarrow> string \<Rightarrow> exn + (resp_command \<times> nat) option" where
  "parse_command limits input =
     (if input = [] then Inr None
      else if hd input \<noteq> CHR ''*'' then Inl Resp_protocol_error
      else case read_line (tl input) of
             None \<Rightarrow> Inr None
           | Some (line, rest) \<Rightarrow>
               (case parse_size line of
                  Inl x \<Rightarrow> Inl x
                | Inr count \<Rightarrow>
                    if count > max_array_elements limits then Inl Resp_protocol_error
                    else (case parse_arguments limits count rest of
                            Inl x \<Rightarrow> Inl x
                          | Inr None \<Rightarrow> Inr None
                          | Inr (Some (args, rest')) \<Rightarrow>
                              Inr (Some (args, length input - length rest')))))"

lemma read_line_split: "read_line cs = Some (l, r) \<Longrightarrow> cs = l @ [CR, LF] @ r"
  by (induction cs arbitrary: l)
    (auto split: if_splits option.splits simp: hd_Cons_tl neq_Nil_conv)

lemma parse_arguments_suffix:
  "parse_arguments limits k input = Inr (Some (args, rest)) \<Longrightarrow> \<exists>used. input = used @ rest"
proof (induction k arbitrary: input args)
  case 0
  then show ?case by simp
next
  case (Suc k)
  then obtain line r n args' where *: "read_line (tl input) = Some (line, r)" "input \<noteq> []"
    "parse_arguments limits k (drop (n + 2) r) = Inr (Some (args', rest))"
    by (auto split: if_splits option.splits sum.splits)
  from Suc.IH [OF *(3)] obtain used where "drop (n + 2) r = used @ rest" by blast
  then have "r = take (n + 2) r @ used @ rest" using append_take_drop_id [of "n + 2" r] by simp
  then obtain used' where "r = used' @ rest" by (metis append.assoc)
  moreover obtain h where "input = h # line @ [CR, LF] @ r"
    using read_line_split [OF *(1)] *(2) by (cases input) auto
  ultimately have "input = (h # line @ [CR, LF] @ used') @ rest" by simp
  then show ?case by blast
qed

text \<open>A parsed command consumes at least one character, so the loop of \<^verbatim>\<open>feed\<close> ends.\<close>

lemma parse_command_consumed:
  assumes "parse_command limits input = Inr (Some (cmd, n))"
  shows "0 < n \<and> n \<le> length input"
proof -
  obtain line r count rest where *: "input \<noteq> []" "read_line (tl input) = Some (line, r)"
    "parse_arguments limits count r = Inr (Some (cmd, rest))" "n = length input - length rest"
    using assms by (auto simp: parse_command_def split: if_splits option.splits sum.splits)
  obtain used where "r = used @ rest" using parse_arguments_suffix [OF *(3)] by blast
  moreover obtain h where "input = h # line @ [CR, LF] @ r"
    using read_line_split [OF *(2)] *(1) by (cases input) auto
  ultimately show ?thesis using *(4) by simp
qed

subsection \<open>The decoder\<close>

text \<open>
  The loop of \<^verbatim>\<open>feed\<close> on the buffer. An exception leaves the buffer as the parses before it
  left it, and drops the commands they gave.
\<close>

function drain :: "resp_limits \<Rightarrow> string \<Rightarrow> (exn + resp_command list) \<times> string" where
  "drain limits buffer =
     (case parse_command limits buffer of
        Inl x \<Rightarrow> (Inl x, buffer)
      | Inr None \<Rightarrow> (Inr [], buffer)
      | Inr (Some (cmd, n)) \<Rightarrow>
          (case drain limits (drop n buffer) of
             (Inl x, rest) \<Rightarrow> (Inl x, rest)
           | (Inr cmds, rest) \<Rightarrow> (Inr (cmd # cmds), rest)))"
  by auto
termination
  by (relation "measure (length \<circ> snd)") (auto dest: parse_command_consumed)

declare drain.simps [simp del]

text \<open>The three ways a pass of the loop can go.\<close>

lemma parse_command_cases:
  obtains (error) x where "parse_command limits buffer = Inl x"
    | (more) "parse_command limits buffer = Inr None"
    | (command) c n where "parse_command limits buffer = Inr (Some (c, n))"
  by (cases "parse_command limits buffer") (auto, metis option.exhaust surj_pair)

lemma drain_pass:
  "parse_command limits buffer = Inl x \<Longrightarrow> drain limits buffer = (Inl x, buffer)"
  "parse_command limits buffer = Inr None \<Longrightarrow> drain limits buffer = (Inr [], buffer)"
  "parse_command limits buffer = Inr (Some (c, n)) \<Longrightarrow> drain limits buffer =
     (case drain limits (drop n buffer) of
        (Inl x, rest) \<Rightarrow> (Inl x, rest) | (Inr cmds, rest) \<Rightarrow> (Inr (c # cmds), rest))"
  by (simp_all add: drain.simps [of limits buffer])

definition feed :: "string \<Rightarrow> resp_decoder \<Rightarrow> (exn + resp_command list) \<times> resp_decoder" where
  "feed bytes d =
     (if length bytes > u64_sub (max_buffer_bytes (d_limits d)) (length (d_buffer d))
      then (Inl Resp_protocol_error, d)
      else (case drain (d_limits d) (d_buffer d @ bytes) of
              (r, rest) \<Rightarrow> (r, d\<lparr>d_buffer := rest\<rparr>)))"

definition buffered_bytes :: "resp_decoder \<Rightarrow> nat" where
  "buffered_bytes d = length (d_buffer d)"

subsection \<open>Replies\<close>

definition has_line_break :: "string \<Rightarrow> bool" where
  "has_line_break s \<longleftrightarrow> CR \<in> set s \<or> LF \<in> set s"

definition encode_simple_string :: "string \<Rightarrow> exn + string" where
  "encode_simple_string value =
     (if has_line_break value then Inl Resp_protocol_error
      else Inr (CHR ''+'' # value @ [CR, LF]))"

definition encode_bulk_string :: "string \<Rightarrow> string" where
  "encode_bulk_string value =
     CHR ''$'' # to_string (length value) @ [CR, LF] @ value @ [CR, LF]"

definition encode_nil_bulk_string :: string where
  "encode_nil_bulk_string = ''$-1'' @ [CR, LF]"

definition encode_integer :: "int \<Rightarrow> string" where
  "encode_integer value =
     CHR '':'' # (if value < 0 then CHR ''-'' # to_string (nat (- value)) else to_string (nat value))
       @ [CR, LF]"

definition encode_error :: "string \<Rightarrow> exn + string" where
  "encode_error value =
     (if has_line_break value then Inl Resp_protocol_error
      else Inr (CHR ''-'' # value @ [CR, LF]))"

subsection \<open>More input never changes what was decided\<close>

lemma read_line_append: "read_line cs = Some (l, r) \<Longrightarrow> read_line (cs @ xs) = Some (l, r @ xs)"
  by (induction cs arbitrary: l) (auto split: if_splits option.splits simp: hd_append)

lemma read_line_line: "CR \<notin> set l \<Longrightarrow> read_line (l @ CR # LF # r) = Some (l, r)"
  by (induction l) auto

definition extended :: "string \<Rightarrow> exn + ('a \<times> string) option \<Rightarrow> exn + ('a \<times> string) option" where
  "extended xs = map_sum id (map_option (apsnd (\<lambda>r. r @ xs)))"

lemma parse_arguments_extended:
  "parse_arguments limits k input \<noteq> Inr None \<Longrightarrow>
     parse_arguments limits k (input @ xs) = extended xs (parse_arguments limits k input)"
proof (induction k arbitrary: input)
  case 0
  show ?case by (simp add: extended_def)
next
  case (Suc k)
  show ?case
  proof (cases "hd input = CHR ''$''")
    case False
    then show ?thesis using Suc.prems by (auto simp: extended_def)
  next
    case True
    then obtain line rest where rl: "input \<noteq> []" "read_line (tl input) = Some (line, rest)"
      using Suc.prems by (cases "read_line (tl input)") (auto split: if_splits)
    note rl' = read_line_append [OF rl(2), of xs]
    show ?thesis
    proof (cases "parse_size line")
      case (Inl x)
      then show ?thesis using True rl rl' by (simp add: extended_def)
    next
      case (Inr n)
      show ?thesis
      proof (cases "max_bulk_string_bytes limits < n")
        case True
        then show ?thesis using \<open>hd input = _\<close> rl rl' Inr by (simp add: extended_def)
      next
        case False
        have n: "n \<le> length rest" "Suc n < length rest"
          using Suc.prems True False rl Inr by (auto split: if_splits)
        have cr: "(rest @ xs) ! n = rest ! n" "(rest @ xs) ! Suc n = rest ! Suc n"
          using n by (simp_all add: nth_append)
        show ?thesis
        proof (cases "rest ! n = CR \<and> rest ! Suc n = LF")
          case crlf: True
          have "parse_arguments limits k (drop (n + 2) rest) \<noteq> Inr None"
            using Suc.prems True False rl Inr n crlf by (auto split: if_splits)
          from Suc.IH [OF this] show ?thesis
            using True False rl rl' Inr n cr crlf
            by (auto simp: extended_def split: sum.split option.split)
        next
          case nocrlf: False
          then show ?thesis using True False rl rl' Inr n cr by (auto simp: extended_def)
        qed
      qed
    qed
  qed
qed

lemma parse_command_append:
  assumes "parse_command limits input \<noteq> Inr None"
  shows "parse_command limits (input @ xs) = parse_command limits input"
proof (cases "hd input = CHR ''*''")
  case False
  then show ?thesis using assms by (auto simp: parse_command_def)
next
  case True
  then obtain line rest where rl: "input \<noteq> []" "read_line (tl input) = Some (line, rest)"
    using assms by (cases "read_line (tl input)") (auto simp: parse_command_def split: if_splits)
  note rl' = read_line_append [OF rl(2), of xs]
  show ?thesis
  proof (cases "parse_size line")
    case (Inl x)
    then show ?thesis using True rl rl' by (simp add: parse_command_def)
  next
    case (Inr n)
    show ?thesis
    proof (cases "max_array_elements limits < n")
      case True
      then show ?thesis using \<open>hd input = _\<close> rl rl' Inr by (simp add: parse_command_def)
    next
      case False
      have "parse_arguments limits n rest \<noteq> Inr None"
        using assms True False rl Inr by (auto simp: parse_command_def)
      from parse_arguments_extended [OF this] show ?thesis
        using True False rl rl' Inr
        by (auto simp: parse_command_def extended_def split: sum.split option.split)
    qed
  qed
qed

lemma drain_append:
  "drain limits (buffer @ xs) =
     (case drain limits buffer of
        (Inl x, rest) \<Rightarrow> (Inl x, rest @ xs)
      | (Inr cs, rest) \<Rightarrow>
          (case drain limits (rest @ xs) of
             (Inl x, rest') \<Rightarrow> (Inl x, rest')
           | (Inr ds, rest') \<Rightarrow> (Inr (cs @ ds), rest')))"
proof (induction limits buffer rule: drain.induct)
  case (1 limits buffer)
  show ?case
  proof (cases rule: parse_command_cases [of limits buffer])
    case error
    then show ?thesis
      using parse_command_append [of limits buffer xs] by (simp add: drain_pass)
  next
    case more
    then show ?thesis by (simp add: drain_pass split: prod.split sum.split)
  next
    case (command c n)
    have n: "n \<le> length buffer" using parse_command_consumed [OF command] by simp
    have "parse_command limits (buffer @ xs) = Inr (Some (c, n))"
      using parse_command_append [of limits buffer xs] command by simp
    from drain_pass(3) [OF this] drain_pass(3) [OF command] 1 [OF command refl refl] n
    show ?thesis by (simp split: prod.splits sum.splits)
  qed
qed

subsection \<open>Properties of the decoder\<close>

definition decoder_ok :: "resp_decoder \<Rightarrow> bool" where
  "decoder_ok d \<longleftrightarrow>
     length (d_buffer d) \<le> max_buffer_bytes (d_limits d) \<and> max_buffer_bytes (d_limits d) < two64"

lemma feed_room:
  assumes "decoder_ok d"
  shows "length bytes > u64_sub (max_buffer_bytes (d_limits d)) (length (d_buffer d)) \<longleftrightarrow>
    length (d_buffer d) + length bytes > max_buffer_bytes (d_limits d)"
  using assms by (auto simp: decoder_ok_def u64_sub_id)

lemma feed_drain:
  assumes "decoder_ok d" "length (d_buffer d) + length bytes \<le> max_buffer_bytes (d_limits d)"
  shows "feed bytes d = (case drain (d_limits d) (d_buffer d @ bytes) of
      (r, rest) \<Rightarrow> (r, d\<lparr>d_buffer := rest\<rparr>))"
  using assms by (simp add: feed_def feed_room)

lemma drain_rest: "length (snd (drain limits buffer)) \<le> length buffer"
proof (induction limits buffer rule: drain.induct)
  case (1 limits buffer)
  show ?case
  proof (cases rule: parse_command_cases [of limits buffer])
    case (command c n)
    from drain_pass(3) [OF command] 1 [OF command refl refl] show ?thesis
      by (simp split: prod.splits sum.splits)
  qed (simp_all add: drain_pass)
qed


text \<open>Parsed commands respect the limits.\<close>

definition command_in_limits :: "resp_limits \<Rightarrow> resp_command \<Rightarrow> bool" where
  "command_in_limits limits args \<longleftrightarrow>
     length args \<le> max_array_elements limits
     \<and> list_all (\<lambda>a. length a \<le> max_bulk_string_bytes limits) args"

lemma parse_arguments_limits:
  "parse_arguments limits k input = Inr (Some (args, rest)) \<Longrightarrow>
     length args = k \<and> list_all (\<lambda>a. length a \<le> max_bulk_string_bytes limits) args"
  by (induction k arbitrary: input args)
    (auto split: if_splits option.splits sum.splits)

lemma parse_command_limits:
  assumes "parse_command limits input = Inr (Some (cmd, n))"
  shows "command_in_limits limits cmd"
proof -
  obtain count r rest where "parse_arguments limits count r = Inr (Some (cmd, rest))"
      "count \<le> max_array_elements limits"
    using assms by (auto simp: parse_command_def split: if_splits option.splits sum.splits)
  then show ?thesis using parse_arguments_limits by (auto simp: command_in_limits_def)
qed

lemma drain_limits:
  "drain limits buffer = (Inr cmds, rest) \<Longrightarrow>
     list_all (command_in_limits limits) cmds \<and> parse_command limits rest = Inr None"
proof (induction limits buffer arbitrary: cmds rest rule: drain.induct)
  case (1 limits buffer)
  show ?case
  proof (cases rule: parse_command_cases [of limits buffer])
    case (command c n)
    obtain cs where "drain limits (drop n buffer) = (Inr cs, rest)" "cmds = c # cs"
      using 1(2) drain_pass(3) [OF command] by (simp split: prod.splits sum.splits)
    with 1(1) [OF command refl refl] parse_command_limits [OF command] show ?thesis by simp
  qed (use 1(2) in \<open>simp_all add: drain_pass\<close>)
qed

lemma feed_limits:
  assumes "decoder_ok d" "feed bytes d = (r, d')"
  shows "decoder_ok d'" "d_limits d' = d_limits d"
proof -
  have "decoder_ok d' \<and> d_limits d' = d_limits d"
  proof (cases "length (d_buffer d) + length bytes > max_buffer_bytes (d_limits d)")
    case True
    then show ?thesis using assms feed_room [OF assms(1), of bytes] by (auto simp: feed_def)
  next
    case False
    then obtain rest where dr: "drain (d_limits d) (d_buffer d @ bytes) = (r, rest)"
        "d' = d\<lparr>d_buffer := rest\<rparr>"
      using assms feed_drain [OF assms(1), of bytes] by (auto split: prod.splits)
    have "length rest \<le> length (d_buffer d) + length bytes"
      using drain_rest [of "d_limits d" "d_buffer d @ bytes"] dr by simp
    then show ?thesis using False dr assms(1) by (auto simp: decoder_ok_def)
  qed
  then show "decoder_ok d'" "d_limits d' = d_limits d" by simp_all
qed

text \<open>
  C33. The limits hold whatever a client sends: the buffer never exceeds its limit, every
  command returned has at most the permitted number of arguments, each of at most the
  permitted length, and after a successful call the buffer holds no complete command.
\<close>

theorem feed_respects_limits:
  assumes "decoder_ok d" "feed bytes d = (r, d')"
  shows "decoder_ok d' \<and> d_limits d' = d_limits d
     \<and> (\<forall>cmds. r = Inr cmds \<longrightarrow> list_all (command_in_limits (d_limits d)) cmds
          \<and> parse_command (d_limits d') (d_buffer d') = Inr None)
     \<and> (length (d_buffer d) + length bytes > max_buffer_bytes (d_limits d) \<longrightarrow>
          r = Inl Resp_protocol_error \<and> d' = d)"
proof (cases "length (d_buffer d) + length bytes > max_buffer_bytes (d_limits d)")
  case True
  then have "feed bytes d = (Inl Resp_protocol_error, d)"
    using feed_room [OF assms(1), of bytes] by (simp add: feed_def)
  then have "r = Inl Resp_protocol_error" "d' = d" using assms(2) by simp_all
  then show ?thesis using assms(1) by simp
next
  case False
  then obtain rest where dr: "drain (d_limits d) (d_buffer d @ bytes) = (r, rest)"
      "d' = d\<lparr>d_buffer := rest\<rparr>"
    using assms feed_drain [OF assms(1), of bytes] by (auto split: prod.splits)
  have "list_all (command_in_limits (d_limits d)) cmds
      \<and> parse_command (d_limits d') (d_buffer d') = Inr None" if "r = Inr cmds" for cmds
    using drain_limits [of "d_limits d" "d_buffer d @ bytes" cmds rest] dr that by simp
  then show ?thesis using False feed_limits [OF assms] by simp
qed

subsection \<open>Round trips\<close>

text \<open>The RESP form of a command, as a client sends it: an array of bulk strings.\<close>

definition encode_command :: "resp_command \<Rightarrow> string" where
  "encode_command args =
     CHR ''*'' # to_string (length args) @ [CR, LF] @ concat (map encode_bulk_string args)"

lemma to_string_no_break [simp]: "CR \<notin> set (to_string n)" "LF \<notin> set (to_string n)"
  using to_string_digits [of CR n] to_string_digits [of LF n] by (auto simp: is_digit_def)

lemma parse_size_to_string [simp]: "n < two64 \<Longrightarrow> parse_size (to_string n) = Inr n"
  using from_chars_to_string [of n two64 "[]"] by (simp add: parse_size_def)

lemma parse_bulk_strings:
  "list_all (\<lambda>a. length a \<le> max_bulk_string_bytes limits \<and> length a < two64) args \<Longrightarrow>
     parse_arguments limits (length args) (concat (map encode_bulk_string args) @ rest) =
       Inr (Some (args, rest))"
proof (induction args)
  case Nil
  show ?case by simp
next
  case (Cons a args)
  let ?tail = "concat (map encode_bulk_string args) @ rest"
  have "read_line (to_string (length a) @ CR # LF # a @ CR # LF # ?tail)
      = Some (to_string (length a), a @ CR # LF # ?tail)" by (rule read_line_line) simp
  moreover have "concat (map encode_bulk_string (a # args)) @ rest =
      CHR ''$'' # to_string (length a) @ CR # LF # a @ CR # LF # ?tail"
    by (simp add: encode_bulk_string_def [of a])
  ultimately show ?case using Cons by (simp add: nth_append)
qed

lemma parse_encoded_command:
  assumes "command_in_limits limits args" "list_all (\<lambda>a. length a < two64) args"
    "length args < two64"
  shows "parse_command limits (encode_command args @ rest) =
    Inr (Some (args, length (encode_command args)))"
proof -
  have "list_all (\<lambda>a. length a \<le> max_bulk_string_bytes limits \<and> length a < two64) args"
    using assms(1,2) by (simp add: command_in_limits_def list_all_iff)
  from parse_bulk_strings [OF this, of rest] show ?thesis
    using assms(1,3)
      read_line_line [of "to_string (length args)" "concat (map encode_bulk_string args) @ rest"]
    by (simp add: parse_command_def encode_command_def command_in_limits_def)
qed

lemma drain_encoded:
  "list_all (\<lambda>c. command_in_limits limits c \<and> list_all (\<lambda>a. length a < two64) c
       \<and> length c < two64) cmds \<Longrightarrow> parse_command limits tail = Inr None \<Longrightarrow>
     drain limits (concat (map encode_command cmds) @ tail) = (Inr cmds, tail)"
proof (induction cmds)
  case Nil
  then show ?case by (simp add: drain_pass)
next
  case (Cons c cmds)
  then have "parse_command limits (encode_command c @ concat (map encode_command cmds) @ tail) =
      Inr (Some (c, length (encode_command c)))" by (simp add: parse_encoded_command)
  from drain_pass(3) [OF this] Cons show ?case by simp
qed

text \<open>
  C34. The decoder inverts the client's encoding: any pipeline of commands within the limits,
  followed by an incomplete one, is decoded to exactly these commands, and the incomplete
  rest stays in the buffer.
\<close>

theorem feed_decodes_pipeline:
  assumes "max_buffer_bytes L < two64" "list_all (command_in_limits L) cmds"
    "parse_command L tail = Inr None"
    "length (concat (map encode_command cmds)) + length tail \<le> max_buffer_bytes L"
  shows "feed (concat (map encode_command cmds) @ tail) \<lparr>d_limits = L, d_buffer = []\<rparr> =
     (Inr cmds, \<lparr>d_limits = L, d_buffer = tail\<rparr>)"
proof -
  have "length a \<le> length (concat (map encode_bulk_string c))" if "a \<in> set c" for a c
    using that by (induction c) (auto simp: encode_bulk_string_def)
  then have short: "length a \<le> length (encode_command c)" if "a \<in> set c" for a c
    using that by (fastforce simp: encode_command_def intro: le_SucI trans_le_add2)
  have "length c \<le> length (concat (map encode_bulk_string c))" for c
    by (induction c) (auto simp: encode_bulk_string_def)
  then have count: "length c \<le> length (encode_command c)" for c
    by (simp add: encode_command_def le_SucI trans_le_add2)
  have "length (encode_command c) < two64" if "c \<in> set cmds" for c
  proof -
    have "length (encode_command c) \<le> length (concat (map encode_command cmds))"
      using that by (induction cmds) auto
    then show ?thesis using assms(1,4) by simp
  qed
  then have "list_all (\<lambda>c. command_in_limits L c \<and> list_all (\<lambda>a. length a < two64) c
      \<and> length c < two64) cmds"
    using assms(2) le_less_trans [OF short] le_less_trans [OF count]
    unfolding list_all_iff by blast
  from drain_encoded [OF this assms(3)] show ?thesis
    using feed_drain [of "\<lparr>d_limits = L, d_buffer = []\<rparr>" "concat (map encode_command cmds) @ tail"]
      assms(1,4) by (simp add: decoder_ok_def)
qed

text \<open>
  Replies are framed: a simple string, an error and an integer are exactly one line
  that carries their value, an error text with a line break is refused, and a bulk string is
  read back whole whatever bytes it holds.
\<close>

theorem replies_are_framed:
  assumes "length v < two64" "length v \<le> max_bulk_string_bytes L"
  shows "(case encode_simple_string v of
      Inl x \<Rightarrow> has_line_break v \<and> x = Resp_protocol_error
    | Inr r \<Rightarrow> \<not> has_line_break v \<and> read_line (r @ rest) = Some (CHR ''+'' # v, rest))
   \<and> (case encode_error v of
      Inl x \<Rightarrow> has_line_break v \<and> x = Resp_protocol_error
    | Inr r \<Rightarrow> \<not> has_line_break v \<and> read_line (r @ rest) = Some (CHR ''-'' # v, rest))
   \<and> read_line (encode_integer (int n) @ rest) = Some (CHR '':'' # to_string n, rest)
   \<and> read_line (encode_nil_bulk_string @ rest) = Some (''$-1'', rest)
   \<and> parse_arguments L 1 (encode_bulk_string v @ rest) = Inr (Some ([v], rest))"
proof -
  have line: "read_line (c # l @ CR # LF # rest) = Some (c # l, rest)"
    if "c \<noteq> CR" "CR \<notin> set l" for c l
    using read_line_line [of "c # l" rest] that by simp
  have "parse_arguments L 1 (encode_bulk_string v @ rest) = Inr (Some ([v], rest))"
    using parse_bulk_strings [of L "[v]" rest] assms by simp
  moreover have "read_line (encode_nil_bulk_string @ rest) = Some (''$-1'', rest)"
    using line [of "CHR ''$''" "''-1''"] by (simp add: encode_nil_bulk_string_def)
  moreover have "read_line (encode_integer (int n) @ rest) = Some (CHR '':'' # to_string n, rest)"
    using line [of "CHR '':''" "to_string n"] by (simp add: encode_integer_def)
  ultimately show ?thesis
    using line [of "CHR ''+''" v] line [of "CHR ''-''" v]
    by (simp add: encode_simple_string_def encode_error_def has_line_break_def)
qed

subsection \<open>Examples\<close>

definition ex_limits :: resp_limits where
  "ex_limits = \<lparr>max_buffer_bytes = 64, max_array_elements = 4, max_bulk_string_bytes = 8\<rparr>"

definition ex_get :: resp_command where
  "ex_get = [''GET'', ''k'']"

lemma ex_feed_ready: "decoder_ok \<lparr>d_limits = ex_limits, d_buffer = []\<rparr>"
  by (simp add: decoder_ok_def ex_limits_def two64_def)

lemmas ex_resp_defs = feed_def drain.simps parse_command_def parse_size_def from_chars_def
  is_digit_def decimal_def digit_value_def ex_limits_def two64_def u64_sub_def u64_def
  encode_bulk_string_def to_string.simps digit_char_def


theorem feed_respects_limits_witness:
  "(\<exists>x d'. feed (replicate 65 CR) \<lparr>d_limits = ex_limits, d_buffer = []\<rparr> = (Inl x, d')
      \<and> x = Resp_protocol_error \<and> d_buffer d' = [])"
proof -
  let ?d = "\<lparr>d_limits = ex_limits, d_buffer = []\<rparr>"
  obtain r d' where f: "feed (replicate 65 CR) ?d = (r, d')" by force
  have "length (d_buffer ?d) + length (replicate 65 CR) > max_buffer_bytes (d_limits ?d)"
    by (simp add: ex_limits_def)
  with feed_respects_limits [OF ex_feed_ready f] f show ?thesis by auto
qed

theorem feed_decodes_pipeline_witness:
  "list_all (command_in_limits ex_limits) [ex_get, [''PING'']]
   \<and> feed (concat (map encode_command [ex_get, [''PING'']]) @ ''*2'') \<lparr>d_limits = ex_limits, d_buffer = []\<rparr> =
     (Inr [ex_get, [''PING'']], \<lparr>d_limits = ex_limits, d_buffer = ''*2''\<rparr>)"
proof -
  have 1: "max_buffer_bytes ex_limits < two64" by (simp add: ex_limits_def two64_def)
  have 2: "list_all (command_in_limits ex_limits) [ex_get, [''PING'']]"
    by (simp add: command_in_limits_def ex_get_def ex_limits_def)
  have 3: "parse_command ex_limits ''*2'' = Inr None" by (simp add: parse_command_def)
  have 4: "length (concat (map encode_command [ex_get, [''PING'']])) + length ''*2''
      \<le> max_buffer_bytes ex_limits"
    by (simp add: encode_command_def ex_get_def ex_resp_defs)
  show ?thesis using feed_decodes_pipeline [OF 1 2 3 4] 2 by simp
qed

theorem replies_are_framed_witness:
  "length [CR, LF] \<le> max_bulk_string_bytes ex_limits
   \<and> encode_error [CR, LF] = Inl Resp_protocol_error
   \<and> parse_arguments ex_limits 1 (encode_bulk_string [CR, LF] @ ''$'') = Inr (Some ([[CR, LF]], ''$''))"
proof -
  have l: "length [CR, LF] < two64" "length [CR, LF] \<le> max_bulk_string_bytes ex_limits"
    by (simp_all add: two64_def ex_limits_def)
  have "parse_arguments ex_limits 1 (encode_bulk_string [CR, LF] @ ''$'') =
      Inr (Some ([[CR, LF]], ''$''))"
    using replies_are_framed [OF l, of "''$''" 0] by (elim conjE)
  with l show ?thesis by (simp add: encode_error_def has_line_break_def)
qed

end
