(* ===== verification/Resp_Session.thy ===== *)
theory Resp_Session
  imports Resp_Codec
begin

text \<open>
  One client connection, \<^verbatim>\<open>RespSession\<close> of \<^verbatim>\<open>src/server/resp_server.cpp\<close>: reading, decoding,
  handing one command at a time to the command handler, writing its reply. The handler is
  outside: it may answer at any later time, several times, or throw.
\<close>

subsection \<open>State\<close>

text \<open>
  \<open>rs_reading\<close> and \<open>rs_writing\<close> are the outstanding socket operations. \<open>rs_dispatched\<close> are
  the calls of the command handler with their request numbers, \<open>rs_written\<close> the replies
  written completely.
\<close>

record session =
  rs_decoder :: resp_decoder
  rs_pending_commands :: "resp_command list"
  rs_write_buffer :: string
  rs_active_request_id :: nat
  rs_awaiting_reply :: bool
  rs_write_in_progress :: bool
  rs_closed :: bool
  rs_reading :: bool
  rs_writing :: bool
  rs_dispatched :: "(nat \<times> resp_command) list"
  rs_written :: "string list"

definition new_session :: "resp_limits \<Rightarrow> session" where
  "new_session limits =
     \<lparr>rs_decoder = \<lparr>d_limits = limits, d_buffer = []\<rparr>, rs_pending_commands = [], rs_write_buffer = [],
      rs_active_request_id = 0, rs_awaiting_reply = False, rs_write_in_progress = False,
      rs_closed = False, rs_reading = False, rs_writing = False, rs_dispatched = [], rs_written = []\<rparr>"

subsection \<open>Operations\<close>

definition session_close :: "session \<Rightarrow> session" where
  "session_close s = (if rs_closed s then s else s\<lparr>rs_closed := True\<rparr>)"

definition read_next :: "session \<Rightarrow> session" where
  "read_next s =
     (if rs_closed s \<or> rs_awaiting_reply s \<or> rs_write_in_progress s \<or> rs_pending_commands s \<noteq> []
      then s else s\<lparr>rs_reading := True\<rparr>)"

text \<open>\<open>throws\<close>: whether the command handler throws.\<close>

definition dispatch_next :: "bool \<Rightarrow> session \<Rightarrow> session" where
  "dispatch_next throws s =
     (if rs_closed s \<or> rs_awaiting_reply s \<or> rs_write_in_progress s then s
      else if rs_pending_commands s = [] then read_next s
      else
        let request_id = u64_inc (rs_active_request_id s);
            s1 = s\<lparr>rs_pending_commands := tl (rs_pending_commands s), rs_awaiting_reply := True,
                   rs_active_request_id := request_id,
                   rs_dispatched := rs_dispatched s @ [(request_id, hd (rs_pending_commands s))]\<rparr>
        in if throws then session_close s1 else s1)"

definition on_read :: "bool \<Rightarrow> string \<Rightarrow> bool \<Rightarrow> session \<Rightarrow> session" where
  "on_read error bytes throws s =
     (if error \<or> bytes = [] then session_close s
      else case feed bytes (rs_decoder s) of
             (Inl _, d) \<Rightarrow> session_close (s\<lparr>rs_decoder := d\<rparr>)
           | (Inr commands, d) \<Rightarrow>
               let s1 = s\<lparr>rs_decoder := d, rs_pending_commands := rs_pending_commands s @ commands\<rparr>
               in if rs_pending_commands s1 = [] then read_next s1 else dispatch_next throws s1)"

definition on_reply :: "nat \<Rightarrow> string \<Rightarrow> bool \<Rightarrow> session \<Rightarrow> session" where
  "on_reply request_id encoded_reply throws s =
     (if rs_closed s \<or> \<not> rs_awaiting_reply s \<or> request_id \<noteq> rs_active_request_id s then s
      else
        let s1 = s\<lparr>rs_awaiting_reply := False\<rparr>
        in if encoded_reply = [] then dispatch_next throws s1
           else s1\<lparr>rs_write_buffer := encoded_reply, rs_write_in_progress := True, rs_writing := True\<rparr>)"

definition on_written :: "bool \<Rightarrow> bool \<Rightarrow> session \<Rightarrow> session" where
  "on_written error throws s =
     (let s1 = s\<lparr>rs_write_in_progress := False, rs_write_buffer := []\<rparr>
      in if error then session_close s1
         else dispatch_next throws (s1\<lparr>rs_written := rs_written s @ [rs_write_buffer s]\<rparr>))"

subsection \<open>Runs\<close>

text \<open>
  \<open>session_run limits decoded answers s\<close>: the session can be in state \<open>s\<close> after the decoder
  gave the commands \<open>decoded\<close> and the replies \<open>answers\<close>, with their request numbers, were
  taken. Request numbers below the 64-bit limit.
\<close>

definition decoded_by :: "string \<Rightarrow> session \<Rightarrow> bool \<Rightarrow> resp_command list" where
  "decoded_by bytes s error =
     (if error \<or> bytes = [] then []
      else case fst (feed bytes (rs_decoder s)) of Inl _ \<Rightarrow> [] | Inr commands \<Rightarrow> commands)"

definition takes_reply :: "nat \<Rightarrow> session \<Rightarrow> bool" where
  "takes_reply request_id s \<longleftrightarrow>
     \<not> rs_closed s \<and> rs_awaiting_reply s \<and> request_id = rs_active_request_id s"

inductive session_run ::
  "resp_limits \<Rightarrow> resp_command list \<Rightarrow> (nat \<times> string) list \<Rightarrow> session \<Rightarrow> bool" for limits where
  start: "session_run limits [] [] (read_next (new_session limits))"
| read: "session_run limits decoded answers s \<Longrightarrow> rs_reading s \<Longrightarrow>
    Suc (rs_active_request_id s) < two64 \<Longrightarrow>
    session_run limits (decoded @ decoded_by bytes s err) answers
      (on_read err bytes throws (s\<lparr>rs_reading := False\<rparr>))"
| reply: "session_run limits decoded answers s \<Longrightarrow> Suc (rs_active_request_id s) < two64 \<Longrightarrow>
    session_run limits decoded (answers @ (if takes_reply request_id s then [(request_id, reply)] else []))
      (on_reply request_id reply throws s)"
| written: "session_run limits decoded answers s \<Longrightarrow> rs_writing s \<Longrightarrow>
    Suc (rs_active_request_id s) < two64 \<Longrightarrow>
    session_run limits decoded answers (on_written err throws (s\<lparr>rs_writing := False\<rparr>))"
| stop: "session_run limits decoded answers s \<Longrightarrow> session_run limits decoded answers (session_close s)"

subsection \<open>Invariant\<close>

text \<open>Exactly one thing is outstanding while the session is open; then the flags say which.\<close>

definition session_live :: "session \<Rightarrow> bool" where
  "session_live s \<longleftrightarrow> rs_write_in_progress s = rs_writing s
     \<and> (rs_closed s \<or> length (filter id [rs_reading s, rs_awaiting_reply s, rs_writing s]) = 1)
     \<and> (rs_reading s \<longrightarrow> rs_pending_commands s = [] \<and> \<not> rs_awaiting_reply s \<and> \<not> rs_writing s)
     \<and> \<not> (rs_awaiting_reply s \<and> rs_writing s)"

text \<open>The commands handed out, and the answers, are numbered in order.\<close>

definition session_order :: "resp_command list \<Rightarrow> (nat \<times> string) list \<Rightarrow> session \<Rightarrow> bool" where
  "session_order decoded answers s \<longleftrightarrow>
     decoded = map snd (rs_dispatched s) @ rs_pending_commands s
     \<and> map fst (rs_dispatched s) = [1..<Suc (rs_active_request_id s)]
     \<and> map fst answers = [1..<Suc (length answers)]
     \<and> rs_active_request_id s = length answers + (if rs_awaiting_reply s then 1 else 0)
     \<and> (\<not> rs_closed s \<longrightarrow> rs_written s @ (if rs_writing s then [rs_write_buffer s] else [])
          = filter (\<lambda>r. r \<noteq> []) (map snd answers))"

definition session_ok :: "resp_limits \<Rightarrow> resp_command list \<Rightarrow> (nat \<times> string) list \<Rightarrow> session \<Rightarrow> bool" where
  "session_ok limits decoded answers s \<longleftrightarrow>
     session_live s \<and> session_order decoded answers s \<and> d_limits (rs_decoder s) = limits
     \<and> length (d_buffer (rs_decoder s)) \<le> max_buffer_bytes limits"

lemma close_ok: "session_ok limits decoded answers s \<Longrightarrow> session_ok limits decoded answers (session_close s)"
  by (simp add: session_ok_def session_close_def session_live_def session_order_def)

text \<open>Between two operations of an open session.\<close>

definition at_rest :: "session \<Rightarrow> bool" where
  "at_rest s \<longleftrightarrow> \<not> rs_reading s \<and> \<not> rs_awaiting_reply s \<and> \<not> rs_writing s \<and> \<not> rs_write_in_progress s"

lemma read_next_ok:
  assumes "at_rest s" "session_order decoded answers s" "rs_pending_commands s = [] \<or> rs_closed s"
  shows "session_live (read_next s) \<and> session_order decoded answers (read_next s)
     \<and> rs_decoder (read_next s) = rs_decoder s"
  using assms by (auto simp: at_rest_def read_next_def session_live_def session_order_def)

lemma dispatch_next_ok:
  assumes "at_rest s" "session_order decoded answers s" "Suc (rs_active_request_id s) < two64"
  shows "session_live (dispatch_next throws s) \<and> session_order decoded answers (dispatch_next throws s)
     \<and> rs_decoder (dispatch_next throws s) = rs_decoder s"
proof (cases "rs_closed s \<or> rs_pending_commands s = []")
  case True
  then show ?thesis
    using read_next_ok [OF assms(1,2)] assms(1,2)
    by (auto simp: dispatch_next_def at_rest_def session_live_def)
next
  case False
  then obtain c cs where p: "rs_pending_commands s = c # cs" by (auto simp: neq_Nil_conv)
  have "session_live (dispatch_next throws s)"
    using False assms(1) by (auto simp: dispatch_next_def Let_def session_close_def at_rest_def session_live_def)
  moreover have "session_order decoded answers (dispatch_next throws s)"
    using False assms p
    by (simp add: dispatch_next_def Let_def session_close_def at_rest_def session_order_def wrap_simps)
  moreover have "rs_decoder (dispatch_next throws s) = rs_decoder s"
    using False assms(1) by (simp add: dispatch_next_def Let_def session_close_def at_rest_def)
  ultimately show ?thesis by blast
qed

lemma on_read_ok:
  assumes "session_ok limits decoded answers s" "rs_reading s" "Suc (rs_active_request_id s) < two64"
    "max_buffer_bytes limits < two64"
  shows "session_ok limits (decoded @ decoded_by bytes s err) answers
    (on_read err bytes throws (s\<lparr>rs_reading := False\<rparr>))"
proof (cases "err \<or> bytes = []")
  case True
  then show ?thesis
    using assms(1)
    by (auto simp: on_read_def decoded_by_def session_ok_def session_close_def session_live_def session_order_def)
next
  case False
  have d: "decoder_ok (rs_decoder s)" "d_limits (rs_decoder s) = limits"
    using assms(1,4) by (simp_all add: session_ok_def decoder_ok_def)
  obtain r d' where f: "feed bytes (rs_decoder s) = (r, d')" by force
  have d': "d_limits d' = limits" "length (d_buffer d') \<le> max_buffer_bytes limits"
    using feed_limits [OF d(1) f] d(2) by (simp_all add: decoder_ok_def)
  have rest: "at_rest (s\<lparr>rs_reading := False\<rparr>)" "rs_pending_commands s = []"
    using assms(1,2) by (auto simp: session_ok_def session_live_def at_rest_def)
  show ?thesis
  proof (cases r)
    case (Inl x)
    then show ?thesis
      using False f d' rest assms(1)
      by (auto simp: on_read_def decoded_by_def session_close_def session_ok_def session_live_def
          session_order_def at_rest_def)
  next
    case (Inr cs)
    let ?s = "s\<lparr>rs_reading := False, rs_decoder := d', rs_pending_commands := cs\<rparr>"
    have o: "session_order (decoded @ cs) answers ?s"
      using assms(1) rest(2) by (cases "rs_writing s") (simp_all add: session_ok_def session_order_def del: upt_Suc)
    have "at_rest ?s" using rest(1) by (simp add: at_rest_def)
    then show ?thesis
      using dispatch_next_ok [of ?s "decoded @ cs" answers throws] read_next_ok [of ?s "decoded @ cs" answers]
        False f Inr o d' rest(2) assms(3)
      by (cases "cs = []") (simp_all add: on_read_def decoded_by_def session_ok_def Let_def)
  qed
qed

lemma on_reply_ok:
  assumes "session_ok limits decoded answers s" "Suc (rs_active_request_id s) < two64"
  shows "session_ok limits decoded (answers @ (if takes_reply request_id s then [(request_id, reply)] else []))
    (on_reply request_id reply throws s)"
proof (cases "takes_reply request_id s")
  case False
  then show ?thesis using assms(1) by (auto simp: on_reply_def takes_reply_def)
next
  case True
  let ?s = "s\<lparr>rs_awaiting_reply := False\<rparr>"
  have l: "\<not> rs_reading s" "\<not> rs_writing s" "\<not> rs_write_in_progress s"
    using assms(1) True by (auto simp: session_ok_def session_live_def takes_reply_def)
  have t: "\<not> rs_closed s" "rs_awaiting_reply s" "request_id = rs_active_request_id s"
    using True by (simp_all add: takes_reply_def)
  show ?thesis
  proof (cases "reply = []")
    case True
    have "session_order decoded (answers @ [(request_id, reply)]) ?s"
      using assms(1) t l True by (simp add: session_ok_def session_order_def)
    moreover have "at_rest ?s" using l by (simp add: at_rest_def)
    ultimately show ?thesis
      using dispatch_next_ok [of ?s decoded "answers @ [(request_id, reply)]" throws] assms t True
        \<open>takes_reply request_id s\<close> by (simp add: on_reply_def session_ok_def Let_def)
  next
    case False
    then show ?thesis
      using assms(1) t l \<open>takes_reply request_id s\<close>
      by (simp add: on_reply_def session_ok_def session_live_def session_order_def)
  qed
qed

lemma on_written_ok:
  assumes "session_ok limits decoded answers s" "rs_writing s" "Suc (rs_active_request_id s) < two64"
  shows "session_ok limits decoded answers (on_written err throws (s\<lparr>rs_writing := False\<rparr>))"
proof (cases err)
  case True
  then show ?thesis
    using assms(1,2)
    by (auto simp: on_written_def Let_def session_ok_def session_close_def session_live_def
        session_order_def simp del: upt_Suc)
next
  case False
  let ?s = "s\<lparr>rs_writing := False, rs_write_in_progress := False, rs_write_buffer := [],
      rs_written := rs_written s @ [rs_write_buffer s]\<rparr>"
  have "at_rest ?s" using assms(1,2) by (auto simp: session_ok_def session_live_def at_rest_def)
  moreover have "session_order decoded answers ?s"
    using assms(1,2) by (simp add: session_ok_def session_order_def)
  ultimately show ?thesis
    using dispatch_next_ok [of ?s decoded answers throws] assms(1,3) False
    by (simp add: on_written_def session_ok_def Let_def)
qed

lemma session_run_ok:
  assumes "session_run limits decoded answers s" "max_buffer_bytes limits < two64"
  shows "session_ok limits decoded answers s"
  using assms
proof (induction rule: session_run.induct)
  case start
  show ?case
    by (simp add: read_next_def new_session_def session_ok_def session_live_def session_order_def)
qed (simp_all add: on_read_ok on_reply_ok on_written_ok close_ok)

subsection \<open>Properties\<close>

text \<open>
  C39. Replies answer the commands in the order they came: the commands handed to the handler
  are the decoded ones in order, numbered from 1; the next one is handed out only when the
  one before has been answered; a reply is taken once per command and only for the command
  that is waiting; and what an open session has written or is writing are exactly the replies
  taken, in order.
\<close>

theorem session_replies_in_order:
  assumes "session_run limits decoded answers s" "max_buffer_bytes limits < two64"
  shows "decoded = map snd (rs_dispatched s) @ rs_pending_commands s
     \<and> map fst (rs_dispatched s) = [1..<Suc (length (rs_dispatched s))]
     \<and> map fst answers = [1..<Suc (length answers)]
     \<and> length (rs_dispatched s) = length answers + (if rs_awaiting_reply s then 1 else 0)
     \<and> (\<not> rs_closed s \<longrightarrow> rs_written s @ (if rs_writing s then [rs_write_buffer s] else [])
          = filter (\<lambda>r. r \<noteq> []) (map snd answers))"
proof -
  have o: "session_order decoded answers s"
    using session_run_ok [OF assms] by (simp add: session_ok_def)
  then have "map fst (rs_dispatched s) = [1..<Suc (rs_active_request_id s)]"
    by (simp add: session_order_def)
  from arg_cong [OF this, of length] have "length (rs_dispatched s) = rs_active_request_id s" by simp
  with o show ?thesis unfolding session_order_def by simp
qed

text \<open>
  C40. An open session never hangs and never floods itself: exactly one of a read, a waiting
  command and a write is outstanding, it reads from the socket only when it has no command
  left to answer, and its input buffer stays within the limit.
\<close>

theorem session_never_stuck:
  assumes "session_run limits decoded answers s" "max_buffer_bytes limits < two64" "\<not> rs_closed s"
  shows "length (filter id [rs_reading s, rs_awaiting_reply s, rs_writing s]) = 1
     \<and> (rs_reading s \<longrightarrow> rs_pending_commands s = [] \<and> length decoded = length answers)
     \<and> buffered_bytes (rs_decoder s) \<le> max_buffer_bytes limits"
proof -
  have l: "session_live s" "session_order decoded answers s"
    "length (d_buffer (rs_decoder s)) \<le> max_buffer_bytes limits"
    using session_run_ok [OF assms(1,2)] by (simp_all add: session_ok_def)
  have "map fst (rs_dispatched s) = [1..<Suc (rs_active_request_id s)]"
    using l(2) by (simp add: session_order_def)
  from arg_cong [OF this, of length] have "length (rs_dispatched s) = rs_active_request_id s" by simp
  with l assms(3) show ?thesis
    by (auto simp: session_live_def session_order_def buffered_bytes_def simp del: upt_Suc)
qed

subsection \<open>A run\<close>

lemma ex_feed_two:
  "feed (concat (map encode_command [ex_get, [''PING'']])) \<lparr>d_limits = ex_limits, d_buffer = []\<rparr> =
     (Inr [ex_get, [''PING'']], \<lparr>d_limits = ex_limits, d_buffer = []\<rparr>)"
proof -
  have "drain ex_limits (concat (map encode_command [ex_get, [''PING'']]) @ []) = (Inr [ex_get, [''PING'']], [])"
    by (rule drain_encoded)
      (simp_all add: command_in_limits_def ex_get_def ex_limits_def two64_def parse_command_def)
  moreover have "length (concat (map encode_command [ex_get, [''PING'']])) \<le> max_buffer_bytes ex_limits"
    by (simp add: encode_command_def ex_get_def ex_resp_defs)
  ultimately show ?thesis using feed_drain [OF ex_feed_ready] by simp
qed

definition ex_session :: session where
  "ex_session = (new_session ex_limits)\<lparr>rs_pending_commands := [[''PING'']], rs_awaiting_reply := True,
     rs_active_request_id := 1, rs_dispatched := [(1, ex_get)]\<rparr>"

lemma ex_session_run: "session_run ex_limits [ex_get, [''PING'']] [] ex_session"
proof -
  let ?b = "concat (map encode_command [ex_get, [''PING'']])" and ?s = "read_next (new_session ex_limits)"
  have n: "encode_command ex_get \<noteq> []" by (simp add: encode_command_def)
  have s: "rs_reading ?s" "rs_decoder ?s = \<lparr>d_limits = ex_limits, d_buffer = []\<rparr>"
      "Suc (rs_active_request_id ?s) < two64"
    by (simp_all add: read_next_def new_session_def two64_def)
  have d: "[] @ decoded_by ?b ?s False = [ex_get, [''PING'']]"
    using n s(2) ex_feed_two unfolding decoded_by_def by simp
  have e: "on_read False ?b False (?s\<lparr>rs_reading := False\<rparr>) = ex_session"
    using n s(2) ex_feed_two unfolding on_read_def
    by (simp add: read_next_def new_session_def dispatch_next_def Let_def ex_session_def u64_inc_def
        u64_add_def u64_def two64_def)
  show ?thesis
    using session_run.read [OF session_run.start s(1,3), of ?b False False] unfolding d e .
qed

lemma ex_answered:
  "session_run ex_limits [ex_get, [''PING'']] [(1, ''x'')]
     (ex_session\<lparr>rs_awaiting_reply := False, rs_write_buffer := ''x'', rs_write_in_progress := True,
        rs_writing := True\<rparr>)"
proof -
  have "Suc (rs_active_request_id ex_session) < two64" by (simp add: ex_session_def two64_def)
  from session_run.reply [OF ex_session_run this, of 1 "''x''" False] show ?thesis
    by (simp add: takes_reply_def on_reply_def ex_session_def new_session_def)
qed

theorem session_replies_in_order_witness:
  "session_run ex_limits [ex_get, [''PING'']] [(1, ''x'')]
     (ex_session\<lparr>rs_awaiting_reply := False, rs_write_buffer := ''x'', rs_write_in_progress := True,
        rs_writing := True\<rparr>)
   \<and> map fst (rs_dispatched ex_session) = [1]"
proof -
  have "max_buffer_bytes ex_limits < two64" by (simp add: ex_limits_def two64_def)
  from session_replies_in_order [OF ex_answered this] ex_answered show ?thesis
    by (simp add: ex_session_def new_session_def)
qed

theorem session_never_stuck_witness:
  "\<not> rs_closed ex_session
     \<and> length (filter id [rs_reading ex_session, rs_awaiting_reply ex_session, rs_writing ex_session]) = 1"
proof -
  have m: "max_buffer_bytes ex_limits < two64" by (simp add: ex_limits_def two64_def)
  have c: "\<not> rs_closed ex_session" by (simp add: ex_session_def new_session_def)
  from session_never_stuck [OF ex_session_run m c] c show ?thesis by blast
qed

end
