(* ===== verification/Listeners.thy ===== *)
theory Listeners
  imports Transport Text Resp_Session
begin

text \<open>
  The two listening servers: addresses, and the accept loops of \<^verbatim>\<open>src/transport/server.cpp\<close>
  and of \<^verbatim>\<open>RespServer::Impl\<close> in \<^verbatim>\<open>src/server/resp_server.cpp\<close>. Both keep the same contract,
  stated once: a started server accepts until it is stopped.
\<close>

subsection \<open>Addresses\<close>

definition rfind_char :: "char \<Rightarrow> string \<Rightarrow> nat option" where
  "rfind_char c s =
     (case find_char c (rev s) of None \<Rightarrow> None | Some i \<Rightarrow> Some (length s - Suc i))"

text \<open>\<^verbatim>\<open>split_address\<close>, the same text in \<^verbatim>\<open>peer.cpp\<close> and \<^verbatim>\<open>server.cpp\<close>: host and service.\<close>

definition split_address :: "string \<Rightarrow> exn + string \<times> string" where
  "split_address address =
     (if address = [] then Inl Invalid_argument
      else if hd address = CHR ''['' then
        (case find_char (CHR '']'') address of
           None \<Rightarrow> Inl Invalid_argument
         | Some bracket \<Rightarrow>
             if bracket + 1 \<ge> length address \<or> address ! (bracket + 1) \<noteq> CHR '':''
             then Inl Invalid_argument
             else
               let host = take (bracket - 1) (drop 1 address);
                   service = drop (bracket + 2) address
               in if host = [] \<or> service = [] then Inl Invalid_argument else Inr (host, service))
      else
        (case rfind_char (CHR '':'') address of
           None \<Rightarrow> Inl Invalid_argument
         | Some separator \<Rightarrow>
             if separator = 0 \<or> separator + 1 = length address then Inl Invalid_argument
             else Inr (take separator address, drop (separator + 1) address)))"

text \<open>The listen address of the client server; \<open>make_address\<close> is Asio's parser of IP addresses.\<close>

definition parse_listen_address :: "(string \<Rightarrow> exn + 'ip) \<Rightarrow> string \<Rightarrow> exn + 'ip \<times> nat" where
  "parse_listen_address make_address listen_address =
     (case rfind_char (CHR '':'') listen_address of
        None \<Rightarrow> Inl Invalid_argument
      | Some separator \<Rightarrow>
          if separator = 0 \<or> separator + 1 = length listen_address then Inl Invalid_argument
          else
            let address0 = take separator listen_address;
                address = (if length address0 \<ge> 2 \<and> hd address0 = CHR ''['' \<and> last address0 = CHR '']''
                           then butlast (tl address0) else address0);
                port_text = drop (separator + 1) listen_address
            in case from_chars two32 port_text of
                 None \<Rightarrow> Inl Invalid_argument
               | Some (port, read) \<Rightarrow>
                   if read \<noteq> length port_text \<or> port > 65535 then Inl Invalid_argument
                   else (case make_address address of Inl x \<Rightarrow> Inl x | Inr ip \<Rightarrow> Inr (ip, port)))"

lemma rfind_char_append: "c \<notin> set ys \<Longrightarrow> rfind_char c (xs @ c # ys) = Some (length xs)"
  using find_char_append [of c "rev ys" "rev xs"] by (simp add: rfind_char_def)

text \<open>
  Addresses are read as they are written: \<open>host:service\<close> for a host that does not start
  with a bracket, \<open>[host]:service\<close> for any host without a closing bracket, split at the last
  colon and at the bracket; a port is accepted up to 65535.
\<close>

theorem addresses_split:
  assumes "host \<noteq> []" "service \<noteq> []" "CHR '':'' \<notin> set service" "CHR '']'' \<notin> set host"
  shows "split_address (CHR ''['' # host @ '']:'' @ service) = Inr (host, service)
     \<and> (hd host \<noteq> CHR ''['' \<longrightarrow> split_address (host @ '':'' @ service) = Inr (host, service))
     \<and> (port < 65536 \<longrightarrow> hd host \<noteq> CHR ''['' \<longrightarrow>
          parse_listen_address make_address (host @ '':'' @ to_string port) =
            (case make_address host of Inl x \<Rightarrow> Inl x | Inr ip \<Rightarrow> Inr (ip, port)))
     \<and> (port < 65536 \<longrightarrow>
          parse_listen_address make_address (CHR ''['' # host @ '']:'' @ to_string port) =
            (case make_address host of Inl x \<Rightarrow> Inl x | Inr ip \<Rightarrow> Inr (ip, port)))"
proof -
  have b: "split_address (CHR ''['' # host @ '']:'' @ service) = Inr (host, service)"
    using assms find_char_append [of "CHR '']''" "CHR ''['' # host" "CHR '':'' # service"]
    by (simp add: split_address_def nth_append)
  have p: "split_address (host @ '':'' @ service) = Inr (host, service)" if "hd host \<noteq> CHR ''[''"
    using assms that rfind_char_append [of "CHR '':''" service host] by (simp add: split_address_def)
  have d: "CHR '':'' \<notin> set (to_string port)" using to_string_digits [of "CHR '':''" port] by (auto simp: is_digit_def)
  have f: "from_chars two32 (to_string port) = Some (port, length (to_string port))" if "port < 65536"
    using from_chars_to_string [of port two32 "[]"] that by (simp add: two32_def)
  have l: "parse_listen_address make_address (host @ '':'' @ to_string port) =
      (case make_address host of Inl x \<Rightarrow> Inl x | Inr ip \<Rightarrow> Inr (ip, port))"
    if "port < 65536" "hd host \<noteq> CHR ''[''"
    using assms(1) that rfind_char_append [OF d, of host] f [OF that(1)]
    by (simp add: parse_listen_address_def)
  have "parse_listen_address make_address ((CHR ''['' # host @ '']'') @ '':'' @ to_string port) =
      (case make_address host of Inl x \<Rightarrow> Inl x | Inr ip \<Rightarrow> Inr (ip, port))" if "port < 65536"
    using rfind_char_append [OF d, of "CHR ''['' # host @ '']''"] f [OF that] that
    by (simp add: parse_listen_address_def butlast_append)
  with b p l show ?thesis by simp
qed

theorem addresses_split_witness:
  "split_address ''[::1]:7000'' = Inr (''::1'', ''7000'')
   \<and> parse_listen_address Inr ''[::1]:7'' = Inr (''::1'', 7)"
proof -
  have h: "''::1'' \<noteq> []" "''7000'' \<noteq> []" "CHR '':'' \<notin> set ''7000''" "CHR '']'' \<notin> set ''::1''" by simp_all
  have "to_string 7 = ''7''" by (simp add: to_string.simps digit_char_def)
  with addresses_split [OF h, of 7 Inr] show ?thesis by simp
qed

subsection \<open>The contract of an accept loop\<close>

text \<open>
  \<open>accepting\<close>: an asynchronous accept is outstanding. \<open>on_accept err\<close> is its completion, run
  with the accept no longer outstanding.
\<close>

locale accept_loop =
  fixes started stopped accepting :: "'s \<Rightarrow> bool" and idle :: "'s \<Rightarrow> 's"
    and start stop :: "'s \<Rightarrow> 's" and on_accept :: "bool \<Rightarrow> 's \<Rightarrow> 's"
  assumes start_accepts: "\<not> started s \<Longrightarrow> \<not> stopped s \<Longrightarrow> accepting (start s)"
    and start_again: "started s \<or> stopped s \<Longrightarrow> start s = s"
    and start_flags: "stopped (start s) = stopped s"
    and accept_again: "\<not> stopped s \<Longrightarrow> accepting (on_accept err s)"
    and accept_flags: "started (on_accept err s) = started s" "stopped (on_accept err s) = stopped s"
    and idle_flags: "started (idle s) = started s" "stopped (idle s) = stopped s"
    and stop_stops: "stopped (stop s)"
begin

text \<open>A started server that is not stopped has an accept outstanding.\<close>

definition open_ok :: "'s \<Rightarrow> bool" where
  "open_ok s \<longleftrightarrow> started s \<and> \<not> stopped s \<longrightarrow> accepting s"

lemma open_ok_start: "open_ok s \<Longrightarrow> open_ok (start s)"
  using start_accepts [of s] start_again [of s] start_flags [of s] by (cases "started s \<or> stopped s") (auto simp: open_ok_def)

lemma open_ok_accept: "open_ok (on_accept err (idle s))"
  using accept_again [of "idle s" err] accept_flags idle_flags by (auto simp: open_ok_def)

lemma open_ok_stop: "open_ok (stop s)"
  using stop_stops by (simp add: open_ok_def)

end

subsection \<open>The peer server\<close>

text \<open>Connections are named by numbers, in the place of their pointers.\<close>

record server =
  sv_connections :: "connection umap"
  sv_next :: nat
  sv_started :: bool
  sv_stop_requested :: bool
  sv_accepting :: bool

definition new_server :: server where
  "new_server = \<lparr>sv_connections = [], sv_next = 0, sv_started = False, sv_stop_requested = False,
     sv_accepting = False\<rparr>"

definition server_accept_next :: "server \<Rightarrow> server" where
  "server_accept_next s = (if sv_stop_requested s then s else s\<lparr>sv_accepting := True\<rparr>)"

definition server_start :: "server \<Rightarrow> server" where
  "server_start s =
     (if sv_started s \<or> sv_stop_requested s then s
      else server_accept_next (s\<lparr>sv_started := True\<rparr>))"

definition server_on_accept :: "bool \<Rightarrow> server \<Rightarrow> server" where
  "server_on_accept error s =
     (let s1 = (if \<not> error \<and> \<not> sv_stop_requested s
                then s\<lparr>sv_connections := umap_put (sv_connections s) (sv_next s) new_connection,
                       sv_next := Suc (sv_next s)\<rparr>
                else s)
      in if \<not> sv_stop_requested s1 then server_accept_next s1 else s1)"

definition server_request_stop :: "server \<Rightarrow> server" where
  "server_request_stop s = (if sv_stop_requested s then s else s\<lparr>sv_stop_requested := True\<rparr>)"

text \<open>The connections that \<^verbatim>\<open>stop_now\<close> stops, and the server without them.\<close>

definition server_stop_now :: "server \<Rightarrow> connection list \<times> server" where
  "server_stop_now s = (map (conn_stop \<circ> snd) (sv_connections s), s\<lparr>sv_connections := []\<rparr>)"

definition remove_connection :: "nat \<Rightarrow> server \<Rightarrow> server" where
  "remove_connection i s = s\<lparr>sv_connections := umap_erase (sv_connections s) i\<rparr>"

text \<open>Bytes for one connection; \<^verbatim>\<open>finish\<close> removes a connection that closed itself.\<close>

definition server_receive :: "message_codec \<Rightarrow> nat \<Rightarrow> bytes \<Rightarrow> server \<Rightarrow> message list \<times> server" where
  "server_receive K i bs s =
     (case map_of (sv_connections s) i of
        None \<Rightarrow> ([], s)
      | Some c \<Rightarrow>
          (case conn_receive K bs c of (ms, c') \<Rightarrow>
             (ms, if cn_stopped c' then remove_connection i s
                  else s\<lparr>sv_connections := umap_put (sv_connections s) i c'\<rparr>)))"

text \<open>The read of one connection ends with an error.\<close>

definition server_read_error :: "message_codec \<Rightarrow> nat \<Rightarrow> server \<Rightarrow> server" where
  "server_read_error K i s =
     (case map_of (sv_connections s) i of
        None \<Rightarrow> s
      | Some c \<Rightarrow>
          (case conn_read_error K c of (ms, c') \<Rightarrow>
             if cn_stopped c' then remove_connection i s
             else s\<lparr>sv_connections := umap_put (sv_connections s) i c'\<rparr>))"

lemma server_read_error_eq:
  "server_read_error K i s = (if map_of (sv_connections s) i = None then s else remove_connection i s)"
  using conn_read_error_stops [of K]
  by (simp add: server_read_error_def case_prod_beta split: option.split)

interpretation peer_accept: accept_loop sv_started sv_stop_requested sv_accepting
  "\<lambda>s. s\<lparr>sv_accepting := False\<rparr>" server_start server_request_stop server_on_accept
  by unfold_locales
    (auto simp: server_start_def server_accept_next_def server_on_accept_def server_request_stop_def Let_def)

subsection \<open>The client server\<close>

record resp_server =
  rv_sessions :: "session umap"
  rv_next :: nat
  rv_started :: bool
  rv_stopped :: bool
  rv_accepting :: bool
  rv_limits :: resp_limits

definition new_resp_server :: "resp_limits \<Rightarrow> resp_server" where
  "new_resp_server limits = \<lparr>rv_sessions = [], rv_next = 0, rv_started = False, rv_stopped = False,
     rv_accepting = False, rv_limits = limits\<rparr>"

definition resp_accept_next :: "resp_server \<Rightarrow> resp_server" where
  "resp_accept_next s = (if rv_stopped s then s else s\<lparr>rv_accepting := True\<rparr>)"

definition resp_start :: "resp_server \<Rightarrow> resp_server" where
  "resp_start s =
     (if rv_started s \<or> rv_stopped s then s else resp_accept_next (s\<lparr>rv_started := True\<rparr>))"

definition add_session :: "resp_server \<Rightarrow> resp_server" where
  "add_session s =
     s\<lparr>rv_sessions := umap_put (rv_sessions s) (rv_next s) (read_next (new_session (rv_limits s))),
       rv_next := Suc (rv_next s)\<rparr>"

definition resp_on_accept :: "bool \<Rightarrow> resp_server \<Rightarrow> resp_server" where
  "resp_on_accept error s =
     (let s1 = (if \<not> error \<and> \<not> rv_stopped s then add_session s else s)
      in if \<not> rv_stopped s1 then resp_accept_next s1 else s1)"

definition erase_session :: "nat \<Rightarrow> resp_server \<Rightarrow> resp_server" where
  "erase_session i s = s\<lparr>rv_sessions := umap_erase (rv_sessions s) i\<rparr>"

text \<open>The sessions that \<^verbatim>\<open>stop_on_strand\<close> takes out of the table and stops.\<close>

definition resp_stop :: "resp_server \<Rightarrow> session list \<times> resp_server" where
  "resp_stop s =
     (if rv_stopped s then ([], s)
      else (map (session_close \<circ> snd) (rv_sessions s), s\<lparr>rv_stopped := True, rv_sessions := []\<rparr>))"

interpretation client_accept: accept_loop rv_started rv_stopped rv_accepting
  "\<lambda>s. s\<lparr>rv_accepting := False\<rparr>" resp_start "\<lambda>s. snd (resp_stop s)" resp_on_accept
  by unfold_locales
    (auto simp: resp_start_def resp_accept_next_def resp_on_accept_def resp_stop_def add_session_def Let_def)

subsection \<open>Runs of the peer server\<close>

inductive server_run :: "message_codec \<Rightarrow> server \<Rightarrow> bool" for K where
  new: "server_run K new_server"
| start: "server_run K s \<Longrightarrow> server_run K (server_start s)"
| accept: "server_run K s \<Longrightarrow> sv_accepting s \<Longrightarrow>
    server_run K (server_on_accept err (s\<lparr>sv_accepting := False\<rparr>))"
| receive: "server_run K s \<Longrightarrow> server_run K (snd (server_receive K i bs s))"
| read_error: "server_run K s \<Longrightarrow> server_run K (server_read_error K i s)"
| request_stop: "server_run K s \<Longrightarrow> server_run K (server_request_stop s)"
| stop_now: "server_run K s \<Longrightarrow> sv_stop_requested s \<Longrightarrow> server_run K (snd (server_stop_now s))"

inductive resp_run :: "resp_limits \<Rightarrow> resp_server \<Rightarrow> bool" for limits where
  new: "resp_run limits (new_resp_server limits)"
| start: "resp_run limits s \<Longrightarrow> resp_run limits (resp_start s)"
| accept: "resp_run limits s \<Longrightarrow> rv_accepting s \<Longrightarrow>
    resp_run limits (resp_on_accept err (s\<lparr>rv_accepting := False\<rparr>))"
| erase: "resp_run limits s \<Longrightarrow> resp_run limits (erase_session i s)"
| stop: "resp_run limits s \<Longrightarrow> resp_run limits (snd (resp_stop s))"

definition connections_ok :: "server \<Rightarrow> bool" where
  "connections_ok s \<longleftrightarrow>
     (\<forall>i c. map_of (sv_connections s) i = Some c \<longrightarrow> \<not> cn_stopped c \<and> i < sv_next s)"

lemma connections_okD: "connections_ok s \<Longrightarrow> map_of (sv_connections s) i = Some c \<Longrightarrow> \<not> cn_stopped c \<and> i < sv_next s"
  by (simp add: connections_ok_def)

lemma connections_accept:
  "connections_ok s \<Longrightarrow> connections_ok (server_on_accept err (s\<lparr>sv_accepting := False\<rparr>))"
  by (auto simp: connections_ok_def server_on_accept_def server_accept_next_def Let_def umap_simps
      new_connection_def split: if_splits) (meson less_SucI)

lemma connections_erase: "connections_ok s \<Longrightarrow> connections_ok (remove_connection i s)"
  by (auto simp: connections_ok_def remove_connection_def umap_erase_def delete_conv' split: if_splits)

lemma connections_receive:
  assumes "connections_ok s"
  shows "connections_ok (snd (server_receive K i bs s))"
proof (cases "map_of (sv_connections s) i")
  case None
  then show ?thesis using assms by (simp add: server_receive_def)
next
  case (Some c)
  obtain ms c' where r: "conn_receive K bs c = (ms, c')" by force
  have "i < sv_next s" using connections_okD [OF assms Some] by simp
  then show ?thesis
    using assms connections_erase [OF assms, of i] Some r
    by (auto simp: server_receive_def connections_ok_def umap_simps)
qed

lemma server_run_ok: "server_run K s \<Longrightarrow> peer_accept.open_ok s \<and> connections_ok s"
proof (induction rule: server_run.induct)
  case new
  show ?case by (simp add: peer_accept.open_ok_def connections_ok_def new_server_def)
next
  case (start s)
  then show ?case
    using peer_accept.open_ok_start [of s]
    by (auto simp: connections_ok_def server_start_def server_accept_next_def)
next
  case (accept s err)
  then show ?case using peer_accept.open_ok_accept connections_accept by blast
next
  case (receive s i bs)
  moreover have "peer_accept.open_ok (snd (server_receive K i bs s)) = peer_accept.open_ok s"
    by (simp add: peer_accept.open_ok_def server_receive_def remove_connection_def split: option.split prod.split)
  ultimately show ?case using connections_receive by blast
next
  case (read_error s i)
  then show ?case
    using connections_erase [of s i]
    by (simp add: server_read_error_eq peer_accept.open_ok_def remove_connection_def)
next
  case (request_stop s)
  then show ?case
    using peer_accept.open_ok_stop [of s] by (simp add: connections_ok_def server_request_stop_def)
next
  case (stop_now s)
  then show ?case by (simp add: peer_accept.open_ok_def connections_ok_def server_stop_now_def)
qed

lemma resp_run_ok: "resp_run limits s \<Longrightarrow> client_accept.open_ok s"
proof (induction rule: resp_run.induct)
  case new
  show ?case by (simp add: client_accept.open_ok_def new_resp_server_def)
next
  case (erase s i)
  then show ?case by (simp add: client_accept.open_ok_def erase_session_def)
qed (use client_accept.open_ok_start client_accept.open_ok_accept client_accept.open_ok_stop in blast)+

text \<open>
  Both servers accept until they are stopped: in every run a server that was started and
  not asked to stop has an accept outstanding, whatever errors earlier accepts and
  connections met; and the peer server keeps no closed connection.
\<close>

theorem servers_keep_accepting:
  assumes "server_run K s" "resp_run limits r"
  shows "(sv_started s \<and> \<not> sv_stop_requested s \<longrightarrow> sv_accepting s)
     \<and> (\<forall>i c. map_of (sv_connections s) i = Some c \<longrightarrow> \<not> cn_stopped c)
     \<and> (rv_started r \<and> \<not> rv_stopped r \<longrightarrow> rv_accepting r)"
  using server_run_ok [OF assms(1)] resp_run_ok [OF assms(2)]
  by (auto simp: peer_accept.open_ok_def client_accept.open_ok_def connections_ok_def)

theorem servers_keep_accepting_witness:
  "sv_accepting (server_on_accept True ((server_start new_server)\<lparr>sv_accepting := False\<rparr>))
   \<and> rv_accepting (resp_start (new_resp_server ex_limits))"
proof -
  have a: "sv_accepting (server_start new_server)"
    by (simp add: server_start_def server_accept_next_def new_server_def)
  note s = server_run.accept [OF server_run.start [OF server_run.new] a, of ex_wire True]
  note r = resp_run.start [OF resp_run.new, of ex_limits]
  show ?thesis
    using servers_keep_accepting [OF s r]
    by (simp add: server_start_def server_accept_next_def server_on_accept_def new_server_def resp_start_def
        resp_accept_next_def new_resp_server_def)
qed

end
