(* ===== verification/Node_Runtime.thy ===== *)
theory Node_Runtime
  imports Cluster KV_Store Peer Listeners
begin

text \<open>
  The node of \<^verbatim>\<open>src/app/node_runtime.cpp\<close>: one state record for the members of
  \<^verbatim>\<open>NodeRuntime::Impl\<close>, one definition per method. Three event loops run the methods: the Raft
  loop owns the Raft core, the read rounds and the hand-off flags; the store loop owns the
  store, the tables of pending requests and the clients; the peer loop owns the connections.
  Work for another loop is posted to its queue. Since each part of the state has one owner, a
  run of the node is a sequence of whole handlers, in any interleaving of the three loops.

  The clock, the outcomes of the operating system and the order in which the loops run are
  arguments of the definitions. A reply callback is represented by a number, and a call of it
  by an entry of \<open>rt_replies\<close>.
\<close>

subsection \<open>State\<close>

type_synonym reply_handle = nat

record pending_write =
  pw_reply :: reply_handle
  pw_deadline :: nat

record pending_read =
  pd_key :: string
  pd_reply :: reply_handle
  pd_deadline :: nat

text \<open>What is posted to the Raft loop and to the store loop.\<close>

datatype raft_task =
    Raft_deliver message
  | Raft_propose nat bytes
  | Raft_read nat
  | Raft_applied nat
  | Raft_snapshot nat bytes
  | Raft_cancel_read nat
  | Raft_stop

datatype store_task =
    Store_reject_write nat string
  | Store_reject_read nat string
  | Store_complete_read nat
  | Store_apply entry
  | Store_capture
  | Store_restore nat bytes
  | Store_stop

text \<open>
  \<open>rt_halted\<close>: an exception left a loop and all three were stopped. \<open>rt_ticking\<close> and \<open>rt_polling\<close>:
  the timers are running. \<open>rt_peer_stop\<close>: the stop of the transport is posted to the peer loop.
\<close>

record runtime =
  rt_config :: node_config
  rt_raft :: raft
  rt_store :: store
  rt_peers :: "peer umap"
  rt_peer_server :: server
  rt_client_server :: resp_server
  rt_pending_writes :: "pending_write umap"
  rt_pending_reads :: "pending_read umap"
  rt_read_indexes :: "read_index_token umap"
  rt_next_request_id :: nat
  rt_store_applied :: nat
  rt_apply_in_flight :: "nat option"
  rt_snapshot_pending :: bool
  rt_logged :: "role \<times> nat \<times> nat"
  rt_stopping :: bool
  rt_exit_code :: nat
  rt_raft_queue :: "raft_task list"
  rt_store_queue :: "store_task list"
  rt_peer_stop :: bool
  rt_ticking :: bool
  rt_polling :: bool
  rt_halted :: bool
  rt_replies :: "(reply_handle \<times> string) list"
  rt_output :: "string list"

definition kRequestTimeout :: nat where
  "kRequestTimeout = 5000"

definition post_raft :: "raft_task \<Rightarrow> runtime \<Rightarrow> runtime" where
  "post_raft t rt = rt\<lparr>rt_raft_queue := rt_raft_queue rt @ [t]\<rparr>"

definition post_store :: "store_task \<Rightarrow> runtime \<Rightarrow> runtime" where
  "post_store t rt = rt\<lparr>rt_store_queue := rt_store_queue rt @ [t]\<rparr>"

definition call_reply :: "reply_handle \<Rightarrow> string \<Rightarrow> runtime \<Rightarrow> runtime" where
  "call_reply h encoded rt = rt\<lparr>rt_replies := rt_replies rt @ [(h, encoded)]\<rparr>"

text \<open>\<^verbatim>\<open>run_context\<close>: what an exception that leaves a handler does.\<close>

definition loop_failed :: "runtime \<Rightarrow> runtime" where
  "loop_failed rt = rt\<lparr>rt_exit_code := 1, rt_stopping := True, rt_halted := True\<rparr>"

definition request_stop :: "string \<Rightarrow> runtime \<Rightarrow> runtime" where
  "request_stop reason rt =
     (let rt1 = (if reason \<noteq> [] then rt\<lparr>rt_exit_code := 1\<rparr> else rt)
      in if rt_stopping rt1 then rt1 else post_raft Raft_stop (rt1\<lparr>rt_stopping := True\<rparr>))"

subsection \<open>Status line\<close>

fun state_name :: "role \<Rightarrow> string" where
  "state_name Follower = ''Follower''"
| "state_name PreCandidate = ''PreCandidate''"
| "state_name Candidate = ''Candidate''"
| "state_name Leader = ''Leader''"

definition log_status_if_changed :: "bool \<Rightarrow> runtime \<Rightarrow> runtime" where
  "log_status_if_changed force rt =
     (let state = r_state (rt_raft rt); trm = r_term (rt_raft rt); leader = r_lead (rt_raft rt)
      in if \<not> force \<and> rt_logged rt = (state, trm, leader) then rt
         else rt\<lparr>rt_logged := (state, trm, leader),
                 rt_output := rt_output rt @
                   [''node '' @ to_string (nc_id (rt_config rt)) @ '' state='' @ state_name state @
                    '' term='' @ to_string trm @ '' leader='' @
                    (if leader = 0 then ''unknown'' else to_string leader)]\<rparr>)"

subsection \<open>Replies\<close>

definition reply_error :: "reply_handle \<Rightarrow> string \<Rightarrow> runtime \<Rightarrow> (exn + unit) \<times> runtime" where
  "reply_error h err rt =
     (case encode_error err of Inl x \<Rightarrow> (Inl x, rt) | Inr s \<Rightarrow> (Inr (), call_reply h s rt))"

text \<open>A handler of a loop that throws ends the loops.\<close>

definition guarded :: "(exn + unit) \<times> runtime \<Rightarrow> runtime" where
  "guarded x = (case x of (Inl _, rt) \<Rightarrow> loop_failed rt | (Inr _, rt) \<Rightarrow> rt)"

definition not_leader_error :: "raft \<Rightarrow> string" where
  "not_leader_error s =
     (if r_lead s = 0 then ''NOT_LEADER UNKNOWN'' else ''NOT_LEADER '' @ to_string (r_lead s))"

definition reject_write :: "nat \<Rightarrow> string \<Rightarrow> runtime \<Rightarrow> runtime" where
  "reject_write request_id err rt =
     (case map_of (rt_pending_writes rt) request_id of
        None \<Rightarrow> rt
      | Some p \<Rightarrow> guarded (reply_error (pw_reply p) err
          (rt\<lparr>rt_pending_writes := umap_erase (rt_pending_writes rt) request_id\<rparr>)))"

definition reject_read :: "nat \<Rightarrow> string \<Rightarrow> runtime \<Rightarrow> runtime" where
  "reject_read request_id err rt =
     (case map_of (rt_pending_reads rt) request_id of
        None \<Rightarrow> rt
      | Some p \<Rightarrow> guarded (reply_error (pd_reply p) err
          (rt\<lparr>rt_pending_reads := umap_erase (rt_pending_reads rt) request_id\<rparr>)))"

definition complete_read :: "nat \<Rightarrow> runtime \<Rightarrow> runtime" where
  "complete_read request_id rt =
     (case map_of (rt_pending_reads rt) request_id of
        None \<Rightarrow> rt
      | Some p \<Rightarrow>
          call_reply (pd_reply p)
            (case kv_get (pd_key p) (rt_store rt) of
               Some value \<Rightarrow> encode_bulk_string value
             | None \<Rightarrow> encode_nil_bulk_string)
            (rt\<lparr>rt_pending_reads := umap_erase (rt_pending_reads rt) request_id\<rparr>))"

text \<open>The cast of the number of affected keys to a signed 64-bit integer.\<close>

definition to_int64 :: "nat \<Rightarrow> int" where
  "to_int64 n = (if n < 9223372036854775808 then int n else int n - 18446744073709551616)"

definition complete_write :: "apply_result \<Rightarrow> runtime \<Rightarrow> (exn + unit) \<times> runtime" where
  "complete_write result rt =
     (case map_of (rt_pending_writes rt) (ar_request_id result) of
        None \<Rightarrow> (Inr (), rt)
      | Some p \<Rightarrow>
          (let rt1 = rt\<lparr>rt_pending_writes := umap_erase (rt_pending_writes rt) (ar_request_id result)\<rparr>
           in if ar_type result = CommandSet
              then (case encode_simple_string ''OK'' of
                      Inl x \<Rightarrow> (Inl x, rt1)
                    | Inr s \<Rightarrow> (Inr (), call_reply (pw_reply p) s rt1))
              else (Inr (), call_reply (pw_reply p) (encode_integer (to_int64 (ar_affected result))) rt1)))"

subsection \<open>Client commands\<close>

definition toupper :: "char \<Rightarrow> char" where
  "toupper c = (if c \<in> set ''abcdefghijklmnopqrstuvwxyz'' then char_of (of_char c - (32 :: nat)) else c)"

definition uppercase_ascii :: "string \<Rightarrow> string" where
  "uppercase_ascii value = map toupper value"

text \<open>\<^verbatim>\<open>allocate_request_id\<close>; the recursive call starts from a number that is not 0.\<close>

definition next_id :: "nat \<Rightarrow> nat \<times> nat" where
  "next_id n = (n, if u64_inc n = 0 then 1 else u64_inc n)"

definition allocate_request_id :: "nat \<Rightarrow> nat \<times> nat" where
  "allocate_request_id n = (case next_id n of (allocated, n') \<Rightarrow> if allocated = 0 then next_id n' else (allocated, n'))"

definition emplace :: "'v umap \<Rightarrow> nat \<Rightarrow> 'v \<Rightarrow> 'v umap" where
  "emplace m k v = (if map_of m k = None then umap_put m k v else m)"

definition begin_write :: "kv_codec \<Rightarrow> nat \<Rightarrow> command \<Rightarrow> reply_handle \<Rightarrow> runtime \<Rightarrow> runtime" where
  "begin_write K now c h rt =
     (case allocate_request_id (rt_next_request_id rt) of
        (request_id, next') \<Rightarrow>
          (let c' = c\<lparr>cmd_origin_node := nc_id (rt_config rt), cmd_request_id := request_id\<rparr>
           in post_raft (Raft_propose request_id (kc_pack_command K c'))
                (rt\<lparr>rt_next_request_id := next',
                    rt_pending_writes := emplace (rt_pending_writes rt) request_id
                      \<lparr>pw_reply = h, pw_deadline = now + kRequestTimeout\<rparr>\<rparr>)))"

definition begin_read :: "nat \<Rightarrow> string \<Rightarrow> reply_handle \<Rightarrow> runtime \<Rightarrow> runtime" where
  "begin_read now key h rt =
     (case allocate_request_id (rt_next_request_id rt) of
        (request_id, next') \<Rightarrow>
          post_raft (Raft_read request_id)
            (rt\<lparr>rt_next_request_id := next',
                rt_pending_reads := emplace (rt_pending_reads rt) request_id
                  \<lparr>pd_key = key, pd_reply = h, pd_deadline = now + kRequestTimeout\<rparr>\<rparr>))"

definition handle_client_command ::
  "kv_codec \<Rightarrow> nat \<Rightarrow> resp_command \<Rightarrow> reply_handle \<Rightarrow> runtime \<Rightarrow> (exn + unit) \<times> runtime" where
  "handle_client_command K now arguments h rt =
     (if arguments = [] then reply_error h ''ERR empty command'' rt
      else
        let name = uppercase_ascii (hd arguments)
        in if name = ''PING'' then
             if length arguments = 1
             then (case encode_simple_string ''PONG'' of
                     Inl x \<Rightarrow> (Inl x, rt) | Inr s \<Rightarrow> (Inr (), call_reply h s rt))
             else if length arguments = 2
             then (Inr (), call_reply h (encode_bulk_string (arguments ! 1)) rt)
             else reply_error h (''ERR wrong number of arguments for '' @ CHR 0x27 # ''ping'' @ CHR 0x27 # '' command'') rt
           else if name = ''GET'' then
             if length arguments \<noteq> 2
             then reply_error h (''ERR wrong number of arguments for '' @ CHR 0x27 # ''get'' @ CHR 0x27 # '' command'') rt
             else (Inr (), begin_read now (arguments ! 1) h rt)
           else if name = ''SET'' then
             if length arguments \<noteq> 3
             then reply_error h (''ERR wrong number of arguments for '' @ CHR 0x27 # ''set'' @ CHR 0x27 # '' command'') rt
             else (Inr (), begin_write K now
                     (default_command\<lparr>cmd_type := CommandSet, cmd_strs := [arguments ! 1, arguments ! 2]\<rparr>) h rt)
           else if name = ''DEL'' then
             if length arguments < 2
             then reply_error h (''ERR wrong number of arguments for '' @ CHR 0x27 # ''del'' @ CHR 0x27 # '' command'') rt
             else (Inr (), begin_write K now
                     (default_command\<lparr>cmd_type := CommandDel, cmd_strs := tl arguments\<rparr>) h rt)
           else reply_error h (''ERR unknown command '' @ CHR 0x27 # hd arguments @ [CHR 0x27]) rt)"

subsection \<open>After every Raft event\<close>

definition dispatch_next_committed_entry :: "runtime \<Rightarrow> runtime" where
  "dispatch_next_committed_entry rt =
     (if rt_apply_in_flight rt \<noteq> None \<or> rt_stopping rt then rt
      else
        (case next_entry_to_apply (rt_raft rt) of
           None \<Rightarrow> rt
         | Some e \<Rightarrow> post_store (Store_apply e) (rt\<lparr>rt_apply_in_flight := Some (entry_index e)\<rparr>)))"

text \<open>The order in which the hash map lists the rounds does not matter: a token that is ready
  is the token of the pending round.\<close>

definition poll_read_indexes :: "runtime \<Rightarrow> runtime" where
  "poll_read_indexes rt =
     (if rt_read_indexes rt = [] then rt
      else if r_state (rt_raft rt) \<noteq> Leader then
        let err = not_leader_error (rt_raft rt)
        in fold (\<lambda>request_id. post_store (Store_reject_read request_id err))
             (map fst (rt_read_indexes rt)) (rt\<lparr>rt_read_indexes := []\<rparr>)
      else
        (case find (\<lambda>p. read_index_ready (snd p) (rt_raft rt)) (rt_read_indexes rt) of
           None \<Rightarrow> rt
         | Some ready \<Rightarrow>
             fold (\<lambda>request_id. post_store (Store_complete_read request_id))
               (map fst (filter (\<lambda>p. snd p = snd ready) (rt_read_indexes rt)))
               (rt\<lparr>rt_read_indexes := filter (\<lambda>p. snd p \<noteq> snd ready) (rt_read_indexes rt),
                   rt_raft := finish_read_index (snd ready) (rt_raft rt)\<rparr>)))"

definition maybe_capture_snapshot :: "runtime \<Rightarrow> runtime" where
  "maybe_capture_snapshot rt =
     (if rt_snapshot_pending rt \<or> \<not> should_snapshot (rt_raft rt) then rt
      else post_store Store_capture (rt\<lparr>rt_snapshot_pending := True\<rparr>))"

fun send_messages :: "message_codec \<Rightarrow> message list \<Rightarrow> runtime \<Rightarrow> runtime" where
  "send_messages M [] rt = rt"
| "send_messages M (m # ms) rt =
     (case map_of (rt_peers rt) (m_to m) of
        None \<Rightarrow> send_messages M ms rt
      | Some p \<Rightarrow>
          (case peer_send M m p of
             (Inl x, p') \<Rightarrow> request_stop ''peer transport encode failed: ''
                (rt\<lparr>rt_peers := umap_put (rt_peers rt) (m_to m) p'\<rparr>)
           | (Inr False, p') \<Rightarrow> request_stop ''peer transport outbound queue exhausted''
                (rt\<lparr>rt_peers := umap_put (rt_peers rt) (m_to m) p'\<rparr>)
           | (Inr True, p') \<Rightarrow> send_messages M ms (rt\<lparr>rt_peers := umap_put (rt_peers rt) (m_to m) p'\<rparr>)))"

definition flush_raft_messages :: "message_codec \<Rightarrow> runtime \<Rightarrow> runtime" where
  "flush_raft_messages M rt =
     (case read_messages (rt_raft rt) of (ms, s) \<Rightarrow> send_messages M ms (rt\<lparr>rt_raft := s\<rparr>))"

definition after_raft_activity :: "message_codec \<Rightarrow> runtime \<Rightarrow> runtime" where
  "after_raft_activity M rt =
     (if r_storage_failed (rt_raft rt) then request_stop ''WAL synchronization failed'' rt
      else log_status_if_changed False
        (flush_raft_messages M
          (maybe_capture_snapshot (poll_read_indexes (dispatch_next_committed_entry rt)))))"

subsection \<open>The store loop\<close>

definition acknowledge_applied :: "nat \<Rightarrow> runtime \<Rightarrow> runtime" where
  "acknowledge_applied i rt = post_raft (Raft_applied i) rt"

definition apply_committed_entry :: "kv_codec \<Rightarrow> entry \<Rightarrow> runtime \<Rightarrow> runtime" where
  "apply_committed_entry K e rt =
     (if rt_stopping rt then rt
      else if entry_index e \<le> rt_store_applied rt then acknowledge_applied (entry_index e) rt
      else if entry_index e \<noteq> u64_inc (rt_store_applied rt)
      then request_stop ''state-machine apply handoff contains an index gap'' rt
      else
        (case (if entry_type e = EntryNormal \<and> entry_data e \<noteq> [] then
                 (case kv_apply K e (rt_store rt) of
                    (Inl x, st) \<Rightarrow> (Inl x, rt\<lparr>rt_store := st\<rparr>)
                  | (Inr result, st) \<Rightarrow>
                      if ar_origin_node result = nc_id (rt_config rt)
                      then complete_write result (rt\<lparr>rt_store := st\<rparr>)
                      else (Inr (), rt\<lparr>rt_store := st\<rparr>))
               else (Inr (), rt)) of
           (Inl x, rt1) \<Rightarrow> request_stop ''state-machine apply failed: '' rt1
         | (Inr _, rt1) \<Rightarrow>
             acknowledge_applied (entry_index e) (rt1\<lparr>rt_store_applied := entry_index e\<rparr>)))"

definition capture_snapshot :: "kv_codec \<Rightarrow> runtime \<Rightarrow> runtime" where
  "capture_snapshot K rt = post_raft (Raft_snapshot (rt_store_applied rt) (serialize K (rt_store rt))) rt"

definition restore_now :: "kv_codec \<Rightarrow> nat \<Rightarrow> bytes \<Rightarrow> runtime \<Rightarrow> bool \<times> runtime" where
  "restore_now K i data rt =
     (case deserialize K data (rt_store rt) of
        (Inl x, st) \<Rightarrow> (False, rt\<lparr>rt_store := st\<rparr>)
      | (Inr _, st) \<Rightarrow> (True, rt\<lparr>rt_store := st, rt_store_applied := i\<rparr>))"

text \<open>The loops of the stop handler over the pending requests; the first exception leaves it.\<close>

fun reply_all :: "reply_handle list \<Rightarrow> string \<Rightarrow> runtime \<Rightarrow> (exn + unit) \<times> runtime" where
  "reply_all [] err rt = (Inr (), rt)"
| "reply_all (h # hs) err rt =
     (case reply_error h err rt of
        (Inl x, rt') \<Rightarrow> (Inl x, rt')
      | (Inr _, rt') \<Rightarrow> reply_all hs err rt')"

definition stop_store :: "runtime \<Rightarrow> runtime" where
  "stop_store rt = guarded
     (let rt1 = rt\<lparr>rt_polling := False\<rparr>
      in case reply_all (map (pw_reply \<circ> snd) (rt_pending_writes rt1)) ''TRYAGAIN node stopping'' rt1 of
           (Inl x, rt2) \<Rightarrow> (Inl x, rt2)
         | (Inr _, rt2) \<Rightarrow>
             let rt3 = rt2\<lparr>rt_pending_writes := []\<rparr>
             in case reply_all (map (pd_reply \<circ> snd) (rt_pending_reads rt3)) ''TRYAGAIN node stopping'' rt3 of
                  (Inl x, rt4) \<Rightarrow> (Inl x, rt4)
                | (Inr _, rt4) \<Rightarrow>
                    (Inr (), rt4\<lparr>rt_pending_reads := [],
                               rt_client_server := snd (resp_stop (rt_client_server rt4))\<rparr>))"

lemma reply_error_clean:
  "\<not> has_line_break err \<Longrightarrow> reply_error h err rt = (Inr (), call_reply h (CHR ''-'' # err @ [CR, LF]) rt)"
  by (simp add: reply_error_def encode_error_def)

lemma reply_all_clean:
  "\<not> has_line_break err \<Longrightarrow> reply_all hs err rt =
     (Inr (), rt\<lparr>rt_replies := rt_replies rt @ map (\<lambda>h. (h, CHR ''-'' # err @ [CR, LF])) hs\<rparr>)"
  by (induction hs arbitrary: rt) (simp_all add: reply_error_clean call_reply_def)

text \<open>The text of the stop handler has no line break, so that all its replies are encoded.\<close>

lemma stop_store_eq:
  "stop_store rt = rt\<lparr>rt_polling := False, rt_pending_writes := [], rt_pending_reads := [],
     rt_client_server := snd (resp_stop (rt_client_server rt)),
     rt_replies := rt_replies rt @
       map (\<lambda>h. (h, CHR ''-'' # ''TRYAGAIN node stopping'' @ [CR, LF]))
         (map (pw_reply \<circ> snd) (rt_pending_writes rt) @ map (pd_reply \<circ> snd) (rt_pending_reads rt))\<rparr>"
  by (simp add: stop_store_def Let_def reply_all_clean has_line_break_def guarded_def)

fun run_store_task :: "kv_codec \<Rightarrow> store_task \<Rightarrow> runtime \<Rightarrow> runtime" where
  "run_store_task K (Store_reject_write i err) rt = reject_write i err rt"
| "run_store_task K (Store_reject_read i err) rt = reject_read i err rt"
| "run_store_task K (Store_complete_read i) rt = complete_read i rt"
| "run_store_task K (Store_apply e) rt = apply_committed_entry K e rt"
| "run_store_task K Store_capture rt = capture_snapshot K rt"
| "run_store_task K (Store_restore i data) rt = snd (restore_now K i data rt)"
| "run_store_task K Store_stop rt = stop_store rt"

definition expire_client_requests :: "nat \<Rightarrow> runtime \<Rightarrow> runtime" where
  "expire_client_requests now rt =
     (let expired_writes = map fst (filter (\<lambda>p. pw_deadline (snd p) \<le> now) (rt_pending_writes rt));
          rt1 = fold (\<lambda>i. reject_write i ''TRYAGAIN write outcome unknown'') expired_writes rt;
          expired_reads = map fst (filter (\<lambda>p. pd_deadline (snd p) \<le> now) (rt_pending_reads rt1))
      in fold (\<lambda>i r. post_raft (Raft_cancel_read i) (reject_read i ''TRYAGAIN read quorum unavailable'' r))
           expired_reads rt1)"

definition on_request_poll :: "bool \<Rightarrow> nat \<Rightarrow> runtime \<Rightarrow> runtime" where
  "on_request_poll cancelled now rt =
     (if cancelled \<or> rt_stopping rt then rt\<lparr>rt_polling := False\<rparr>
      else (expire_client_requests now rt)\<lparr>rt_polling := True\<rparr>)"

subsection \<open>The Raft loop\<close>

text \<open>
  \<^verbatim>\<open>restore_snapshot\<close> posts the restoration to the store loop and waits for it. When it does
  not time out, the store loop has run what was posted before, and then the restoration. When
  it does, the posted restoration stays in the queue.
\<close>

definition restore_snapshot :: "kv_codec \<Rightarrow> bool \<Rightarrow> nat \<Rightarrow> bytes \<Rightarrow> runtime \<Rightarrow> bool \<times> runtime" where
  "restore_snapshot K timed_out i data rt =
     (if rt_apply_in_flight rt \<noteq> None \<or> rt_stopping rt then (False, rt)
      else if timed_out
      then (False, request_stop ''snapshot restore timed out'' (post_store (Store_restore i data) rt))
      else restore_now K i data
             (fold (run_store_task K) (rt_store_queue rt) (rt\<lparr>rt_store_queue := []\<rparr>)))"

text \<open>
  The condition under which \<^verbatim>\<open>handle_install_snapshot\<close> calls the callback. The callback does not
  touch the Raft core, so it can run before the handler, which is then given its result.
\<close>

definition calls_restore :: "message \<Rightarrow> raft \<Rightarrow> bool" where
  "calls_restore msg s \<longleftrightarrow>
     m_type msg = MsgInstallSnapshot \<and> r_snapshot_restore s \<noteq> None
     \<and> (case prepare_for_leader_rpc msg s of
          (ok, s1) \<Rightarrow> ok \<and> m_snapshot_index msg \<noteq> 0 \<and> m_snapshot_term msg \<noteq> 0
            \<and> m_snapshot_term msg \<le> m_term msg \<and> m_snapshot_data msg \<noteq> [] \<and> \<not> stale_snapshot msg s1)"

definition deliver :: "kv_codec \<Rightarrow> bool \<Rightarrow> message \<Rightarrow> runtime \<Rightarrow> (exn + unit) \<times> runtime" where
  "deliver K timed_out msg rt =
     (let (restored, rt1) =
            (if calls_restore msg (rt_raft rt)
             then restore_snapshot K timed_out (m_snapshot_index msg) (m_snapshot_data msg) rt
             else (False, rt))
      in case handle_raft_message msg (set_snapshot_restore_callback (\<lambda>_ _. restored) (rt_raft rt1)) of
           (r, s) \<Rightarrow> (r, rt1\<lparr>rt_raft := s\<rparr>))"

definition known_type :: "message \<Rightarrow> bool" where
  "known_type msg \<longleftrightarrow> m_type msg \<le> MsgInstallSnapshotResponse"

definition on_message :: "kv_codec \<Rightarrow> message_codec \<Rightarrow> bool \<Rightarrow> message \<Rightarrow> runtime \<Rightarrow> runtime" where
  "on_message K M timed_out msg rt =
     (if rt_stopping rt then rt
      else if \<not> known_type msg then rt
      else case deliver K timed_out msg rt of
             (Inl x, rt1) \<Rightarrow> loop_failed rt1
           | (Inr _, rt1) \<Rightarrow> after_raft_activity M rt1)"

definition on_propose :: "message_codec \<Rightarrow> nat \<Rightarrow> bytes \<Rightarrow> runtime \<Rightarrow> runtime" where
  "on_propose M request_id data rt =
     (if rt_stopping rt then rt
      else case propose data (rt_raft rt) of
             (Inl x, s) \<Rightarrow> loop_failed (rt\<lparr>rt_raft := s\<rparr>)
           | (Inr accepted, s) \<Rightarrow>
               after_raft_activity M
                 (if accepted = None
                  then post_store (Store_reject_write request_id
                         (if \<not> r_storage_failed s then not_leader_error s
                          else ''TRYAGAIN storage unavailable'')) (rt\<lparr>rt_raft := s\<rparr>)
                  else rt\<lparr>rt_raft := s\<rparr>))"

definition on_read_request :: "message_codec \<Rightarrow> nat \<Rightarrow> runtime \<Rightarrow> runtime" where
  "on_read_request M request_id rt =
     (if rt_stopping rt then rt
      else case read_index (rt_raft rt) of
             (Inl x, s) \<Rightarrow> loop_failed (rt\<lparr>rt_raft := s\<rparr>)
           | (Inr None, s) \<Rightarrow>
               after_raft_activity M
                 (post_store (Store_reject_read request_id (not_leader_error s)) (rt\<lparr>rt_raft := s\<rparr>))
           | (Inr (Some tok), s) \<Rightarrow>
               after_raft_activity M
                 (rt\<lparr>rt_raft := s, rt_read_indexes := umap_put (rt_read_indexes rt) request_id tok\<rparr>))"

definition on_applied :: "message_codec \<Rightarrow> nat \<Rightarrow> runtime \<Rightarrow> runtime" where
  "on_applied M i rt =
     (if rt_stopping rt then rt
      else if i \<le> r_last_applied (rt_raft rt) then rt
      else if rt_apply_in_flight rt \<noteq> Some i \<or> i \<noteq> u64_inc (r_last_applied (rt_raft rt))
      then request_stop ''state-machine apply acknowledgment is out of order'' rt
      else
        let rt1 = rt\<lparr>rt_raft := advance i (rt_raft rt)\<rparr>
        in if r_last_applied (rt_raft rt1) \<noteq> i
           then request_stop ''state-machine apply acknowledgment was rejected'' rt1
           else after_raft_activity M (rt1\<lparr>rt_apply_in_flight := None\<rparr>))"

definition on_snapshot :: "message_codec \<Rightarrow> nat \<Rightarrow> bytes \<Rightarrow> runtime \<Rightarrow> runtime" where
  "on_snapshot M i state rt =
     (let rt1 = rt\<lparr>rt_snapshot_pending := False\<rparr>
      in if rt_stopping rt1 then rt1
         else case take_snapshot i state (rt_raft rt1) of
                (Inl x, s) \<Rightarrow> loop_failed (rt1\<lparr>rt_raft := s\<rparr>)
              | (Inr _, s) \<Rightarrow> after_raft_activity M (rt1\<lparr>rt_raft := s\<rparr>))"

definition cancel_raft_read :: "nat \<Rightarrow> runtime \<Rightarrow> runtime" where
  "cancel_raft_read request_id rt =
     (case map_of (rt_read_indexes rt) request_id of
        None \<Rightarrow> rt
      | Some tok \<Rightarrow>
          (let rt1 = rt\<lparr>rt_read_indexes := umap_erase (rt_read_indexes rt) request_id\<rparr>
           in if \<exists>p \<in> set (rt_read_indexes rt1). snd p = tok then rt1
              else rt1\<lparr>rt_raft := finish_read_index tok (rt_raft rt1)\<rparr>))"

definition stop_on_raft_loop :: "runtime \<Rightarrow> runtime" where
  "stop_on_raft_loop rt = post_store Store_stop (rt\<lparr>rt_ticking := False, rt_peer_stop := True\<rparr>)"

fun run_raft_task :: "kv_codec \<Rightarrow> message_codec \<Rightarrow> bool \<Rightarrow> raft_task \<Rightarrow> runtime \<Rightarrow> runtime" where
  "run_raft_task K M timed_out (Raft_deliver msg) rt = on_message K M timed_out msg rt"
| "run_raft_task K M timed_out (Raft_propose i data) rt = on_propose M i data rt"
| "run_raft_task K M timed_out (Raft_read i) rt = on_read_request M i rt"
| "run_raft_task K M timed_out (Raft_applied i) rt = on_applied M i rt"
| "run_raft_task K M timed_out (Raft_snapshot i state) rt = on_snapshot M i state rt"
| "run_raft_task K M timed_out (Raft_cancel_read i) rt = cancel_raft_read i rt"
| "run_raft_task K M timed_out Raft_stop rt = stop_on_raft_loop rt"

definition on_tick :: "message_codec \<Rightarrow> bool \<Rightarrow> runtime \<Rightarrow> runtime" where
  "on_tick M cancelled rt =
     (if cancelled \<or> rt_stopping rt then rt\<lparr>rt_ticking := False\<rparr>
      else (after_raft_activity M (rt\<lparr>rt_raft := tick (rt_raft rt)\<rparr>))\<lparr>rt_ticking := True\<rparr>)"

subsection \<open>The peer loop\<close>

definition on_peer_message :: "message \<Rightarrow> runtime \<Rightarrow> runtime" where
  "on_peer_message msg rt = post_raft (Raft_deliver msg) rt"

definition stop_peers :: "runtime \<Rightarrow> runtime" where
  "stop_peers rt =
     rt\<lparr>rt_peer_stop := False, rt_peer_server := server_request_stop (rt_peer_server rt),
        rt_peers := map (\<lambda>(i, p). (i, peer_request_stop p)) (rt_peers rt)\<rparr>"

end
