(* ===== verification/Wal_Crc.thy ===== *)
theory Wal_Crc
  imports Prelude
begin

text \<open>
  The checksum of \<^verbatim>\<open>src/wal/wal.cpp\<close>: the table as the source has it, and the loop over the
  payload. The theory shows what the table is good for: a changed byte always changes the
  checksum; and how it differs from the table of the polynomial.
\<close>

unbundle bit_operations_syntax

definition kCrc32Table :: "32 word list" where
  "kCrc32Table =
    [0x00000000, 0x77073096, 0xEE0E612C, 0x990951BA, 0x076DC419, 0x706AF48F, 0xE963A535, 0x9E6495A3,
     0x0EDB8832, 0x79DC18A4, 0xE0D5E91E, 0x97D2D988, 0x09B64C2B, 0x7EB17CBD, 0xE7B82D09, 0x90BF1D3F,
     0x1DB71064, 0x6AB020F2, 0xF3B97148, 0x84BE41DE, 0x1ADAD47D, 0x6DDDE4EB, 0xF4D4B551, 0x83D385C7,
     0x136C9856, 0x646BA8C0, 0xFD62F97A, 0x8A65C9EC, 0x14015C4F, 0x63066CD9, 0xFA0F3D63, 0x8D080DF5,
     0x3B6E20C8, 0x4C69105E, 0xD56041E4, 0xA2677172, 0x3C03E4D1, 0x4B04D447, 0xD20D85FD, 0xA50AB56B,
     0x35B5A8FA, 0x42B2986C, 0xDBBBC9D6, 0xACBCF940, 0x32D86CE3, 0x45DF5C75, 0xDCD60DCF, 0xABD13D59,
     0x26D930AC, 0x51DE003A, 0xC8D75180, 0xBFD06116, 0x21B4F6B5, 0x56B3C423, 0xCFBA9599, 0xB8BDA50F,
     0x2802B89E, 0x5F058808, 0xC60CD9B2, 0xB10BE924, 0x2F6F7C87, 0x58684C11, 0xC1611DAB, 0xB6662D3D,
     0x76DC4190, 0x01DB7106, 0x98D220BC, 0xEFD5102A, 0x71B18589, 0x06B6B51F, 0x9FBFE4A5, 0xE8B8D433,
     0x7807C9A2, 0x0F00F934, 0x9609A88E, 0xE10E9818, 0x7F6A0DBB, 0x086D3D2D, 0x91646C97, 0xE6635C01,
     0x6B6B51F4, 0x1C6C6162, 0x856530D8, 0xF262004E, 0x6C0695ED, 0x1B01A57B, 0x8208F4C1, 0xF50FC457,
     0x65B0D9C6, 0x12B7E950, 0x8BBEB8EA, 0xFCB9887C, 0x62DD1DDF, 0x15DA2D49, 0x8CD37CF3, 0xFBD44C65,
     0x4DB26158, 0x3AB551CE, 0xA3BC0074, 0xD4BB30E2, 0x4ADFA541, 0x3DD895D7, 0xA4D1C46D, 0xD3D6F4FB,
     0x4369E96A, 0x346ED9FC, 0xAD678846, 0xDA60B8D0, 0x44042D73, 0x33031DE5, 0xAA0A4C5F, 0xDD0D7AC9,
     0x5005713C, 0x270241AA, 0xBE0B1010, 0xC90C2086, 0x5768B525, 0x206F85B3, 0xB966D409, 0xCE61E49F,
     0x5EDEF90E, 0x29D9C998, 0xB0D09822, 0xC7D7A8B4, 0x59B33D17, 0x2EB40D81, 0xB7BD5C3B, 0xC0BA6CAD,
     0xEDB88320, 0x9ABFB3B6, 0x03B6E20C, 0x74B1D29A, 0xEAD54739, 0x9DD277AF, 0x04DB2615, 0x73DC1683,
     0xE3630B12, 0x94643B84, 0x0D6D6A3E, 0x7A6A5AA8, 0xE40ECF0B, 0x9309FF9D, 0x0A00AE27, 0x7D079EB1,
     0xF00F9344, 0x8708A3D2, 0x1E01F268, 0x6906C2FE, 0xF762575D, 0x806567CB, 0x196C3671, 0x6E6B06E7,
     0xFED41B76, 0x89D32BE0, 0x10DA7A5A, 0x67DD4ACC, 0xF9B9DF6F, 0x8EBEEFF9, 0x17B7BE43, 0x60B08ED5,
     0xD6D6A3E8, 0xA1D1937E, 0x38D8C2C4, 0x4FDFF252, 0xD1BB67F1, 0xA6BC5767, 0x3FB506DD, 0x48B2364B,
     0xD80D2BDA, 0xAF0A1B4C, 0x36034AF6, 0x41047A60, 0xDF60EFC3, 0xA867DF55, 0x316E8EEF, 0x4669BE79,
     0xCB61B38B, 0xBC66831D, 0x256FD2A7, 0x5268E231, 0xCC0C7795, 0xBB0B4703, 0x220216B9, 0x5505262F,
     0xC5BA3BBE, 0xB2BD0B28, 0x2BB45A92, 0x5CB36A04, 0xC2D766A8, 0xB5D0569E, 0x2CD99E8B, 0x5BDEAE1D,
     0x9B64C2B0, 0xEC63F226, 0x756AA39C, 0x026D930A, 0x9C0906A9, 0xEB0E363F, 0x72076785, 0x05005713,
     0x95BF4A82, 0xE2B87A14, 0x7BB12BAE, 0x0CB61B38, 0x92D28E9B, 0xE5D5BE0D, 0x7CDCEFB7, 0x0BDBDF21,
     0x86D3D2D4, 0xF1D4E242, 0x68DDB3F8, 0x1FAAAB6E, 0x81EE3ECD, 0xF6E90E5B, 0x6FE05FE1, 0x18E76F77,
     0x88085AE6, 0xFF0F6B70, 0x66063BCA, 0x11010B5C, 0x8F659EFF, 0xF862AE69, 0x616BFFD3, 0x166CCF45,
     0xA00AE278, 0xD70DD2EE, 0x4E048354, 0x3903B3C2, 0xA7672661, 0xD06016F7, 0x4969474D, 0x3E6E77DB,
     0xAED16A4A, 0xD9D65ADC, 0x40DF0B66, 0x37D83BF0, 0xA9BCAE53, 0xDEBB9EC5, 0x47B2CF7F, 0x30B5FFE9,
     0xBDBDF21C, 0xCABAC28A, 0x53B39330, 0x24B4A3A6, 0xBAD03605, 0xCDD70693, 0x54DE5729, 0x23D967BF,
     0xB3667A2E, 0xC4614AB8, 0x5D681B02, 0x2A6F2B94, 0xB40BBE37, 0xC30C8EA1, 0x5A05DF1B, 0x2D02EF8D]"

definition crc32_step :: "32 word \<Rightarrow> byte \<Rightarrow> 32 word" where
  "crc32_step crc b = (kCrc32Table ! unat ((crc XOR ucast b) AND 0xFF)) XOR drop_bit 8 crc"

definition crc32 :: "bytes \<Rightarrow> 32 word" where
  "crc32 data = foldl crc32_step 0xFFFFFFFF data XOR 0xFFFFFFFF"

lemma length_table: "length kCrc32Table = 256"
  by (simp add: kCrc32Table_def)

subsection \<open>What the table guarantees\<close>

text \<open>The top bytes of the entries are pairwise distinct, so the top byte of a checksum names
  the entry of the last step.\<close>

lemma top_bytes_distinct: "distinct (map (\<lambda>w. unat (drop_bit 24 w)) kCrc32Table)"
  by (simp add: kCrc32Table_def)

lemma table_entry_by_top_byte:
  assumes "i < 256" "j < 256" "drop_bit 24 (kCrc32Table ! i) = drop_bit 24 (kCrc32Table ! j)"
  shows "i = j"
  using top_bytes_distinct assms nth_eq_iff_index_eq
    [of "map (\<lambda>w. unat (drop_bit 24 w)) kCrc32Table" i j]
  by (simp add: length_table)

lemma low_byte_less: "unat (w AND 0xFF :: 32 word) < 256"
proof -
  have "w AND 0xFF = take_bit 8 w" by (simp add: take_bit_eq_mask mask_numeral)
  moreover have "unat (take_bit 8 w) < 2 ^ 8" unfolding unsigned_take_bit_eq by (rule take_bit_nat_less_exp)
  ultimately show ?thesis by simp
qed

lemma xor_cancel: "x XOR y = x XOR z \<longleftrightarrow> y = z" "y XOR x = z XOR x \<longleftrightarrow> y = z" for x y z :: "32 word"
proof -
  have "x XOR (x XOR v) = v" for v by (simp flip: xor.assoc)
  then show 1: "x XOR y = x XOR z \<longleftrightarrow> y = z" by metis
  then show "y XOR x = z XOR x \<longleftrightarrow> y = z" by (simp add: xor.commute)
qed

lemma drop_top_byte: "drop_bit 24 (drop_bit 8 w) = (0 :: 32 word)"
  by (rule bit_eqI) (auto simp: bit_simps dest: bit_imp_le_length)

lemma word_split_low_byte:
  fixes v w :: "32 word"
  assumes "v AND 0xFF = w AND 0xFF" "drop_bit 8 v = drop_bit 8 w"
  shows "v = w"
proof -
  have "take_bit 8 v = take_bit 8 w" using assms(1) by (simp add: take_bit_eq_mask mask_numeral)
  with assms(2) show ?thesis by (metis bits_ident)
qed

lemma crc32_step_eqD:
  assumes "crc32_step c b = crc32_step c' b'"
  shows "drop_bit 8 c = drop_bit 8 c'" "(c XOR ucast b) AND 0xFF = (c' XOR ucast b') AND 0xFF"
proof -
  let ?i = "unat ((c XOR ucast b) AND 0xFF)" and ?j = "unat ((c' XOR ucast b') AND 0xFF)"
  have "drop_bit 24 (crc32_step c b) = drop_bit 24 (kCrc32Table ! ?i)"
    "drop_bit 24 (crc32_step c' b') = drop_bit 24 (kCrc32Table ! ?j)"
    by (simp_all add: crc32_step_def drop_bit_xor drop_top_byte)
  with assms have "?i = ?j" by (intro table_entry_by_top_byte low_byte_less) simp_all
  then show 2: "(c XOR ucast b) AND 0xFF = (c' XOR ucast b') AND 0xFF"
    by (rule unsigned_word_eqI)
  with assms show "drop_bit 8 c = drop_bit 8 c'" by (simp add: crc32_step_def xor_cancel)
qed

lemma crc32_step_inj: "crc32_step c b = crc32_step c' b \<longleftrightarrow> c = c'"
proof
  assume "crc32_step c b = crc32_step c' b"
  note e = crc32_step_eqD [OF this]
  have "c AND 0xFF = c' AND 0xFF" using e(2) by (simp only: bit.conj_xor_distrib2 xor_cancel)
  then show "c = c'" using e(1) by (rule word_split_low_byte)
qed simp

lemma byte_and_mask: "ucast b AND 0xFF = (ucast b :: 32 word)" for b :: byte
proof -
  have "ucast b AND 0xFF = take_bit 8 (ucast b :: 32 word)" by (simp add: take_bit_eq_mask mask_numeral)
  also have "\<dots> = ucast b" by (rule bit_word_eqI) (auto simp: bit_simps dest: bit_imp_le_length)
  finally show ?thesis .
qed

lemma crc32_step_byte_inj: "crc32_step c b = crc32_step c b' \<longleftrightarrow> b = b'"
proof
  assume "crc32_step c b = crc32_step c b'"
  from crc32_step_eqD(2) [OF this] have "ucast b AND 0xFF = (ucast b' AND 0xFF :: 32 word)"
    by (simp only: bit.conj_xor_distrib2 xor_cancel)
  then have *: "ucast b = (ucast b' :: 32 word)" by (simp add: byte_and_mask)
  show "b = b'"
  proof (rule bit_word_eqI)
    fix n assume "n < LENGTH(8)"
    then have "bit v n = bit (ucast v :: 32 word) n" for v :: byte by (simp add: bit_simps)
    with * show "bit b n = bit b' n" by simp
  qed
qed simp

lemma crc32_fold_inj: "foldl crc32_step c bs = foldl crc32_step c' bs \<longleftrightarrow> c = c'"
  by (induction bs arbitrary: c c') (simp_all add: crc32_step_inj)

lemma crc32_detects_byte:
  assumes "b \<noteq> b'"
  shows "crc32 (xs @ b # ys) \<noteq> crc32 (xs @ b' # ys)"
  using assms by (simp add: crc32_def crc32_fold_inj crc32_step_byte_inj xor_cancel)


subsection \<open>The table and the polynomial\<close>

text \<open>What the comment above the table names: the remainder by the polynomial
  \<^verbatim>\<open>0xEDB88320\<close>, bit by bit, and the checksum it gives.\<close>

definition polynomial_bit :: "int \<Rightarrow> int" where
  "polynomial_bit c = (if odd c then (c div 2) XOR 0xEDB88320 else c div 2)"

definition polynomial_byte :: "int \<Rightarrow> int" where
  "polynomial_byte c = (polynomial_bit ^^ 8) c"

definition polynomial_crc32 :: "bytes \<Rightarrow> int" where
  "polynomial_crc32 data = foldl (\<lambda>crc b. polynomial_byte (crc XOR uint b)) 0xFFFFFFFF data XOR 0xFFFFFFFF"

lemma polynomial_byte_eq:
  "polynomial_byte c = polynomial_bit (polynomial_bit (polynomial_bit (polynomial_bit
     (polynomial_bit (polynomial_bit (polynomial_bit (polynomial_bit c)))))))"
  by (simp add: polynomial_byte_def eval_nat_numeral)

fun deviations :: "int \<Rightarrow> 32 word list \<Rightarrow> int list" where
  "deviations i [] = []"
| "deviations i (w # ws) =
     (if uint w = polynomial_byte i then deviations (i + 1) ws else i # deviations (i + 1) ws)"

text \<open>
  C21. The table is not the table of the polynomial its comment names: seventeen entries
  differ, and the checksum of the nine digits \<open>123456789\<close> is 0xFDC2C678, where the polynomial
  gives its well-known check value 0xCBF43926.
\<close>

theorem table_is_not_the_polynomial:
  "deviations 0 kCrc32Table =
     [0x09, 0x0E, 0x0F, 0x34, 0x6F, 0xB0, 0xB1, 0xB2, 0xB3, 0xBC, 0xBD, 0xD3, 0xD4, 0xD5, 0xD6, 0xD7, 0xD9]
   \<and> crc32 [0x31, 0x32, 0x33, 0x34, 0x35, 0x36, 0x37, 0x38, 0x39] = 0xFDC2C678
   \<and> polynomial_crc32 [0x31, 0x32, 0x33, 0x34, 0x35, 0x36, 0x37, 0x38, 0x39] = 0xCBF43926"
proof (intro conjI)
  show "deviations 0 kCrc32Table =
     [0x09, 0x0E, 0x0F, 0x34, 0x6F, 0xB0, 0xB1, 0xB2, 0xB3, 0xBC, 0xBD, 0xD3, 0xD4, 0xD5, 0xD6, 0xD7, 0xD9]"
    by (simp add: kCrc32Table_def polynomial_byte_eq polynomial_bit_def)
  show "crc32 [0x31, 0x32, 0x33, 0x34, 0x35, 0x36, 0x37, 0x38, 0x39] = 0xFDC2C678"
    by (simp add: crc32_def crc32_step_def kCrc32Table_def)
  show "polynomial_crc32 [0x31, 0x32, 0x33, 0x34, 0x35, 0x36, 0x37, 0x38, 0x39] = 0xCBF43926"
    by (simp add: polynomial_crc32_def polynomial_byte_eq polynomial_bit_def)
qed

end
