(* ===== verification/Wal_Bytes.thy ===== *)
theory Wal_Bytes
  imports Wal Wal_Crc Byte_Words Text
    "HOL-Library.List_Lexorder" "HOL-Library.Char_ord" "HOL-Library.Sublist"
begin

text \<open>
  The write-ahead log as the file system has it: the record layout of \<^verbatim>\<open>src/wal/proto.h\<close>,
  and of \<^verbatim>\<open>src/wal/wal.cpp\<close> the file names, the factories, the write path into a byte buffer,
  and the recovery that scans the bytes and cuts a damaged tail. The theory relates all this to
  the records of theory \<open>Wal\<close>, which the Raft core is verified against.

  MessagePack is a parameter, \<open>wal_codec\<close>. Converting into an existing object may fail after
  some of its fields have been written, so \<open>wc_unpack_hard_state\<close> takes the object and returns
  whether it succeeded together with what the object then holds.
\<close>

unbundle bit_operations_syntax

subsection \<open>Record headers\<close>

definition RecordTypeEntry :: byte where "RecordTypeEntry = 1"
definition RecordTypeHardState :: byte where "RecordTypeHardState = 2"
definition RecordTypeSnapshot :: byte where "RecordTypeSnapshot = 4"

lemmas record_type_defs = RecordTypeEntry_def RecordTypeHardState_def RecordTypeSnapshot_def

record record_header =
  rh_type :: byte
  rh_len :: "32 word"
  rh_crc :: "32 word"

definition header_encode :: "record_header \<Rightarrow> bytes" where
  "header_encode hdr =
     [rh_type hdr, byte_at 0 (rh_len hdr), byte_at 1 (rh_len hdr), byte_at 2 (rh_len hdr),
      byte_at 0 (rh_crc hdr), byte_at 1 (rh_crc hdr), byte_at 2 (rh_crc hdr), byte_at 3 (rh_crc hdr)]"

definition header_decode :: "bytes \<Rightarrow> record_header" where
  "header_decode data =
     \<lparr>rh_type = data ! 0,
      rh_len = from_byte 0 (data ! 1) OR from_byte 1 (data ! 2) OR from_byte 2 (data ! 3),
      rh_crc = from_byte 0 (data ! 4) OR from_byte 1 (data ! 5) OR from_byte 2 (data ! 6)
        OR from_byte 3 (data ! 7)\<rparr>"

subsection \<open>File names\<close>

text \<open>\<^verbatim>\<open>std::stoull(s, nullptr, 16)\<close>: leading white space, a sign, a prefix \<open>0x\<close>, then the
  longest run of digits; \<open>None\<close> stands for the two exceptions, which the caller treats alike.\<close>

definition is_space :: "char \<Rightarrow> bool" where
  "is_space c \<longleftrightarrow> c \<in> {CHR 0x20, CHR 0x09, CHR 0x0A, CHR 0x0B, CHR 0x0C, CHR 0x0D}"

definition is_hex :: "char \<Rightarrow> bool" where
  "is_hex c \<longleftrightarrow> hex_value c \<noteq> None"

fun split_sign :: "string \<Rightarrow> bool \<times> string" where
  "split_sign (c # cs) =
     (if c = CHR ''-'' then (True, cs) else if c = CHR ''+'' then (False, cs) else (False, c # cs))"
| "split_sign [] = (False, [])"

fun skip_0x :: "string \<Rightarrow> string" where
  "skip_0x (a # b # c # cs) =
     (if a = CHR ''0'' \<and> (b = CHR ''x'' \<or> b = CHR ''X'') \<and> is_hex c then c # cs else a # b # c # cs)"
| "skip_0x s = s"

definition stoull16 :: "string \<Rightarrow> nat option" where
  "stoull16 s =
     (let (negative, t) = split_sign (dropWhile is_space s);
          digits = takeWhile is_hex (skip_0x t)
      in if digits = [] \<or> hexadecimal digits \<ge> two64 then None
         else Some (if negative then u64_sub 0 (hexadecimal digits) else hexadecimal digits))"

definition make_wal_name :: "nat \<Rightarrow> nat \<Rightarrow> string" where
  "make_wal_name seq index = hex_fixed 16 seq @ ''-'' @ hex_fixed 16 index @ ''.wal''"

definition parse_wal_name :: "string \<Rightarrow> (nat \<times> nat) option" where
  "parse_wal_name name =
     (if length name < 37 \<or> drop (length name - 4) name \<noteq> ''.wal'' then None
      else let stem = take (length name - 4) name in
        (case find_char (CHR ''-'') stem of
           None \<Rightarrow> None
         | Some dash \<Rightarrow>
             (case stoull16 (take dash stem) of
                None \<Rightarrow> None
              | Some seq \<Rightarrow>
                  (case stoull16 (drop (dash + 1) stem) of
                     None \<Rightarrow> None
                   | Some index \<Rightarrow> Some (seq, index)))))"

subsection \<open>The directory\<close>

text \<open>A directory lists its files in the order the file system returns them; \<open>None\<close> is a
  directory that does not exist. The booleans of the factories say which system calls succeed.\<close>

type_synonym wal_dir = "(string \<times> bytes) list"

definition file_data :: "wal_dir \<Rightarrow> string \<Rightarrow> bytes" where
  "file_data d name = (case map_of d name of None \<Rightarrow> [] | Some data \<Rightarrow> data)"

definition is_wal_name :: "string \<Rightarrow> bool" where
  "is_wal_name name \<longleftrightarrow> 4 \<le> length name \<and> drop (length name - 4) name = ''.wal''"

definition list_wal_files :: "wal_dir \<Rightarrow> string list" where
  "list_wal_files d = sort (filter is_wal_name (map fst d))"

datatype write_outcome = Write_ok | Write_error nat

text \<open>The handle. \<open>b_io\<close> are the outcomes of the flushes to come: a failed one leaves some
  number of bytes of the buffer in the file.\<close>

record wal_handle =
  b_dir :: wal_dir
  b_name :: string
  b_buffer :: bytes
  b_failed :: bool
  b_io :: "write_outcome stream"

definition new_handle :: "wal_dir \<Rightarrow> string \<Rightarrow> write_outcome stream \<Rightarrow> wal_handle" where
  "new_handle d name io = \<lparr>b_dir = d, b_name = name, b_buffer = [], b_failed = False, b_io = io\<rparr>"

definition wal_create ::
  "bool \<Rightarrow> bool \<Rightarrow> bool \<Rightarrow> write_outcome stream \<Rightarrow> wal_dir option \<Rightarrow> wal_handle option \<times> wal_dir option" where
  "wal_create mkdir_ok open_ok fdopen_ok io dir =
     (if dir = None \<and> \<not> mkdir_ok then (None, dir)
      else let d = (case dir of None \<Rightarrow> [] | Some d \<Rightarrow> d); path = make_wal_name 0 0 in
        if path \<in> fst ` set d \<or> \<not> open_ok then (None, Some d)
        else if \<not> fdopen_ok then (None, Some d)
        else (Some (new_handle (d @ [(path, [])]) path io), Some (d @ [(path, [])])))"

definition wal_open :: "bool \<Rightarrow> write_outcome stream \<Rightarrow> wal_dir option \<Rightarrow> wal_handle option" where
  "wal_open fopen_ok io dir =
     (case dir of
        None \<Rightarrow> None
      | Some d \<Rightarrow>
          (let names = list_wal_files d in
           if names = [] then None
           else let latest = last names in
             if parse_wal_name latest = None then None
             else if \<not> fopen_ok then None
             else Some (new_handle d latest io)))"

subsection \<open>The write path\<close>

definition append_record_bytes :: "byte \<Rightarrow> bytes \<Rightarrow> wal_handle \<Rightarrow> exn + wal_handle" where
  "append_record_bytes ty data w =
     (if length data > kMaxRecordPayload then Inl Length_error
      else let checksum = crc32 data;
               hdr = \<lparr>rh_type = ty, rh_len = word_of_nat (length data), rh_crc = checksum\<rparr>
           in Inr (w\<lparr>b_buffer := b_buffer w @ header_encode hdr @ data\<rparr>))"

record wal_codec =
  wc_pack_hard_state :: "hard_state \<Rightarrow> bytes"
  wc_pack_entry :: "entry \<Rightarrow> bytes"
  wc_pack_snapshot :: "snapshot_meta \<Rightarrow> bytes"
  wc_unpack_hard_state :: "hard_state \<Rightarrow> bytes \<Rightarrow> bool \<times> hard_state"
  wc_unpack_entry :: "bytes \<Rightarrow> exn + entry"
  wc_unpack_snapshot :: "bytes \<Rightarrow> exn + snapshot_meta"

definition save_hard_state_bytes :: "wal_codec \<Rightarrow> hard_state \<Rightarrow> wal_handle \<Rightarrow> exn + wal_handle" where
  "save_hard_state_bytes K hs w =
     (if hs_is_empty hs then Inr w
      else append_record_bytes RecordTypeHardState (wc_pack_hard_state K hs) w)"

definition save_entry_bytes :: "wal_codec \<Rightarrow> entry \<Rightarrow> wal_handle \<Rightarrow> exn + wal_handle" where
  "save_entry_bytes K e w = append_record_bytes RecordTypeEntry (wc_pack_entry K e) w"

definition save_snapshot_bytes :: "wal_codec \<Rightarrow> snapshot_meta \<Rightarrow> wal_handle \<Rightarrow> exn + wal_handle" where
  "save_snapshot_bytes K snap w =
     (if snap_is_empty snap then Inr w
      else append_record_bytes RecordTypeSnapshot (wc_pack_snapshot K snap) w)"

definition write_file :: "bytes \<Rightarrow> wal_handle \<Rightarrow> wal_handle" where
  "write_file data w =
     w\<lparr>b_dir := AList.update (b_name w) (file_data (b_dir w) (b_name w) @ data) (b_dir w)\<rparr>"

definition sync_bytes :: "wal_handle \<Rightarrow> bool \<times> wal_handle" where
  "sync_bytes w =
     (if b_failed w then (False, w)
      else if b_buffer w = [] then (True, w)
      else (case shd (b_io w) of
              Write_ok \<Rightarrow>
                (True, (write_file (b_buffer w) w)\<lparr>b_buffer := [], b_io := stl (b_io w)\<rparr>)
            | Write_error n \<Rightarrow>
                (False, (write_file (take n (b_buffer w)) w)
                   \<lparr>b_buffer := [], b_failed := True, b_io := stl (b_io w)\<rparr>)))"

subsection \<open>Recovery\<close>

text \<open>The body of the \<^verbatim>\<open>try\<close> block: whether it returned, and the state it left.\<close>

definition convert_record :: "wal_codec \<Rightarrow> byte \<Rightarrow> bytes \<Rightarrow> recovered \<Rightarrow> bool \<times> recovered" where
  "convert_record K ty payload a =
     (if ty = RecordTypeHardState then
        (case wc_unpack_hard_state K (rec_hard_state a) payload of
           (ok, hs) \<Rightarrow> (ok, a\<lparr>rec_hard_state := hs\<rparr>))
      else if ty = RecordTypeEntry then
        (case wc_unpack_entry K payload of
           Inl x \<Rightarrow> (False, a)
         | Inr e \<Rightarrow> (True, recover_record (RecEntry e) a))
      else if ty = RecordTypeSnapshot then
        (case wc_unpack_snapshot K payload of
           Inl x \<Rightarrow> (False, a)
         | Inr snap \<Rightarrow> (True, recover_record (RecSnapshot snap) a))
      else (True, a))"

text \<open>The scan of one file: the state, the number of valid bytes and whether the tail is
  damaged. \<open>data\<close> is what follows the current offset.\<close>

function scan_records :: "wal_codec \<Rightarrow> bytes \<Rightarrow> nat \<Rightarrow> recovered \<Rightarrow> recovered \<times> nat \<times> bool" where
  "scan_records K data valid_bytes a =
     (if data = [] then (a, valid_bytes, False)
      else if length data < 8 then (a, valid_bytes, True)
      else let hdr = header_decode data; rest = drop 8 data; len = unat (rh_len hdr) in
        if rh_type hdr \<notin> {RecordTypeEntry, RecordTypeHardState, RecordTypeSnapshot}
        then (a, valid_bytes, True)
        else if length rest < len then (a, valid_bytes, True)
        else if crc32 (take len rest) \<noteq> rh_crc hdr then (a, valid_bytes, True)
        else (case convert_record K (rh_type hdr) (take len rest) a of
                (ok, a') \<Rightarrow>
                  if ok then scan_records K (drop len rest) (valid_bytes + (8 + len)) a'
                  else (a', valid_bytes, True)))"
  by pat_completeness auto
termination by (relation "measure (\<lambda>(K, data, v, a). length data)") auto

declare scan_records.simps [simp del]

text \<open>What the file system does with one file during recovery.\<close>

datatype repair_outcome = Repaired | Truncate_failed | Sync_failed

record file_faults =
  ff_open_ok :: "string \<Rightarrow> bool"
  ff_read_ok :: "string \<Rightarrow> bool"
  ff_repair :: "string \<Rightarrow> repair_outcome"

fun recover_files ::
  "wal_codec \<Rightarrow> file_faults \<Rightarrow> string list \<Rightarrow> wal_dir \<Rightarrow> recovered \<Rightarrow> (exn + recovered) \<times> wal_dir" where
  "recover_files K F [] d a = (Inr a, d)"
| "recover_files K F (name # names) d a =
     (if \<not> ff_open_ok F name then (Inl Runtime_error, d)
      else if \<not> ff_read_ok F name then (Inl Runtime_error, d)
      else (case scan_records K (file_data d name) 0 a of
              (a', valid_bytes, damaged_tail) \<Rightarrow>
                if damaged_tail then
                  (let cut = AList.update name (take valid_bytes (file_data d name)) d in
                   case ff_repair F name of
                     Repaired \<Rightarrow> (Inr a', cut)
                   | Truncate_failed \<Rightarrow> (Inl Runtime_error, d)
                   | Sync_failed \<Rightarrow> (Inl Runtime_error, cut))
                else recover_files K F names d a'))"

definition wal_recover :: "wal_codec \<Rightarrow> file_faults \<Rightarrow> wal_handle \<Rightarrow> (exn + recovered) \<times> wal_handle" where
  "wal_recover K F w =
     (let names = list_wal_files (b_dir w) in
      if names = [] then (Inl Runtime_error, w)
      else (case recover_files K F names (b_dir w) recovered_init of
              (r, d) \<Rightarrow> (r, w\<lparr>b_dir := d\<rparr>)))"

subsection \<open>Header and name round trips\<close>

lemma header_length [simp]: "length (header_encode h) = 8"
  by (simp add: header_encode_def)

lemma header_decode_append: "length h = 8 \<Longrightarrow> header_decode (h @ data) = header_decode h"
  by (simp add: header_decode_def nth_append)

lemma header_decode_encode:
  assumes "unat (rh_len h) < 2 ^ 24"
  shows "header_decode (header_encode h) = h"
proof -
  have "from_byte 0 (byte_at 0 w) OR from_byte (Suc 0) (byte_at (Suc 0) w) OR from_byte 2 (byte_at 2 w)
     OR from_byte 3 (byte_at 3 w) = w" for w
    using bytes_of_word [of w] by (simp add: or.commute or.left_commute)
  moreover from this [of "rh_len h"]
  have "from_byte 0 (byte_at 0 (rh_len h)) OR from_byte (Suc 0) (byte_at (Suc 0) (rh_len h))
     OR from_byte 2 (byte_at 2 (rh_len h)) = rh_len h"
    using top_byte_zero [OF assms] by (simp add: from_byte_def)
  ultimately show ?thesis by (simp add: header_decode_def header_encode_def)
qed

lemma drop_bit_zero_bound: "drop_bit 24 (w :: 32 word) = 0 \<Longrightarrow> unat w < 2 ^ 24"
proof -
  assume "drop_bit 24 w = 0"
  then have "unat (w div 2 ^ 24) = 0" by (simp only: drop_bit_eq_div unsigned_0)
  then have "unat w div 2 ^ 24 = 0" by (simp add: unat_div)
  then show "unat w < 2 ^ 24" by (simp add: div_eq_0_iff)
qed

lemma header_encode_decode:
  assumes "length bs = 8"
  shows "header_encode (header_decode bs) = bs" "unat (rh_len (header_decode bs)) < 2 ^ 24"
proof -
  obtain b0 b1 b2 b3 b4 b5 b6 b7 where bs: "bs = [b0, b1, b2, b3, b4, b5, b6, b7]"
    using assms by (auto simp: length_Suc_conv eval_nat_numeral)
  have w: "byte_at 0 (from_byte 0 c0 OR from_byte (Suc 0) c1 OR from_byte 2 c2 OR from_byte 3 c3) = c0"
    "byte_at (Suc 0) (from_byte 0 c0 OR from_byte (Suc 0) c1 OR from_byte 2 c2 OR from_byte 3 c3) = c1"
    "byte_at 2 (from_byte 0 c0 OR from_byte (Suc 0) c1 OR from_byte 2 c2 OR from_byte 3 c3) = c2"
    "byte_at 3 (from_byte 0 c0 OR from_byte (Suc 0) c1 OR from_byte 2 c2 OR from_byte 3 c3) = c3"
    for c0 c1 c2 c3
    using word_of_bytes [of c3 c2 c1 c0] by (simp_all add: or.commute or.left_commute)
  have z: "from_byte 3 0 = 0" by (simp add: from_byte_def)
  show "header_encode (header_decode bs) = bs"
    using w(1-3) [of b1 b2 b3 0] by (simp add: bs header_encode_def header_decode_def w z)
  have "drop_bit 24 (from_byte 0 b1 OR from_byte (Suc 0) b2 OR from_byte 2 b3) = 0"
    by (rule bit_word_eqI) (auto simp: bit_simps)
  from drop_bit_zero_bound [OF this] show "unat (rh_len (header_decode bs)) < 2 ^ 24"
    by (simp add: bs header_decode_def)
qed

lemma hex_not_special: "is_hex c \<Longrightarrow> \<not> is_space c \<and> c \<noteq> CHR ''-'' \<and> c \<noteq> CHR ''+'' \<and> c \<noteq> CHR ''x'' \<and> c \<noteq> CHR ''X''"
  by (auto simp: is_hex_def is_space_def hex_value_def)

lemma stoull16_digits:
  assumes "list_all is_hex s" "s \<noteq> []" "hexadecimal s < two64"
  shows "stoull16 s = Some (hexadecimal s)"
proof -
  from assms(1,2) have 1: "dropWhile is_space s = s" "split_sign s = (False, s)"
    by (cases s; use hex_not_special in auto)+
  have 2: "skip_0x s = s" using assms(1) hex_not_special by (cases s rule: skip_0x.cases) auto
  have "takeWhile is_hex s = s" using assms(1) by (simp add: takeWhile_eq_all_conv list_all_iff)
  note t = this
  show ?thesis unfolding stoull16_def 1 Let_def prod.case 2 t using assms(2,3) by simp
qed

lemma stoull16_fixed: "n < two64 \<Longrightarrow> stoull16 (hex_fixed 16 n) = Some n"
proof -
  assume n: "n < two64"
  have "list_all is_hex (hex_fixed 16 n)" using hex_fixed_digits by (auto simp: list_all_iff is_hex_def)
  moreover have "hex_fixed 16 n \<noteq> []" by (metis length_hex_fixed list.size(3) zero_neq_numeral)
  moreover have "hexadecimal (hex_fixed 16 n) = n" using n by (simp add: hexadecimal_fixed two64_def)
  ultimately show ?thesis using n stoull16_digits by metis
qed

lemma parse_make_wal_name:
  assumes "seq < two64" "index < two64"
  shows "parse_wal_name (make_wal_name seq index) = Some (seq, index)"
proof -
  let ?a = "hex_fixed 16 seq" and ?b = "hex_fixed 16 index"
  have "CHR ''-'' \<notin> set ?a" using hex_fixed_digits [of "CHR ''-''" 16 seq] by (auto simp: hex_value_def)
  then have "find_char (CHR ''-'') (?a @ CHR ''-'' # ?b) = Some 16"
    using find_char_append [of "CHR ''-''" ?a ?b] by simp
  then show ?thesis
    using assms by (simp add: parse_wal_name_def make_wal_name_def stoull16_fixed Let_def)
qed

lemma is_wal_name_make [simp]: "is_wal_name (make_wal_name seq index)"
  by (simp add: is_wal_name_def make_wal_name_def)

subsection \<open>Scanning framed records\<close>

text \<open>
  A scan of a file of framed records: it performs the records in order, stops without damage
  at the end of the file, and reports damage at a frame that is cut short. \<open>whole_frames\<close> counts
  the frames that lie within the first \<open>n\<close> bytes.
\<close>

fun whole_frames :: "('r \<Rightarrow> bytes) \<Rightarrow> 'r list \<Rightarrow> nat \<Rightarrow> nat" where
  "whole_frames f [] n = 0"
| "whole_frames f (r # rs) n =
     (if length (f r) \<le> n then Suc (whole_frames f rs (n - length (f r))) else 0)"

lemma whole_frames_le: "whole_frames f rs n \<le> length rs"
  by (induction rs arbitrary: n) auto

lemma whole_frames_all: "length (concat (map f rs)) \<le> n \<Longrightarrow> whole_frames f rs n = length rs"
  by (induction rs arbitrary: n) auto

lemma take_frames:
  "\<exists>p. take n (concat (map f rs)) = concat (map f (take (whole_frames f rs n) rs)) @ p
     \<and> (p = [] \<or> (\<exists>r\<in>set rs. strict_prefix p (f r)))"
proof (induction rs arbitrary: n)
  case (Cons r rs)
  show ?case
  proof (cases "length (f r) \<le> n")
    case True
    with Cons.IH [of "n - length (f r)"] show ?thesis by auto
  next
    case False
    then have "strict_prefix (take n (f r)) (f r)"
      by (metis linorder_not_le strict_prefixI take_all_iff take_is_prefix)
    with False show ?thesis by auto
  qed
qed simp

locale record_scan =
  fixes good :: "'r \<Rightarrow> bool" and frame :: "'r \<Rightarrow> bytes" and act :: "'r \<Rightarrow> 's \<Rightarrow> 's"
    and scan :: "bytes \<Rightarrow> nat \<Rightarrow> 's \<Rightarrow> 's \<times> nat \<times> bool"
  assumes scan_end: "scan [] v a = (a, v, False)"
    and scan_frame: "good r \<Longrightarrow> scan (frame r @ rest) v a = scan rest (v + length (frame r)) (act r a)"
    and scan_short: "good r \<Longrightarrow> strict_prefix p (frame r) \<Longrightarrow> p \<noteq> [] \<Longrightarrow> scan p v a = (a, v, True)"
begin

lemma scan_frames:
  "list_all good rs \<Longrightarrow>
    scan (concat (map frame rs) @ rest) v a = scan rest (v + length (concat (map frame rs))) (fold act rs a)"
  by (induction rs arbitrary: v a) (simp_all add: scan_frame add.assoc)

lemma scan_torn:
  assumes "list_all good rs" "p = [] \<or> (\<exists>r. good r \<and> strict_prefix p (frame r))"
  shows "scan (concat (map frame rs) @ p) 0 a = (fold act rs a, length (concat (map frame rs)), p \<noteq> [])"
proof (cases "p = []")
  case True
  then show ?thesis using scan_frames [OF assms(1), of "[]" 0 a] by (simp add: scan_end)
next
  case False
  then show ?thesis using assms scan_short by (auto simp: scan_frames)
qed

lemma scan_prefix:
  assumes "list_all good rs"
  shows "\<exists>d. scan (take n (concat (map frame rs))) 0 a =
     (let k = whole_frames frame rs n in
      (fold act (take k rs) a, length (concat (map frame (take k rs))), d))
    \<and> (d \<longleftrightarrow> take n (concat (map frame rs)) \<noteq> concat (map frame (take (whole_frames frame rs n) rs)))"
proof -
  obtain p where p: "take n (concat (map frame rs)) = concat (map frame (take (whole_frames frame rs n) rs)) @ p"
    "p = [] \<or> (\<exists>r\<in>set rs. strict_prefix p (frame r))"
    using take_frames by blast
  have "list_all good (take (whole_frames frame rs n) rs)"
    using assms by (auto simp: list_all_iff dest: in_set_takeD)
  moreover have "p = [] \<or> (\<exists>r. good r \<and> strict_prefix p (frame r))"
    using p(2) assms by (auto simp: list_all_iff)
  ultimately have "scan (concat (map frame (take (whole_frames frame rs n) rs)) @ p) 0 a =
      (fold act (take (whole_frames frame rs n) rs) a,
       length (concat (map frame (take (whole_frames frame rs n) rs))), p \<noteq> [])"
    by (rule scan_torn)
  then show ?thesis unfolding p(1) Let_def by (intro exI [of _ "p \<noteq> []"]) simp
qed

end

subsection \<open>The records of the log\<close>

fun record_type :: "wal_record \<Rightarrow> byte" where
  "record_type (RecEntry e) = RecordTypeEntry"
| "record_type (RecHardState hs) = RecordTypeHardState"
| "record_type (RecSnapshot snap) = RecordTypeSnapshot"

fun pack_record :: "wal_codec \<Rightarrow> wal_record \<Rightarrow> bytes" where
  "pack_record K (RecEntry e) = wc_pack_entry K e"
| "pack_record K (RecHardState hs) = wc_pack_hard_state K hs"
| "pack_record K (RecSnapshot snap) = wc_pack_snapshot K snap"

text \<open>What the log relies on MessagePack for: a packed record is read back, whatever the object
  held before.\<close>

fun codec_reads :: "wal_codec \<Rightarrow> wal_record \<Rightarrow> bool" where
  "codec_reads K (RecEntry e) \<longleftrightarrow> wc_unpack_entry K (wc_pack_entry K e) = Inr e"
| "codec_reads K (RecHardState hs) \<longleftrightarrow>
     (\<forall>old. wc_unpack_hard_state K old (wc_pack_hard_state K hs) = (True, hs))"
| "codec_reads K (RecSnapshot snap) \<longleftrightarrow> wc_unpack_snapshot K (wc_pack_snapshot K snap) = Inr snap"

definition record_ok :: "wal_codec \<Rightarrow> wal_record \<Rightarrow> bool" where
  "record_ok K r \<longleftrightarrow> codec_reads K r \<and> length (pack_record K r) \<le> kMaxRecordPayload"

definition record_bytes :: "wal_codec \<Rightarrow> wal_record \<Rightarrow> bytes" where
  "record_bytes K r =
     header_encode \<lparr>rh_type = record_type r, rh_len = word_of_nat (length (pack_record K r)),
        rh_crc = crc32 (pack_record K r)\<rparr> @ pack_record K r"

abbreviation log_bytes :: "wal_codec \<Rightarrow> wal_record list \<Rightarrow> bytes" where
  "log_bytes K rs \<equiv> concat (map (record_bytes K) rs)"

lemma record_bytes_ne [simp]: "record_bytes K r \<noteq> []"
  by (simp add: record_bytes_def header_encode_def)

lemma unat_payload: "n \<le> kMaxRecordPayload \<Longrightarrow> unat (word_of_nat n :: 32 word) = n"
  by (simp add: kMaxRecordPayload_def unat_of_nat take_bit_nat_eq_self)

lemma header_of_record:
  assumes "length (pack_record K r) \<le> kMaxRecordPayload" "length p \<ge> 8"
    "prefix p (record_bytes K r @ rest)"
  shows "header_decode p = \<lparr>rh_type = record_type r, rh_len = word_of_nat (length (pack_record K r)),
     rh_crc = crc32 (pack_record K r)\<rparr>"
proof -
  let ?h = "\<lparr>rh_type = record_type r, rh_len = word_of_nat (length (pack_record K r)) :: 32 word,
     rh_crc = crc32 (pack_record K r)\<rparr>"
  have "p = header_encode ?h @ drop 8 p"
  proof -
    have "take 8 p = take 8 (record_bytes K r @ rest)"
      using assms(2,3) by (metis prefix_def take_append diff_is_0_eq' take0 append_Nil2)
    then have "take 8 p = header_encode ?h" by (simp add: record_bytes_def)
    then show ?thesis by (metis append_take_drop_id)
  qed
  then have "header_decode p = header_decode (header_encode ?h)"
    by (metis header_decode_append header_length)
  also have "\<dots> = ?h"
    using assms(1) unat_payload [OF assms(1)] by (intro header_decode_encode) (simp add: kMaxRecordPayload_def)
  finally show ?thesis .
qed

lemma record_type_supported [simp]:
  "record_type r = RecordTypeEntry \<or> record_type r = RecordTypeHardState \<or> record_type r = RecordTypeSnapshot"
  by (cases r) auto

lemma convert_packed: "codec_reads K r \<Longrightarrow> convert_record K (record_type r) (pack_record K r) a = (True, recover_record r a)"
  by (cases r) (auto simp: convert_record_def record_type_defs)

lemma scan_valid:
  assumes "8 \<le> length data" "header_decode data = h"
    "rh_type h \<in> {RecordTypeEntry, RecordTypeHardState, RecordTypeSnapshot}"
    "drop 8 data = payload @ rest" "unat (rh_len h) = length payload" "crc32 payload = rh_crc h"
  shows "scan_records K data v a =
    (case convert_record K (rh_type h) payload a of
       (ok, a') \<Rightarrow> if ok then scan_records K rest (v + (8 + length payload)) a' else (a', v, True))"
proof -
  have "data \<noteq> []" "\<not> length data < 8" using assms(1) by auto
  moreover have "\<not> length (drop 8 data) < unat (rh_len h)" by (simp add: assms(4,5))
  ultimately show ?thesis
    using assms(3,6) unfolding scan_records.simps [of K data] Let_def assms(2,4,5)
    by (simp add: assms(4,5) split_beta)
qed

lemma scan_record:
  assumes "record_ok K r"
  shows "scan_records K (record_bytes K r @ rest) v a =
     scan_records K rest (v + length (record_bytes K r)) (recover_record r a)"
proof -
  have ok: "codec_reads K r" "length (pack_record K r) \<le> kMaxRecordPayload" using assms by (simp_all add: record_ok_def)
  have h: "header_decode (record_bytes K r @ rest) = \<lparr>rh_type = record_type r,
     rh_len = word_of_nat (length (pack_record K r)), rh_crc = crc32 (pack_record K r)\<rparr>"
    by (rule header_of_record [OF ok(2), where rest = rest]) (simp_all add: record_bytes_def)
  have "scan_records K (record_bytes K r @ rest) v a =
    (case convert_record K (record_type r) (pack_record K r) a of
       (ok, a') \<Rightarrow> if ok then scan_records K rest (v + (8 + length (pack_record K r))) a' else (a', v, True))"
    by (rule scan_valid [OF _ h, simplified])
      (simp_all add: record_bytes_def unat_payload [OF ok(2)])
  then show ?thesis by (simp add: convert_packed [OF ok(1)] record_bytes_def)
qed

lemma scan_short_record:
  assumes "record_ok K r" "strict_prefix p (record_bytes K r)" "p \<noteq> []"
  shows "scan_records K p v a = (a, v, True)"
proof (cases "length p < 8")
  case False
  have ok: "length (pack_record K r) \<le> kMaxRecordPayload" using assms(1) by (simp add: record_ok_def)
  have "header_decode p = \<lparr>rh_type = record_type r, rh_len = word_of_nat (length (pack_record K r)),
     rh_crc = crc32 (pack_record K r)\<rparr>"
    using False assms(2) by (intro header_of_record [OF ok, of p "[]"]) (auto simp: strict_prefix_def)
  moreover have "length p - 8 < length (pack_record K r)"
    using False prefix_length_less [OF assms(2)] by (simp add: record_bytes_def)
  ultimately show ?thesis
    using assms(3) False by (subst scan_records.simps) (simp add: unat_payload [OF ok] Let_def)
qed (use assms(3) in \<open>simp add: scan_records.simps [of K p]\<close>)

interpretation wal_scan: record_scan "record_ok K" "record_bytes K" recover_record "scan_records K" for K
  by unfold_locales (simp_all add: scan_records.simps [of K "[]"] scan_record scan_short_record)

subsection \<open>Operations on bytes and on records\<close>

text \<open>
  \<open>log_image K b w\<close> relates a handle on bytes to the handle the Raft core works with: the one log
  file holds the durable records, followed after a failed flush by the beginning of another one,
  and the buffer holds the buffered records.
\<close>

definition log_image :: "wal_codec \<Rightarrow> wal_handle \<Rightarrow> wal \<Rightarrow> bool" where
  "log_image K b w \<longleftrightarrow>
     list_wal_files (b_dir b) = [b_name b] \<and> parse_wal_name (b_name b) \<noteq> None
     \<and> list_all (record_ok K) (w_disk w) \<and> list_all (record_ok K) (w_buffer w)
     \<and> (\<exists>p. file_data (b_dir b) (b_name b) = log_bytes K (w_disk w) @ p
          \<and> (p = [] \<or> b_failed b \<and> (\<exists>r. record_ok K r \<and> strict_prefix p (record_bytes K r))))
     \<and> b_buffer b = log_bytes K (w_buffer w) \<and> b_failed b = w_failed w
     \<and> w_packed_size w = (\<lambda>r. length (pack_record K r))"

datatype log_op =
    Op_entry entry
  | Op_hard_state hard_state
  | Op_snapshot snapshot_meta
  | Op_sync

definition returning :: "(exn + 'w) \<Rightarrow> 'w \<Rightarrow> (exn + bool) \<times> 'w" where
  "returning r w = (case r of Inl x \<Rightarrow> (Inl x, w) | Inr w' \<Rightarrow> (Inr True, w'))"

fun op_bytes :: "wal_codec \<Rightarrow> log_op \<Rightarrow> wal_handle \<Rightarrow> (exn + bool) \<times> wal_handle" where
  "op_bytes K (Op_entry e) b = returning (save_entry_bytes K e b) b"
| "op_bytes K (Op_hard_state hs) b = returning (save_hard_state_bytes K hs b) b"
| "op_bytes K (Op_snapshot snap) b = returning (save_snapshot_bytes K snap b) b"
| "op_bytes K Op_sync b = (case sync_bytes b of (ok, b') \<Rightarrow> (Inr ok, b'))"

fun op_records :: "log_op \<Rightarrow> wal \<Rightarrow> (exn + bool) \<times> wal" where
  "op_records (Op_entry e) w = returning (save_entry e w) w"
| "op_records (Op_hard_state hs) w = (Inr True, save_hard_state hs w)"
| "op_records (Op_snapshot snap) w = returning (save_snapshot snap w) w"
| "op_records Op_sync w = (case wal_sync w of (ok, w') \<Rightarrow> (Inr ok, w'))"

text \<open>What is asked of MessagePack for one operation: packed records are read back, and a
  packed hard state, three integers, fits a record.\<close>

fun op_ok :: "wal_codec \<Rightarrow> log_op \<Rightarrow> bool" where
  "op_ok K (Op_entry e) \<longleftrightarrow> codec_reads K (RecEntry e)"
| "op_ok K (Op_hard_state hs) \<longleftrightarrow> record_ok K (RecHardState hs)"
| "op_ok K (Op_snapshot snap) \<longleftrightarrow> codec_reads K (RecSnapshot snap)"
| "op_ok K Op_sync \<longleftrightarrow> True"

text \<open>A flush that leaves \<open>n\<close> bytes of the buffer in the file leaves the records that lie within
  these bytes.\<close>

definition same_flush :: "wal_codec \<Rightarrow> wal_handle \<Rightarrow> wal \<Rightarrow> bool" where
  "same_flush K b w \<longleftrightarrow>
     shd (w_io w) =
       (case shd (b_io b) of
          Write_ok \<Rightarrow> Sync_ok
        | Write_error n \<Rightarrow> Sync_error (whole_frames (record_bytes K) (w_buffer w) n))"

definition empty_wal :: "wal_codec \<Rightarrow> sync_outcome stream \<Rightarrow> wal" where
  "empty_wal K io = \<lparr>w_disk = [], w_buffer = [], w_failed = False, w_io = io,
     w_packed_size = (\<lambda>r. length (pack_record K r))\<rparr>"

lemma append_record_refines:
  assumes "log_image K b w" "codec_reads K r"
  shows "case append_record_bytes (record_type r) (pack_record K r) b of
       Inl x \<Rightarrow> append_record r w = Inl x \<and> length (pack_record K r) > kMaxRecordPayload
     | Inr b' \<Rightarrow> append_record r w = Inr (w\<lparr>w_buffer := w_buffer w @ [r]\<rparr>)
         \<and> log_image K b' (w\<lparr>w_buffer := w_buffer w @ [r]\<rparr>)"
  using assms
  by (auto simp: log_image_def append_record_bytes_def append_record_def record_ok_def record_bytes_def Let_def)

lemma list_wal_files_update:
  assumes "name \<in> fst ` set d"
  shows "list_wal_files (AList.update name data d) = list_wal_files d"
proof -
  have "map fst (AList.update name data d) = map fst d" using assms by (simp add: update_keys)
  then show ?thesis by (simp add: list_wal_files_def)
qed

lemma listed_file:
  assumes "list_wal_files d = [name]"
  shows "name \<in> fst ` set d"
proof -
  have "set (list_wal_files d) = {name}" by (simp add: assms)
  then show ?thesis by (auto simp: list_wal_files_def)
qed

lemma file_data_update [simp]:
  "file_data (AList.update name data d) other = (if other = name then data else file_data d other)"
  by (simp add: file_data_def update_conv')

lemma sync_refines:
  assumes "log_image K b w" "same_flush K b w"
  shows "fst (sync_bytes b) = fst (wal_sync w) \<and> log_image K (snd (sync_bytes b)) (snd (wal_sync w))"
proof (cases "b_failed b \<or> b_buffer b = []")
  case True
  have "w_buffer w = []" if "b_buffer b = []"
    using assms(1) that by (cases "w_buffer w") (auto simp: log_image_def)
  with True assms(1) show ?thesis by (auto simp: sync_bytes_def wal_sync_def log_image_def)
next
  case False
  let ?d = "b_dir b" and ?n = "b_name b"
  have i: "list_wal_files ?d = [?n]" "parse_wal_name ?n \<noteq> None" "list_all (record_ok K) (w_disk w)"
    "list_all (record_ok K) (w_buffer w)" "file_data ?d ?n = log_bytes K (w_disk w)"
    "b_buffer b = log_bytes K (w_buffer w)" "\<not> w_failed w"
    "w_packed_size w = (\<lambda>r. length (pack_record K r))" "w_buffer w \<noteq> []"
    using assms(1) False by (auto simp: log_image_def)
  note u = list_wal_files_update [OF listed_file [OF i(1)]]
  show ?thesis
  proof (cases "shd (b_io b)")
    case Write_ok
    with False i assms(2) show ?thesis
      by (simp add: sync_bytes_def wal_sync_def same_flush_def log_image_def write_file_def u)
  next
    case (Write_error n)
    let ?k = "whole_frames (record_bytes K) (w_buffer w) n"
    obtain p where p: "take n (log_bytes K (w_buffer w)) = log_bytes K (take ?k (w_buffer w)) @ p"
      "p = [] \<or> (\<exists>r\<in>set (w_buffer w). strict_prefix p (record_bytes K r))"
      using take_frames by blast
    have "p = [] \<or> (\<exists>r. record_ok K r \<and> strict_prefix p (record_bytes K r))"
      using p(2) i(4) by (auto simp: list_all_iff)
    moreover have "list_all (record_ok K) (take ?k (w_buffer w))"
      using i(4) by (auto simp: list_all_iff dest: in_set_takeD)
    ultimately show ?thesis using False i assms(2) Write_error p(1)
      by (simp add: sync_bytes_def wal_sync_def same_flush_def log_image_def write_file_def u)
  qed
qed

definition healthy :: "file_faults \<Rightarrow> string \<Rightarrow> bool" where
  "healthy F name \<longleftrightarrow> ff_open_ok F name \<and> ff_read_ok F name \<and> ff_repair F name = Repaired"

text \<open>A small codec, a log entry and a new log for the concrete instances below.\<close>

definition ex_wal_codec :: wal_codec where
  "ex_wal_codec = \<lparr>
     wc_pack_hard_state = (\<lambda>hs. [word_of_nat (hs_term hs), word_of_nat (hs_vote hs), word_of_nat (hs_commit hs)]),
     wc_pack_entry = (\<lambda>e. word_of_nat (entry_term e) # word_of_nat (entry_index e) # entry_data e),
     wc_pack_snapshot = (\<lambda>s. word_of_nat (snap_term s) # word_of_nat (snap_index s) # snap_state s),
     wc_unpack_hard_state = (\<lambda>old bs. case bs of
         [t, v, c] \<Rightarrow> (True, \<lparr>hs_term = unat t, hs_vote = unat v, hs_commit = unat c\<rparr>)
       | t # _ \<Rightarrow> (False, old\<lparr>hs_term := unat t\<rparr>) | [] \<Rightarrow> (False, old)),
     wc_unpack_entry = (\<lambda>bs. case bs of
         t # i # d \<Rightarrow> Inr \<lparr>entry_type = EntryNormal, entry_term = unat t, entry_index = unat i, entry_data = d\<rparr>
       | _ \<Rightarrow> Inl Type_error),
     wc_unpack_snapshot = (\<lambda>bs. case bs of
         t # i # d \<Rightarrow> Inr \<lparr>snap_index = unat i, snap_term = unat t, snap_state = d, snap_discard_suffix = False\<rparr>
       | _ \<Rightarrow> Inl Type_error)\<rparr>"

definition ex_logged :: entry where
  "ex_logged = \<lparr>entry_type = EntryNormal, entry_term = 2, entry_index = 3, entry_data = [7, 7]\<rparr>"

definition ex_log :: "write_outcome stream \<Rightarrow> bytes \<Rightarrow> wal_handle" where
  "ex_log io data = new_handle [(make_wal_name 0 0, data)] (make_wal_name 0 0) io"

definition ex_disk :: file_faults where
  "ex_disk = \<lparr>ff_open_ok = (\<lambda>_. True), ff_read_ok = (\<lambda>_. True), ff_repair = (\<lambda>_. Repaired)\<rparr>"

lemma ex_log_files: "list_wal_files (b_dir (ex_log io data)) = [make_wal_name 0 0]"
  and ex_log_file: "file_data (b_dir (ex_log io data)) (make_wal_name 0 0) = data"
  and ex_disk_healthy: "healthy ex_disk name"
  by (simp_all add: ex_log_def new_handle_def list_wal_files_def file_data_def healthy_def ex_disk_def)

lemma ex_log_image: "log_image ex_wal_codec (ex_log io []) (empty_wal ex_wal_codec io')"
  using parse_make_wal_name [of 0 0] ex_log_files [of io "[]"] ex_log_file [of io "[]"]
  by (simp add: log_image_def empty_wal_def ex_log_def new_handle_def)

lemma ex_logged_ok: "record_ok ex_wal_codec (RecEntry ex_logged)"
  by (simp add: record_ok_def ex_wal_codec_def ex_logged_def kMaxRecordPayload_def)

text \<open>
  C18. The bytes implement the records: each operation of the log on a file, with a buffer of
  bytes and flushes that may stop after any byte, returns what the operation on records returns
  and leaves the file and the buffer holding exactly its records, after a failed flush followed
  by at most the beginning of one more.
\<close>

theorem log_bytes_refine_records:
  assumes "log_image K b w" "op_ok K op" "same_flush K b w"
  shows "fst (op_bytes K op b) = fst (op_records op w)
     \<and> log_image K (snd (op_bytes K op b)) (snd (op_records op w))"
proof (cases op)
  case (Op_entry e)
  then show ?thesis using append_record_refines [OF assms(1), of "RecEntry e"] assms(1,2)
    by (auto simp: save_entry_bytes_def save_entry_def returning_def split: sum.splits)
next
  case (Op_hard_state hs)
  then show ?thesis using append_record_refines [OF assms(1), of "RecHardState hs"] assms(1,2)
    by (auto simp: save_hard_state_bytes_def save_hard_state_def returning_def append_record_def
        record_ok_def split: sum.splits)
next
  case (Op_snapshot snap)
  then show ?thesis using append_record_refines [OF assms(1), of "RecSnapshot snap"] assms(1,2)
    by (auto simp: save_snapshot_bytes_def save_snapshot_def returning_def split: sum.splits)
next
  case Op_sync
  then show ?thesis using sync_refines [OF assms(1,3)] by (simp add: split_beta)
qed

definition ex_after_entry :: wal_handle where
  "ex_after_entry = snd (op_bytes ex_wal_codec (Op_entry ex_logged) (ex_log (sconst (Write_error 5)) []))"

definition ex_wal_after_entry :: wal where
  "ex_wal_after_entry = snd (op_records (Op_entry ex_logged) (empty_wal ex_wal_codec (sconst (Sync_error 0))))"

lemma ex_torn_flush:
  "log_image ex_wal_codec ex_after_entry ex_wal_after_entry"
  "same_flush ex_wal_codec ex_after_entry ex_wal_after_entry"
  using append_record_refines [OF ex_log_image [where io = "sconst (Write_error 5)" and io' = "sconst (Sync_error 0)"], of "RecEntry ex_logged"]
    ex_logged_ok
  by (auto simp: ex_after_entry_def ex_wal_after_entry_def returning_def save_entry_bytes_def save_entry_def
      record_ok_def same_flush_def append_record_bytes_def append_record_def empty_wal_def ex_log_def
      new_handle_def record_bytes_def split: sum.splits)

theorem log_bytes_refine_records_witness:
  "fst (op_bytes ex_wal_codec Op_sync ex_after_entry) = fst (op_records Op_sync ex_wal_after_entry)
   \<and> log_image ex_wal_codec (snd (op_bytes ex_wal_codec Op_sync ex_after_entry))
        (snd (op_records Op_sync ex_wal_after_entry))"
  using log_bytes_refine_records [OF ex_torn_flush(1) _ ex_torn_flush(2), of Op_sync] by simp

subsection \<open>Recovery from any point\<close>

lemma recover_one_file:
  assumes "list_wal_files (b_dir b) = [name]" "healthy F name"
  shows "wal_recover K F b =
     (case scan_records K (file_data (b_dir b) name) 0 recovered_init of
        (a, valid_bytes, damaged_tail) \<Rightarrow>
          (Inr a, if damaged_tail
             then b\<lparr>b_dir := AList.update name (take valid_bytes (file_data (b_dir b) name)) (b_dir b)\<rparr>
             else b))"
  using assms by (simp add: wal_recover_def healthy_def Let_def split_beta)

lemma open_one_file:
  assumes "list_wal_files d = [name]" "parse_wal_name name \<noteq> None"
  shows "wal_open True io (Some d) = Some (new_handle d name io)"
  using assms by (simp add: wal_open_def Let_def)

text \<open>
  A restart reads back exactly the durable records, wherever the process stopped, a flush
  that broke off in the middle of a record included: opening the directory finds the log,
  recovery returns the state of the durable records, cuts an incomplete record off, and leaves
  a handle that appends behind them.
\<close>

lemma recovery_of_log:
  assumes "log_image K b w" "healthy F (b_name b)"
  shows "\<exists>h h'. wal_open True io (Some (b_dir b)) = Some h
     \<and> wal_recover K F h = (Inr (recover_records (w_disk w)), h')
     \<and> log_image K h' (w\<lparr>w_buffer := [], w_failed := False\<rparr>)
     \<and> file_data (b_dir h') (b_name h') = log_bytes K (w_disk w)"
proof -
  have i: "list_wal_files (b_dir b) = [b_name b]" "parse_wal_name (b_name b) \<noteq> None"
    "list_all (record_ok K) (w_disk w)" "w_packed_size w = (\<lambda>r. length (pack_record K r))"
    using assms(1) by (simp_all add: log_image_def)
  obtain p where p: "file_data (b_dir b) (b_name b) = log_bytes K (w_disk w) @ p"
    "p = [] \<or> (\<exists>r. record_ok K r \<and> strict_prefix p (record_bytes K r))"
    using assms(1) by (auto simp: log_image_def)
  let ?h = "new_handle (b_dir b) (b_name b) io"
  have h: "b_dir ?h = b_dir b" "b_name ?h = b_name b" "b_buffer ?h = []" "\<not> b_failed ?h"
    by (simp_all add: new_handle_def)
  note s = wal_scan.scan_torn [OF i(3) p(2), of recovered_init]
  have "list_wal_files (b_dir ?h) = [b_name b]" using i(1) h(1) by simp
  note r = recover_one_file [OF this assms(2), of K]
  show ?thesis
    using r s list_wal_files_update [OF listed_file [OF i(1)]] i p(1) h
    by (auto simp: open_one_file recover_records_def log_image_def)
qed

lemma scan_crc_mismatch:
  assumes "8 \<le> length data" "unat (rh_len (header_decode data)) \<le> length data - 8"
    "crc32 (take (unat (rh_len (header_decode data))) (drop 8 data)) \<noteq> rh_crc (header_decode data)"
  shows "scan_records K data v a = (a, v, True)"
  using assms by (subst scan_records.simps) (auto simp: Let_def)

text \<open>A record with one byte of its checksum or of its payload changed does not pass the
  comparison of checksums; type and length are still read as written.\<close>

lemma corrupted_record:
  assumes "length (pack_record K r) \<le> kMaxRecordPayload" "4 \<le> i" "i < length (record_bytes K r)"
    "c \<noteq> record_bytes K r ! i" and bad_def: "bad = (record_bytes K r)[i := c] @ rest"
  shows "unat (rh_len (header_decode bad)) = length (pack_record K r)"
    "crc32 (take (length (pack_record K r)) (drop 8 bad)) \<noteq> rh_crc (header_decode bad)"
proof -
  let ?h = "\<lparr>rh_type = record_type r, rh_len = word_of_nat (length (pack_record K r)) :: 32 word,
     rh_crc = crc32 (pack_record K r)\<rparr>"
  let ?r = "header_encode ?h @ pack_record K r"
  have r: "record_bytes K r = ?r" by (simp add: record_bytes_def)
  have len: "unat (rh_len ?h) < 2 ^ 24"
    using assms(1) unat_payload [OF assms(1)] by (simp add: kMaxRecordPayload_def)
  have bad: "bad = (if i < 8 then (header_encode ?h)[i := c] @ pack_record K r @ rest
      else header_encode ?h @ (pack_record K r)[i - 8 := c] @ rest)"
    by (simp add: bad_def r list_update_append)
  have e: "header_encode (header_decode ((header_encode ?h)[i := c])) = (header_encode ?h)[i := c]"
    by (rule header_encode_decode) simp
  have "rh_len (header_decode bad) = rh_len ?h \<and>
    crc32 (take (length (pack_record K r)) (drop 8 bad)) \<noteq> rh_crc (header_decode bad)"
  proof (cases "i < 8")
    case True
    let ?g = "header_decode ((header_encode ?h)[i := c])"
    have "rh_type ?g = rh_type ?h" "rh_len ?g = rh_len ?h"
      using assms(2) header_decode_encode [OF len]
      by (simp_all add: header_decode_def nth_list_update_neq)
    moreover have "?g \<noteq> ?h"
    proof
      assume "?g = ?h"
      with e have "(header_encode ?h)[i := c] = header_encode ?h" by simp
      then have "header_encode ?h ! i = c" using True by (metis header_length nth_list_update_eq)
      with assms(4) True show False by (simp add: r nth_append)
    qed
    ultimately show ?thesis using True by (auto simp: bad header_decode_append)
  next
    case False
    let ?xs = "take (i - 8) (pack_record K r)" and ?ys = "drop (Suc (i - 8)) (pack_record K r)"
    have "i - 8 < length (pack_record K r)" using assms(3) False by (simp add: r)
    then have p: "pack_record K r = ?xs @ pack_record K r ! (i - 8) # ?ys"
      "(pack_record K r)[i - 8 := c] = ?xs @ c # ?ys"
      by (simp_all add: id_take_nth_drop upd_conv_take_nth_drop)
    have "pack_record K r ! (i - 8) \<noteq> c" using assms(4) False by (simp add: r nth_append)
    then have "crc32 ((pack_record K r)[i - 8 := c]) \<noteq> crc32 (pack_record K r)"
      using crc32_detects_byte p by metis
    then show ?thesis
      using False header_decode_encode [OF len] by (simp add: bad header_decode_append)
  qed
  then show "unat (rh_len (header_decode bad)) = length (pack_record K r)"
    "crc32 (take (length (pack_record K r)) (drop 8 bad)) \<noteq> rh_crc (header_decode bad)"
    by (simp_all add: unat_payload [OF assms(1)])
qed

text \<open>
  C19. A changed byte is noticed: when any one byte of the checksum or of the payload of a
  record differs from what was written, recovery returns the state of the records before it,
  nothing of it and of what follows, and cuts the file there.
\<close>

theorem corruption_is_detected:
  assumes "list_all (record_ok K) rs" "record_ok K r" "4 \<le> i" "i < length (record_bytes K r)"
    "c \<noteq> record_bytes K r ! i"
    "list_wal_files (b_dir b) = [name]" "healthy F name"
    "file_data (b_dir b) name = log_bytes K rs @ (record_bytes K r)[i := c] @ rest"
  shows "\<exists>b'. wal_recover K F b = (Inr (recover_records rs), b')
     \<and> file_data (b_dir b') name = log_bytes K rs"
proof -
  let ?bad = "(record_bytes K r)[i := c] @ rest"
  have ok: "length (pack_record K r) \<le> kMaxRecordPayload" using assms(2) by (simp add: record_ok_def)
  have l: "length (record_bytes K r) = 8 + length (pack_record K r)" by (simp add: record_bytes_def)
  have "scan_records K ?bad v a = (a, v, True)" for v a
    using corrupted_record [OF ok assms(3-5) refl, of rest] by (intro scan_crc_mismatch) (simp_all add: l)
  then have "scan_records K (log_bytes K rs @ ?bad) 0 recovered_init =
      (recover_records rs, length (log_bytes K rs), True)"
    using wal_scan.scan_frames [OF assms(1), of ?bad 0 recovered_init] by (simp add: recover_records_def)
  then show ?thesis using recover_one_file [OF assms(6,7), of K] by (simp add: assms(8))
qed

theorem corruption_is_detected_witness:
  "\<exists>b'. wal_recover ex_wal_codec ex_disk (ex_log (sconst Write_ok) ((record_bytes ex_wal_codec (RecEntry ex_logged))[8 := 9]))
       = (Inr (recover_records []), b')
     \<and> file_data (b_dir b') (make_wal_name 0 0) = []"
proof -
  let ?r = "record_bytes ex_wal_codec (RecEntry ex_logged)"
  have r: "?r ! 8 = 2" "length ?r = 12"
    by (simp_all add: record_bytes_def ex_wal_codec_def ex_logged_def nth_append)
  show ?thesis
    using corruption_is_detected [of ex_wal_codec "[]" "RecEntry ex_logged" 8 9 "ex_log (sconst Write_ok) (?r[8 := 9])"
        "make_wal_name 0 0" ex_disk "[]"]
    by (simp add: ex_logged_ok r ex_log_files ex_log_file ex_disk_healthy)
qed

subsection \<open>Recovery of any file\<close>

lemma header_decode_take: "8 \<le> n \<Longrightarrow> 8 \<le> length data \<Longrightarrow> header_decode (take n data) = header_decode data"
  by (simp add: header_decode_def)

definition same_log :: "recovered \<Rightarrow> recovered \<Rightarrow> bool" where
  "same_log a b \<longleftrightarrow> rec_entries a = rec_entries b \<and> rec_snapshot a = rec_snapshot b"

lemma convert_failed: "convert_record K ty payload a = (False, a') \<Longrightarrow> same_log a a'"
  by (auto simp: convert_record_def same_log_def split: if_splits sum.splits prod.splits)

text \<open>The scan of the valid bytes of a file reports no damage and returns what the scan of the
  file returned, but for a hard state that was only partly converted.\<close>

lemma scan_nil: "scan_records K [] v a = (a, v, False)"
  by (simp add: scan_records.simps [of K "[]"])

lemma scan_cases:
  obtains (empty) "data = []" "scan_records K data v a = (a, v, False)"
  | (damaged) a' where "scan_records K data v a = (a', v, True)" "same_log a a'" "data \<noteq> []"
  | (valid) len a' where "8 + len \<le> length data" "scan_records K data v a = scan_records K (drop (8 + len) data) (v + (8 + len)) a'"
      "\<And>n. 8 + len \<le> n \<Longrightarrow> scan_records K (take n data) v a =
         scan_records K (take (n - (8 + len)) (drop (8 + len) data)) (v + (8 + len)) a'"
proof (cases "length data < 8")
  case True
  with that(1,2) show ?thesis
    by (cases "data = []") (simp_all add: scan_records.simps [of K data] scan_nil same_log_def)
next
  case False
  let ?h = "header_decode data" and ?rest = "drop 8 data"
  let ?len = "unat (rh_len ?h)"
  let ?p = "take ?len ?rest"
  show ?thesis
  proof (cases "rh_type ?h \<in> {RecordTypeEntry, RecordTypeHardState, RecordTypeSnapshot}
      \<and> ?len \<le> length ?rest \<and> crc32 ?p = rh_crc ?h")
    case bad: False
    then have "scan_records K data v a = (a, v, True)"
      using False by (subst scan_records.simps) (auto simp: Let_def)
    with that(2) False show ?thesis by (force simp: same_log_def)
  next
    case ok: True
    obtain c a' where c: "convert_record K (rh_type ?h) ?p a = (c, a')" by fastforce
    have step: "scan_records K (take n data) v a =
       (if c then scan_records K (take (n - (8 + ?len)) (drop (8 + ?len) data)) (v + (8 + ?len)) a' else (a', v, True))"
      if n: "8 + ?len \<le> n" for n
    proof -
      have eq: "n - 8 = ?len + (n - (8 + ?len))" using n by simp
      have "drop 8 (take n data) = ?p @ take (n - (8 + ?len)) (drop (8 + ?len) data)"
        unfolding drop_take eq take_add by (simp add: add.commute)
      then show ?thesis
        using scan_valid [of "take n data" ?h ?p _ K v a] ok False n c by (simp add: header_decode_take)
    qed
    have le: "8 + ?len \<le> length data"
    proof -
      have "?len \<le> length data - 8" using ok by simp
      with False show ?thesis by linarith
    qed
    show ?thesis
    proof (cases c)
      case True
      show ?thesis
        using that(3) [OF le _ step [unfolded if_P [OF True]]] step [OF le] True by simp
    next
      case c': False
      then have "same_log a a'" using c by (intro convert_failed) simp
      with that(2) [of a'] step [OF le] c' False show ?thesis by force
    qed
  qed
qed

lemma scan_again:
  "scan_records K data v a = (a', v', d) \<Longrightarrow>
     v \<le> v' \<and> (if d then v' < v + length data else v' = v + length data)
     \<and> (\<exists>a''. scan_records K (take (v' - v) data) v a = (a'', v', False)
          \<and> same_log a'' a' \<and> (d \<or> a'' = a'))"
proof (induction "length data" arbitrary: data v a rule: less_induct)
  case less
  show ?case
  proof (cases rule: scan_cases [of data K v a])
    case (valid len b)
    let ?rest = "drop (8 + len) data"
    have s: "scan_records K ?rest (v + (8 + len)) b = (a', v', d)" using less.prems valid(2) by simp
    have l: "length ?rest < length data" "8 + len + length ?rest = length data" using valid(1) by simp_all
    note ih = less.hyps [OF l(1) s]
    have le: "v \<le> v'" "8 + len \<le> v' - v" using conjunct1 [OF ih] by linarith+
    have "v' - v - (8 + len) = v' - (v + (8 + len))" by simp
    with valid(3) [OF le(2)] have t: "scan_records K (take (v' - v) data) v a =
        scan_records K (take (v' - (v + (8 + len))) ?rest) (v + (8 + len)) b" by presburger
    have "if d then v' < v + length data else v' = v + length data"
      using conjunct1 [OF conjunct2 [OF ih]] l(2) by (cases d) simp_all
    with le(1) conjunct2 [OF conjunct2 [OF ih]] show ?thesis unfolding t by blast
  next
    case (damaged b)
    with less.prems show ?thesis by (simp add: scan_nil same_log_def)
  next
    case empty
    with less.prems show ?thesis by (simp add: scan_nil same_log_def)
  qed
qed

text \<open>
  C20. Recovery accepts any bytes and settles them: whatever the log file holds, recovery
  returns, keeps a prefix of the file and only cuts when the tail is damaged; a second recovery
  finds the file undamaged, leaves it as it is, and returns the same entries and the same
  snapshot, and also the same hard state if nothing was cut.
\<close>

theorem recovery_settles_any_file:
  assumes "list_wal_files (b_dir b) = [name]" "healthy F name"
  shows "\<exists>a b' a2. wal_recover K F b = (Inr a, b')
     \<and> prefix (file_data (b_dir b') name) (file_data (b_dir b) name)
     \<and> wal_recover K F b' = (Inr a2, b') \<and> same_log a2 a
     \<and> (file_data (b_dir b') name = file_data (b_dir b) name \<longrightarrow> b' = b \<and> a2 = a)"
proof -
  let ?data = "file_data (b_dir b) name"
  obtain a n d where s: "scan_records K ?data 0 recovered_init = (a, n, d)" by (metis prod_cases3)
  have n: "if d then n < length ?data else n = length ?data"
    and "\<exists>a2. scan_records K (take n ?data) 0 recovered_init = (a2, n, False) \<and> same_log a2 a \<and> (d \<or> a2 = a)"
    using scan_again [OF s] unfolding add_0 diff_zero by blast+
  then obtain a2 where a2: "scan_records K (take n ?data) 0 recovered_init = (a2, n, False)"
    "same_log a2 a" "d \<or> a2 = a" by blast
  let ?b = "b\<lparr>b_dir := AList.update name (take n ?data) (b_dir b)\<rparr>"
  have l: "list_wal_files (b_dir ?b) = [name]"
    using list_wal_files_update [OF listed_file [OF assms(1)]] assms(1) by simp
  show ?thesis
  proof (cases d)
    case True
    have "wal_recover K F ?b = (Inr a2, ?b)" using recover_one_file [OF l assms(2)] a2(1) by simp
    moreover have "wal_recover K F b = (Inr a, ?b)" using recover_one_file [OF assms, of K] s True by simp
    moreover have "take n ?data \<noteq> ?data" using n True by simp
    ultimately show ?thesis using a2(2) by (intro exI [of _ a] exI [of _ ?b] exI [of _ a2]) (simp add: take_is_prefix)
  next
    case False
    then have "wal_recover K F b = (Inr a, b)" using recover_one_file [OF assms, of K] s by simp
    then show ?thesis by (intro exI [of _ a] exI [of _ b]) (simp add: same_log_def)
  qed
qed

theorem recovery_settles_any_file_witness:
  "\<exists>a b' a2. wal_recover ex_wal_codec ex_disk (ex_log (sconst Write_ok) [1, 2, 3]) = (Inr a, b')
     \<and> prefix (file_data (b_dir b') (make_wal_name 0 0)) [1, 2, 3]
     \<and> wal_recover ex_wal_codec ex_disk b' = (Inr a2, b') \<and> same_log a2 a"
  using recovery_settles_any_file [OF ex_log_files ex_disk_healthy, of ex_wal_codec "sconst Write_ok" "[1, 2, 3]"]
  unfolding ex_log_file by blast

subsection \<open>File names and a new log\<close>

lemma append_less_append:
  fixes xs ys us vs :: string
  assumes "length xs = length ys"
  shows "xs @ us < ys @ vs \<longleftrightarrow> xs < ys \<or> xs = ys \<and> us < vs"
  using assms by (induction xs ys rule: list_induct2) auto

lemma hex_char_less: "i < 16 \<Longrightarrow> j < 16 \<Longrightarrow> hex_char i < hex_char j \<longleftrightarrow> i < j"
proof -
  assume "i < 16" "j < 16"
  moreover have "list_all (\<lambda>i. list_all (\<lambda>j. hex_char i < hex_char j \<longleftrightarrow> i < j) [0..<16]) [0..<16]"
    by (simp add: upt_rec hex_char_def less_char_def)
  ultimately show ?thesis by (simp add: list_all_iff)
qed

lemma hex_fixed_eq:
  assumes "n < 16 ^ k" "m < 16 ^ k"
  shows "hex_fixed k n = hex_fixed k m \<longleftrightarrow> n = m"
proof -
  have "hexadecimal (hex_fixed k n) = n" "hexadecimal (hex_fixed k m) = m"
    using assms by (simp_all add: hexadecimal_fixed)
  then show ?thesis by metis
qed

lemma less_by_div_mod: "n < m \<longleftrightarrow> n div d < m div d \<or> n div d = m div d \<and> n mod d < m mod d" for n m d :: nat
proof (cases "n div d = m div d")
  case True
  have "n = d * (n div d) + n mod d" "m = d * (m div d) + m mod d" by simp_all
  with True show ?thesis by (metis add_less_cancel_left less_irrefl)
next
  case False
  then show ?thesis using div_le_mono [of n m d] div_le_mono [of m n d] by linarith
qed

lemma hex_fixed_less:
  "n < 16 ^ k \<Longrightarrow> m < 16 ^ k \<Longrightarrow> hex_fixed k n < hex_fixed k m \<longleftrightarrow> n < m"
proof (induction k arbitrary: n m)
  case (Suc k)
  have k: "n div 16 < 16 ^ k" "m div 16 < 16 ^ k" using Suc.prems by (simp_all add: less_mult_imp_div_less)
  have "n < m \<longleftrightarrow> n div 16 < m div 16 \<or> n div 16 = m div 16 \<and> n mod 16 < m mod 16"
    by (rule less_by_div_mod)
  then show ?case
    using Suc.IH [OF k] hex_fixed_eq [OF k] by (simp add: append_less_append hex_char_less)
qed simp

text \<open>
  A file name carries its sequence number and index: it is recognised as a log file, is
  read back, and the names sort as the pairs of numbers do, so the files are read in the order
  they were made.
\<close>

theorem wal_names_sort:
  assumes "seq < two64" "index < two64" "seq' < two64" "index' < two64"
  shows "is_wal_name (make_wal_name seq index)
     \<and> parse_wal_name (make_wal_name seq index) = Some (seq, index)
     \<and> (make_wal_name seq index < make_wal_name seq' index' \<longleftrightarrow>
          seq < seq' \<or> seq = seq' \<and> index < index')"
proof -
  have t: "two64 = 16 ^ 16" by (simp add: two64_def)
  have "make_wal_name seq index < make_wal_name seq' index' \<longleftrightarrow>
      hex_fixed 16 seq < hex_fixed 16 seq' \<or>
      hex_fixed 16 seq = hex_fixed 16 seq' \<and> hex_fixed 16 index < hex_fixed 16 index'"
    by (auto simp: make_wal_name_def append_less_append)
  then show ?thesis
    using parse_make_wal_name [OF assms(1,2)] assms [unfolded t] by (simp add: hex_fixed_less hex_fixed_eq)
qed

theorem wal_names_sort_witness:
  "is_wal_name (make_wal_name 9 255) \<and> parse_wal_name (make_wal_name 9 255) = Some (9, 255)
   \<and> make_wal_name 9 255 < make_wal_name 10 2"
  using wal_names_sort [of 9 255 10 2] by (simp add: two64_def)

lemma created_log:
  assumes "list_wal_files d = []"
  shows "\<exists>b. wal_create True True True io (Some d) = (Some b, Some (b_dir b))
     \<and> b_dir b = d @ [(make_wal_name 0 0, [])]
     \<and> log_image K b (empty_wal K io') \<and> b_io b = io"
proof -
  let ?n = "make_wal_name 0 0"
  have no: "filter is_wal_name (map fst d) = []"
    using assms by (simp add: list_wal_files_def) (metis length_0_conv length_sort)
  then have new: "?n \<notin> fst ` set d" using is_wal_name_make [of 0 0] by (force simp: filter_empty_conv)
  then have "map_of d ?n = None" by (simp add: map_of_eq_None_iff)
  with no new show ?thesis
    using parse_make_wal_name [of 0 0]
    by (simp add: wal_create_def Let_def new_handle_def log_image_def empty_wal_def list_wal_files_def
        file_data_def map_add_def)
qed

end
