(* ===== verification/Node_Start.thy ===== *)
theory Node_Start
  imports Node_Runtime Wal_Bytes Cluster_Trace
begin

text \<open>
  Starting a node: the constructor of \<^verbatim>\<open>NodeRuntime::Impl\<close> with \<^verbatim>\<open>recover_storage\<close> and
  \<^verbatim>\<open>create_network_services\<close>, the beginning of \<^verbatim>\<open>run\<close>, and \<^verbatim>\<open>main\<close>. The theory shows that the
  bytes of the data directory determine the store: a restart applies exactly the committed
  entries of the log to the last snapshot.
\<close>

unbundle bit_operations_syntax

subsection \<open>The data directory\<close>

text \<open>A file has the extension \<open>.wal\<close> when something precedes it in the name.\<close>

definition contains_wal_file :: "wal_dir option \<Rightarrow> bool" where
  "contains_wal_file dir =
     (case dir of
        None \<Rightarrow> False
      | Some d \<Rightarrow> list_ex (\<lambda>name. is_wal_name name \<and> 4 < length name) (map fst d))"

definition open_storage ::
  "bool \<Rightarrow> bool \<Rightarrow> bool \<Rightarrow> bool \<Rightarrow> write_outcome stream \<Rightarrow> wal_dir option \<Rightarrow> exn + bool \<times> wal_handle" where
  "open_storage mkdir_ok open_ok fdopen_ok fopen_ok io dir =
     (if contains_wal_file dir then
        (case wal_open fopen_ok io dir of None \<Rightarrow> Inl Runtime_error | Some h \<Rightarrow> Inr (True, h))
      else if dir \<noteq> None \<and> dir \<noteq> Some [] then Inl Runtime_error
      else
        (case wal_create mkdir_ok open_ok fdopen_ok io dir of
           (None, _) \<Rightarrow> Inl Runtime_error | (Some h, _) \<Rightarrow> Inr (False, h)))"

subsection \<open>Replaying the log into the store\<close>

definition runnable :: "entry \<Rightarrow> bool" where
  "runnable e \<longleftrightarrow> entry_type e = EntryNormal \<and> entry_data e \<noteq> []"

fun replay_entries ::
  "kv_codec \<Rightarrow> nat \<Rightarrow> entry list \<Rightarrow> raft \<Rightarrow> store \<Rightarrow> nat \<Rightarrow> exn + raft \<times> store \<times> nat" where
  "replay_entries K snap [] s st applied = Inr (s, st, applied)"
| "replay_entries K snap (e # es) s st applied =
     (if entry_index e \<le> snap then replay_entries K snap es s st applied
      else if entry_index e > r_commit_index s then Inr (s, st, applied)
      else if entry_index e \<noteq> u64_inc applied then Inl Runtime_error
      else if entry_type e = EntryNormal \<and> entry_data e \<noteq> [] then
        (case kv_apply K e st of
           (Inl x, _) \<Rightarrow> Inl x
         | (Inr _, st') \<Rightarrow> replay_entries K snap es (advance (entry_index e) s) st' (entry_index e))
      else replay_entries K snap es (advance (entry_index e) s) st (entry_index e))"

definition recover_storage :: "kv_codec \<Rightarrow> bool \<Rightarrow> wal \<Rightarrow> raft \<Rightarrow> exn + raft \<times> store \<times> nat" where
  "recover_storage K had_wal w s =
     (if \<not> had_wal then Inr (set_wal w s, [], 0)
      else
        let R = recover_records (w_disk w); snap = rec_snapshot R
        in case (if snap_is_empty snap then (Inr (), []) else deserialize K (snap_state snap) []) of
             (Inl x, _) \<Rightarrow> Inl x
           | (Inr _, st) \<Rightarrow>
               (case restore (rec_hard_state R) (rec_entries R) snap s of
                  Inl x \<Rightarrow> Inl x
                | Inr s1 \<Rightarrow>
                    (case replay_entries K (snap_index snap) (rec_entries R) s1 st
                            (if snap_is_empty snap then 0 else snap_index snap) of
                       Inl x \<Rightarrow> Inl x
                     | Inr (s2, st2, applied) \<Rightarrow>
                         if applied \<noteq> r_commit_index s2 then Inl Runtime_error
                         else Inr (set_wal w s2, st2, applied))))"

subsection \<open>The node\<close>

definition initial_request_id :: "32 word \<Rightarrow> 32 word \<Rightarrow> 64 word \<Rightarrow> nat \<Rightarrow> nat" where
  "initial_request_id random1 random2 now node_id =
     (let v = push_bit 32 (ucast random1) XOR ucast random2 XOR now
                XOR (word_of_nat node_id * 0x9e3779b97f4a7c15) :: 64 word
      in if v = 0 then 1 else unat v)"

text \<open>
  The operating system's part of the network set-up: resolving and binding the address of the
  Raft listener, parsing an IP address, and binding the client listener.
\<close>

record network =
  nw_listen_raft :: "string \<times> string \<Rightarrow> exn + unit"
  nw_make_address :: "string \<Rightarrow> exn + string"
  nw_listen_client :: "string \<times> nat \<Rightarrow> exn + unit"

definition peer_create :: "string \<Rightarrow> exn + peer" where
  "peer_create address = (case split_address address of Inl x \<Rightarrow> Inl x | Inr _ \<Rightarrow> Inr new_peer)"

definition server_create :: "network \<Rightarrow> string \<Rightarrow> exn + server" where
  "server_create N address =
     (case split_address address of
        Inl x \<Rightarrow> Inl x
      | Inr endpoint \<Rightarrow> (case nw_listen_raft N endpoint of Inl x \<Rightarrow> Inl x | Inr _ \<Rightarrow> Inr new_server))"

definition resp_server_create :: "network \<Rightarrow> string \<Rightarrow> resp_limits \<Rightarrow> exn + resp_server" where
  "resp_server_create N listen_address limits =
     (case parse_listen_address (nw_make_address N) listen_address of
        Inl x \<Rightarrow> Inl x
      | Inr endpoint \<Rightarrow>
          (case nw_listen_client N endpoint of Inl x \<Rightarrow> Inl x | Inr _ \<Rightarrow> Inr (new_resp_server limits)))"

fun create_peers :: "peer_address list \<Rightarrow> peer umap \<Rightarrow> exn + peer umap" where
  "create_peers [] peers = Inr peers"
| "create_peers (p # ps) peers =
     (case peer_create (pa_address p) of
        Inl x \<Rightarrow> Inl x
      | Inr created \<Rightarrow> create_peers ps (emplace peers (pa_id p) created))"

definition create_network_services :: "network \<Rightarrow> node_config \<Rightarrow> exn + peer umap \<times> server \<times> resp_server" where
  "create_network_services N nc =
     (case create_peers (nc_peers nc) [] of
        Inl x \<Rightarrow> Inl x
      | Inr peers \<Rightarrow>
          (case server_create N (nc_raft_address nc) of
             Inl x \<Rightarrow> Inl x
           | Inr peer_server \<Rightarrow>
               (case resp_server_create N (nc_client_address nc) default_limits of
                  Inl x \<Rightarrow> Inl x
                | Inr client_server \<Rightarrow> Inr (peers, peer_server, client_server))))"

definition new_runtime ::
  "kv_codec \<Rightarrow> node_config \<Rightarrow> nat stream \<Rightarrow> nat \<Rightarrow> network \<Rightarrow> bool \<Rightarrow> wal \<Rightarrow> exn + runtime" where
  "new_runtime K nc rng request_id N had_wal w =
     (case raft_new (raft_config_for nc) rng of
        Inl x \<Rightarrow> Inl x
      | Inr s \<Rightarrow>
          (case recover_storage K had_wal w s of
             Inl x \<Rightarrow> Inl x
           | Inr (s1, st, applied) \<Rightarrow>
               (case create_network_services N nc of
                  Inl x \<Rightarrow> Inl x
                | Inr (peers, peer_server, client_server) \<Rightarrow> Inr
                    \<lparr>rt_config = nc, rt_raft = set_snapshot_restore_callback (\<lambda>_ _. False) s1,
                     rt_store = st, rt_peers = peers,
                     rt_peer_server = peer_server, rt_client_server = client_server,
                     rt_pending_writes = [], rt_pending_reads = [], rt_read_indexes = [],
                     rt_next_request_id = request_id, rt_store_applied = applied,
                     rt_apply_in_flight = None, rt_snapshot_pending = False,
                     rt_logged = (Follower, two64 - 1, two64 - 1), rt_stopping = False,
                     rt_exit_code = 0, rt_raft_queue = [], rt_store_queue = [], rt_peer_stop = False,
                     rt_ticking = False, rt_polling = False, rt_halted = False, rt_replies = [],
                     rt_output = (if had_wal then
                       [''node '' @ to_string (nc_id nc) @ '' recovered term='' @ to_string (r_term s1) @
                        '' commit='' @ to_string (r_commit_index s1) @ '' snapshot='' @
                        to_string (snap_index (rec_snapshot (recover_records (w_disk w))))] else [])\<rparr>)))"

definition start_services :: "runtime \<Rightarrow> runtime" where
  "start_services rt =
     log_status_if_changed True
       (rt\<lparr>rt_peer_server := server_start (rt_peer_server rt),
           rt_client_server := resp_start (rt_client_server rt), rt_ticking := True, rt_polling := True,
           rt_output := rt_output rt @
             [''node '' @ to_string (nc_id (rt_config rt)) @ '' raft='' @ nc_raft_address (rt_config rt) @
              '' client='' @ nc_client_address (rt_config rt) @ '' data='' @ nc_data_directory (rt_config rt)]\<rparr>)"

definition node_usage :: "string option \<Rightarrow> string" where
  "node_usage program =
     (let name = (case program of None \<Rightarrow> ''raft-kv'' | Some p \<Rightarrow> p); newline = [CHR 0x0A]
      in ''Usage:'' @ newline @ ''  '' @ name @
         '' --id=<1|2|3> --raft=<IP:port> --client=<IP:port>'' @ newline @
         ''      --peer=<ID>@<IP:port> --peer=<ID>@<IP:port> --data=<dir>'' @ newline @
         ''      [--tick-ms=<1..1000>] [--snapshot-threshold=<entries>]'' @ newline)"

text \<open>\<open>main\<close>: the exit code and the lines of the standard output; the message on the standard
  error is left out. \<open>serve\<close> stands for the run of the three loops until they end.\<close>

definition main_result ::
  "(node_config \<Rightarrow> exn + runtime) \<Rightarrow> (runtime \<Rightarrow> runtime) \<Rightarrow> string list \<Rightarrow> nat \<times> string list" where
  "main_result create serve argv =
     (if length argv = 2 \<and> argv ! 1 = ''--help'' then (0, [node_usage (Some (argv ! 0))])
      else
        (case parse_node_config argv of
           Inl x \<Rightarrow> (1, [])
         | Inr nc \<Rightarrow>
             (case create nc of
                Inl x \<Rightarrow> (1, [])
              | Inr rt \<Rightarrow> let rt' = serve (start_services rt) in (rt_exit_code rt', rt_output rt'))))"

subsection \<open>What a start recovers\<close>

text \<open>The store the log stands for: the snapshot, and the commands of the first \<open>n\<close> entries
  after it.\<close>

definition snapshot_store :: "kv_codec \<Rightarrow> nat \<Rightarrow> bytes \<Rightarrow> exn + store" where
  "snapshot_store K i state = (if i = 0 then Inr [] else kc_unpack_store K state)"

definition log_store :: "kv_codec \<Rightarrow> nat \<Rightarrow> bytes \<Rightarrow> entry list \<Rightarrow> exn + store" where
  "log_store K i state es =
     (case snapshot_store K i state of Inl x \<Rightarrow> Inl x | Inr st \<Rightarrow> kv_replay K (filter runnable es) st)"

lemma replay_entries_eq:
  assumes "entries_from (Suc a) es" "snap \<le> a" "r_last_applied s = a" "a \<le> r_commit_index s"
    "a + length es + 1 < two64"
  shows "replay_entries K snap es s st a =
     (let n = min (r_commit_index s - a) (length es)
      in case kv_replay K (filter runnable (take n es)) st of
           Inl x \<Rightarrow> Inl x
         | Inr st' \<Rightarrow> Inr (s\<lparr>r_last_applied := a + n\<rparr>, st', a + n))"
  using assms
proof (induction es arbitrary: a s st)
  case Nil
  then show ?case by simp
next
  case (Cons e es)
  have e: "entry_index e = Suc a" "entries_from (Suc (Suc a)) es" using Cons.prems(1) by simp_all
  show ?case
  proof (cases "r_commit_index s = a")
    case True
    then show ?thesis using Cons.prems(2,3) e(1) by simp
  next
    case False
    let ?s = "s\<lparr>r_last_applied := Suc a\<rparr>"
    have lt: "a < r_commit_index s" using False Cons.prems(4) by simp
    have inc: "u64_inc a = Suc a" using Cons.prems(5) by (simp add: wrap_simps)
    have adv: "advance (Suc a) s = ?s" using lt Cons.prems(3) inc by (simp add: advance_def)
    note ih = Cons.IH [of "Suc a" ?s]
    have n: "min (r_commit_index s - a) (length (e # es)) = Suc (min (r_commit_index s - Suc a) (length es))"
      using lt by simp
    have rest: "replay_entries K snap es ?s st' (Suc a) =
      (let n = min (r_commit_index s - Suc a) (length es)
       in case kv_replay K (filter runnable (take n es)) st' of
            Inl x \<Rightarrow> Inl x
          | Inr st'' \<Rightarrow> Inr (s\<lparr>r_last_applied := Suc a + n\<rparr>, st'', Suc a + n))" for st'
      using ih [of st'] e(2) Cons.prems(2,5) lt by (simp add: Let_def split: sum.split)
    have step: "replay_entries K snap (e # es) s st a =
      (if runnable e then
         (case kv_apply K e st of (Inl x, _) \<Rightarrow> Inl x | (Inr _, st') \<Rightarrow> replay_entries K snap es ?s st' (Suc a))
       else replay_entries K snap es ?s st (Suc a))"
      unfolding replay_entries.simps(2) runnable_def e(1) adv inc using lt Cons.prems(2) by simp
    show ?thesis
    proof (cases "runnable e")
      case True
      obtain r st' where "kv_apply K e st = (r, st')" by fastforce
      with True show ?thesis unfolding n take_Suc_Cons step rest Let_def add_Suc add_Suc_right
        by (cases r) simp_all
    next
      case False
      then show ?thesis unfolding n take_Suc_Cons step rest Let_def add_Suc add_Suc_right by simp
    qed
  qed
qed

lemma legal_from_snapshot:
  "legal_from R rs \<Longrightarrow> snap_is_empty (rec_snapshot R) \<or> 0 < snap_index (rec_snapshot R) \<Longrightarrow>
     snap_is_empty (rec_snapshot (fold recover_record rs R)) \<or> 0 < snap_index (rec_snapshot (fold recover_record rs R))"
proof (induction rs arbitrary: R)
  case (Cons r rs)
  then show ?case by (cases r) auto
qed simp

lemma legal_snapshot:
  assumes "legal d"
  shows "snap_is_empty (rec_snapshot (recover_records d)) \<longleftrightarrow> snap_index (rec_snapshot (recover_records d)) = 0"
  using legal_from_snapshot [of recovered_init d] assms
  by (auto simp: legal_def recover_records_def recovered_init_def empty_snapshot_def snap_is_empty_def)

lemma recover_storage_legal:
  assumes "legal (w_disk w)" "node_wf s"
  defines "R \<equiv> recover_records (w_disk w)"
  shows "case log_store K (snap_index (rec_snapshot R)) (snap_state (rec_snapshot R))
           (take (rec_commit R - snap_index (rec_snapshot R)) (rec_entries R)) of
       Inl x \<Rightarrow> recover_storage K True w s = Inl x
     | Inr st \<Rightarrow> \<exists>s'. recover_storage K True w s = Inr (s', st, rec_commit R) \<and> node_wf s'
         \<and> wal_image R s' \<and> r_last_applied s' = rec_commit R \<and> r_commit_index s' = rec_commit R
         \<and> r_wal s' = Some w \<and> \<not> r_storage_failed s' \<and> r_id s' = r_id s \<and> r_peers s' = r_peers s"
proof -
  let ?snap = "rec_snapshot R" and ?b = "snap_index (rec_snapshot R)"
  have wf: "rec_wf R" unfolding R_def using assms(1) by (rule legal_wf)
  have em: "snap_is_empty ?snap \<longleftrightarrow> ?b = 0" unfolding R_def using assms(1) by (rule legal_snapshot)
  obtain s1 where s1: "restore (rec_hard_state R) (rec_entries R) ?snap s = Inr s1" "node_wf s1"
    "wal_image R s1" "r_id s1 = r_id s" "r_peers s1 = r_peers s"
    using restore_node [OF wf assms(2)] by blast
  have la: "r_last_applied s1 = ?b" "r_commit_index s1 = rec_commit R"
    using restore_recovered [OF wf, of s] s1(1) by auto
  have c: "?b \<le> rec_commit R" "rec_commit R \<le> ?b + length (rec_entries R)"
    using wf by (auto simp: rec_wf_def rec_end_def rec_commit_def)
  let ?n = "rec_commit R - ?b"
  have rp: "replay_entries K ?b (rec_entries R) s1 st ?b =
     (case kv_replay K (filter runnable (take ?n (rec_entries R))) st of
        Inl x \<Rightarrow> Inl x | Inr st' \<Rightarrow> Inr (s1\<lparr>r_last_applied := rec_commit R\<rparr>, st', rec_commit R))" for st
    using replay_entries_eq [of ?b "rec_entries R" ?b s1 K st] wf la c
    by (simp add: rec_wf_def rec_end_def min_absorb1 Let_def split: sum.split)
  let ?s = "set_wal w (s1\<lparr>r_last_applied := rec_commit R\<rparr>)"
  have "log_wf (s1\<lparr>r_last_applied := rec_commit R\<rparr>)"
    using s1(2) la c by (auto simp: node_wf_def raft_wf_def log_wf_def log_end_def)
  then have "node_wf ?s"
    using s1(2) by (simp add: set_wal_def node_wf_def raft_wf_def config_wf_def maps_wf_def out_wf_def
        log_wf_def log_end_def other_peers_def)
  note wf' = this
  have f: "wal_image R ?s" "r_last_applied ?s = rec_commit R" "r_commit_index ?s = rec_commit R"
    "r_wal ?s = Some w" "\<not> r_storage_failed ?s" "r_id ?s = r_id s" "r_peers ?s = r_peers s"
    using s1 la by (simp_all add: set_wal_def wal_image_def)
  have start: "(if snap_is_empty ?snap then 0 else ?b) = ?b" using em by auto
  have base: "(if snap_is_empty ?snap then (Inr (), []) else deserialize K (snap_state ?snap) []) =
     (case snapshot_store K ?b (snap_state ?snap) of Inl x \<Rightarrow> (Inl x, []) | Inr st \<Rightarrow> (Inr (), st))"
    using em by (simp add: snapshot_store_def deserialize_def)
  let ?es = "take ?n (rec_entries R)"
  have "recover_storage K True w s =
     (case log_store K ?b (snap_state ?snap) ?es of Inl x \<Rightarrow> Inl x | Inr st \<Rightarrow> Inr (?s, st, rec_commit R))"
  proof (cases "snapshot_store K ?b (snap_state ?snap)")
    case (Inr st)
    then show ?thesis
      unfolding recover_storage_def Let_def R_def [symmetric] base s1(1) start log_store_def
      using la rp [of st] by (cases "kv_replay K (filter runnable ?es) st") simp_all
  qed (simp add: recover_storage_def Let_def base log_store_def flip: R_def)
  then show ?thesis
    using wf' f by (cases "log_store K ?b (snap_state ?snap) ?es") simp_all
qed

lemma new_runtime_legal:
  assumes "legal (w_disk w)" "nc_id nc \<in> {1, 2, 3}" "create_network_services N nc = Inr services"
  defines "R \<equiv> recover_records (w_disk w)"
  shows "case log_store K (snap_index (rec_snapshot R)) (snap_state (rec_snapshot R))
               (take (rec_commit R - snap_index (rec_snapshot R)) (rec_entries R)) of
          Inl x \<Rightarrow> new_runtime K nc rng i N True w = Inl x
        | Inr st \<Rightarrow> \<exists>rt. new_runtime K nc rng i N True w = Inr rt \<and> rt_store rt = st
            \<and> rt_store_applied rt = rec_commit R \<and> r_last_applied (rt_raft rt) = rec_commit R
            \<and> wal_image R (rt_raft rt) \<and> node_wf (rt_raft rt)" (is "case ?L of Inl x \<Rightarrow> _ | Inr st \<Rightarrow> _")
proof -
  obtain s where s: "raft_new (raft_config_for nc) rng = Inr s"
    using assms(2) by (auto simp: raft_new_def raft_config_for_def default_config_def)
  note r = recover_storage_legal [OF assms(1) raft_new_node_wf [OF s], of K, folded R_def]
  show ?thesis
  proof (cases ?L)
    case (Inl x)
    with r s show ?thesis by (simp add: new_runtime_def)
  next
    case (Inr st)
    with r obtain s' where s': "recover_storage K True w s = Inr (s', st, rec_commit R)" "node_wf s'"
      "wal_image R s'" "r_last_applied s' = rec_commit R" by auto
    then have "node_wf (set_snapshot_restore_callback (\<lambda>_ _. False) s')"
      "wal_image R (set_snapshot_restore_callback (\<lambda>_ _. False) s')"
      "r_last_applied (set_snapshot_restore_callback (\<lambda>_ _. False) s') = rec_commit R"
      by (simp_all add: set_snapshot_restore_callback_def node_wf_def out_wf_def wf_defs wal_image_def)
    with s s'(1) Inr assms(3) show ?thesis by (cases services) (simp add: new_runtime_def)
  qed
qed

lemma open_storage_log:
  assumes "log_image K b w"
  shows "open_storage mk op fd True io (Some (b_dir b)) =
     (case wal_open True io (Some (b_dir b)) of None \<Rightarrow> Inl Runtime_error | Some h \<Rightarrow> Inr (True, h))"
proof -
  have f: "list_wal_files (b_dir b) = [b_name b]" "parse_wal_name (b_name b) \<noteq> None"
    using assms by (simp_all add: log_image_def)
  then have "b_name b \<in> set (filter is_wal_name (map fst (b_dir b)))"
    by (metis list.set_intros(1) list_wal_files_def set_sort)
  moreover have "4 < length (b_name b)" using f(2) by (auto simp: parse_wal_name_def split: if_splits)
  ultimately have "contains_wal_file (Some (b_dir b))"
    by (force simp: contains_wal_file_def list_ex_iff)
  then show ?thesis by (simp add: open_storage_def)
qed

text \<open>
  C29. The bytes in the data directory determine the store: a node that starts on a log it
  wrote, wherever it had stopped, reads back the durable records, and its store is the last
  snapshot with the commands of exactly the committed entries applied in order; its Raft core
  has applied up to the commit index; if a committed command cannot be applied the start is
  refused.
\<close>

theorem restart_replays_committed:
  assumes "log_image KW b w" "healthy F (b_name b)" "legal (w_disk w)" "nc_id nc \<in> {1, 2, 3}"
    "create_network_services N nc = Inr services"
  defines "R \<equiv> recover_records (w_disk w)" and "w' \<equiv> w\<lparr>w_buffer := [], w_failed := False\<rparr>"
  shows "\<exists>h h'. open_storage mk op fd True io (Some (b_dir b)) = Inr (True, h)
     \<and> wal_recover KW F h = (Inr R, h') \<and> log_image KW h' w'
     \<and> (case log_store K (snap_index (rec_snapshot R)) (snap_state (rec_snapshot R))
               (take (rec_commit R - snap_index (rec_snapshot R)) (rec_entries R)) of
          Inl x \<Rightarrow> new_runtime K nc rng i N True w' = Inl x
        | Inr st \<Rightarrow> \<exists>rt. new_runtime K nc rng i N True w' = Inr rt \<and> rt_store rt = st
            \<and> rt_store_applied rt = rec_commit R \<and> r_last_applied (rt_raft rt) = rec_commit R
            \<and> wal_image R (rt_raft rt) \<and> node_wf (rt_raft rt))"
proof -
  obtain h h' where h: "wal_open True io (Some (b_dir b)) = Some h"
    "wal_recover KW F h = (Inr R, h')" "log_image KW h' w'"
    using recovery_of_log [OF assms(1,2), of io] unfolding R_def w'_def by blast
  have d: "w_disk w' = w_disk w" by (simp add: w'_def)
  have "open_storage mk op fd True io (Some (b_dir b)) = Inr (True, h)"
    using open_storage_log [OF assms(1), of mk op fd io] h(1) by simp
  with h(2,3) new_runtime_legal [of w' nc N services K rng i, unfolded d, OF assms(3-5), folded R_def] show ?thesis
    by blast
qed

definition ex_records :: "wal_record list" where
  "ex_records = [RecEntry ex_set, RecHardState \<lparr>hs_term = 1, hs_vote = 1, hs_commit = 1\<rparr>]"

definition ex_written :: wal where
  "ex_written = (empty_wal ex_wal_codec (sconst Sync_ok))\<lparr>w_disk := ex_records\<rparr>"

lemma ex_written_log:
  "log_image ex_wal_codec (ex_log (sconst Write_ok) (log_bytes ex_wal_codec ex_records)) ex_written"
  "legal ex_records"
  "recover_records ex_records = \<lparr>rec_hard_state = \<lparr>hs_term = 1, hs_vote = 1, hs_commit = 1\<rparr>,
     rec_entries = [ex_set], rec_snapshot = empty_snapshot\<rparr>"
proof -
  have "list_all (record_ok ex_wal_codec) ex_records"
    by (simp add: ex_records_def record_ok_def ex_wal_codec_def ex_set_def default_entry_def
        kMaxRecordPayload_def ex_codec_def)
  then show "log_image ex_wal_codec (ex_log (sconst Write_ok) (log_bytes ex_wal_codec ex_records)) ex_written"
    using parse_make_wal_name [of 0 0]
      ex_log_files [of "sconst Write_ok" "log_bytes ex_wal_codec ex_records"]
      ex_log_file [of "sconst Write_ok" "log_bytes ex_wal_codec ex_records"]
    by (simp add: log_image_def ex_written_def empty_wal_def ex_log_def new_handle_def)
  show "recover_records ex_records = \<lparr>rec_hard_state = \<lparr>hs_term = 1, hs_vote = 1, hs_commit = 1\<rparr>,
     rec_entries = [ex_set], rec_snapshot = empty_snapshot\<rparr>"
    by (simp add: ex_records_def recover_records_def recovered_init_def)
  show "legal ex_records"
    by (simp add: ex_records_def legal_def recovered_init_def ex_set_def default_entry_def rec_commit_def
        rec_end_def empty_hard_state_def empty_snapshot_def vote_le_def two64_def)
qed

definition ex_network :: network where
  "ex_network = \<lparr>nw_listen_raft = (\<lambda>_. Inr ()), nw_make_address = Inr, nw_listen_client = (\<lambda>_. Inr ())\<rparr>"

definition ex_addressed :: "nat \<Rightarrow> node_config" where
  "ex_addressed n = (ex_config n)\<lparr>nc_raft_address := ''h:1'', nc_client_address := ''h:2''\<rparr>"

lemma ex_services:
  "create_network_services ex_network (ex_addressed n) = Inr ([], new_server, new_resp_server default_limits)"
proof -
  have "parse_listen_address Inr ''h:2'' = Inr (''h'', 2)" "split_address ''h:1'' = Inr (''h'', ''1'')"
    by (simp_all add: split_address_def parse_listen_address_def rfind_char_def find_char_def from_chars_def Let_def
        is_digit_def decimal_def digit_value_def two32_def)
  then show ?thesis
    by (simp add: create_network_services_def server_create_def resp_server_create_def ex_network_def ex_addressed_def
        ex_config_def default_node_config_def)
qed

theorem restart_replays_committed_witness:
  "\<exists>h h' rt. open_storage True True True True (sconst Write_ok)
       (Some (b_dir (ex_log (sconst Write_ok) (log_bytes ex_wal_codec ex_records)))) = Inr (True, h)
     \<and> wal_recover ex_wal_codec ex_disk h = (Inr (recover_records ex_records), h')
     \<and> new_runtime ex_codec (ex_addressed 1) (sconst 0) 1 ex_network True
          (ex_written\<lparr>w_buffer := [], w_failed := False\<rparr>) = Inr rt
     \<and> rt_store rt = [(''a'', ''b'')] \<and> rt_store_applied rt = 1"
proof -
  have d: "w_disk ex_written = ex_records" by (simp add: ex_written_def)
  have c: "rec_commit (recover_records ex_records) = 1"
    by (simp add: ex_written_log(3) rec_commit_def empty_snapshot_def)
  have l: "log_store ex_codec 0 [] [ex_set] = Inr [(''a'', ''b'')]"
    using ex_apply_set by (simp add: log_store_def snapshot_store_def runnable_def ex_set_def default_entry_def ex_codec_def)
  show ?thesis
    using restart_replays_committed [OF ex_written_log(1) ex_disk_healthy, of "ex_addressed 1" ex_network _ True True True "sconst Write_ok"
        ex_codec "sconst 0" 1, unfolded d c, OF ex_written_log(2) _ ex_services] l
    by (auto simp: ex_addressed_def ex_config_def ex_written_log(3) empty_snapshot_def)
qed

end
