(* ===== verification/Node_Image.thy ===== *)
theory Node_Image
  imports Node_Start Raft_Props
begin

text \<open>
  The store as an image of the log. \<open>image_at K s n st\<close> says that \<open>st\<close> has the bindings the
  Raft core's snapshot and its log up to index \<open>n\<close> give. The theory shows how the events of the
  Raft core, the application of an entry, and the taking and installing of snapshots keep it.
\<close>

subsection \<open>What the Raft events leave alone\<close>

definition base :: "raft \<Rightarrow> nat \<times> bytes \<times> nat" where
  "base s = (r_log_offset s, r_last_snapshot_data s, r_last_applied s)"

lemma base_updates [simp]:
  "base (s\<lparr>r_log := l\<rparr>) = base s" "base (s\<lparr>r_wal := w\<rparr>) = base s" "base (s\<lparr>r_storage_failed := b\<rparr>) = base s"
  "base (s\<lparr>r_commit_index := c\<rparr>) = base s" "base (s\<lparr>r_msgs := ms\<rparr>) = base s"
  "base (s\<lparr>r_progress := p\<rparr>) = base s" "base (s\<lparr>r_term := t\<rparr>) = base s" "base (s\<lparr>r_voted_for := v\<rparr>) = base s"
  "base (s\<lparr>r_state := st\<rparr>) = base s" "base (s\<lparr>r_lead := ld\<rparr>) = base s" "base (s\<lparr>r_votes := vs\<rparr>) = base s"
  "base (s\<lparr>r_pre_votes := pv\<rparr>) = base s" "base (s\<lparr>r_pending_pre_vote_term := pt\<rparr>) = base s"
  "base (s\<lparr>r_election_elapsed := e\<rparr>) = base s" "base (s\<lparr>r_heartbeat_elapsed := h\<rparr>) = base s"
  "base (s\<lparr>r_randomized_election_timeout := rt\<rparr>) = base s" "base (s\<lparr>r_election_rng := rng\<rparr>) = base s"
  "base (s\<lparr>r_read_index_pending := rp\<rparr>) = base s" "base (s\<lparr>r_pending_read_index := ri\<rparr>) = base s"
  "base (s\<lparr>r_pending_read_context := rc\<rparr>) = base s" "base (s\<lparr>r_next_read_context := nc\<rparr>) = base s"
  "base (s\<lparr>r_read_index_acks := ra\<rparr>) = base s" "base (s\<lparr>r_snapshot_restore := cb\<rparr>) = base s"
  by (simp_all add: base_def)

lemma base_reset [simp]: "base (reset_randomized_election_timeout s) = base s"
  by (simp add: reset_randomized_election_timeout_def Let_def)

lemma base_persist [simp]: "base (snd (persist_hard_state s)) = base s"
  by (simp add: persist_hard_state_eq)

lemma base_follower [simp]: "base (become_follower t l s) = base s"
  by (simp add: become_follower_def Let_def reset_randomized_election_timeout_def)

lemma base_prepare [simp]: "base (snd (prepare_for_leader_rpc msg s)) = base s"
  by (simp add: prepare_for_leader_rpc_def Let_def reset_randomized_election_timeout_def)

lemma base_broadcast [simp]: "base (broadcast_heartbeat s) = base s"
  by (simp add: broadcast_heartbeat_eq)

lemma base_tick [simp]: "base (tick s) = base s"
  by (simp add: tick_def Let_def pre_campaign_def become_pre_candidate_def reset_randomized_election_timeout_def)

lemma base_request_vote [simp]: "base (snd (handle_request_vote msg s)) = base s"
  by (simp add: handle_request_vote_def Let_def io_forms split_beta)

lemma base_leader [simp]: "base (become_leader s) = base s"
  by (simp add: become_leader_def Let_def)

lemma base_candidate [simp]: "base (become_candidate s) = base s"
  by (simp add: become_candidate_def Let_def reset_randomized_election_timeout_def)

lemma base_campaign [simp]: "base (campaign s) = base s"
  by (simp add: campaign_def Let_def)

lemma base_vote_responses [simp]:
  "base (handle_request_vote_response msg s) = base s" "base (handle_pre_vote_response msg s) = base s"
  "base (snd (handle_pre_vote msg s)) = base s"
  by (simp_all add: handle_request_vote_response_def handle_pre_vote_response_def handle_pre_vote_def Let_def)

lemma base_loop [simp]: "base (snd (append_entries_loop i es s)) = base s"
  using append_entries_loop_frame [of i es s] by auto

lemma base_append_commit [simp]: "base (snd (append_entries_commit msg resp s)) = base s"
  by (simp add: append_entries_commit_def Let_def io_forms)

lemma base_append_entries [simp]: "base (snd (handle_append_entries msg s)) = base s"
proof -
  obtain b s1 where p: "prepare_for_leader_rpc msg s = (b, s1)" by fastforce
  obtain r s2 where l: "append_entries_loop (u64_inc (m_prev_log_index msg)) (m_entries msg) s1 = (r, s2)"
    by fastforce
  have "base s1 = base s" "base s2 = base s1" using base_prepare [of msg s] base_loop [of "u64_inc (m_prev_log_index msg)" "m_entries msg" s1] p l by simp_all
  moreover have "base x = base u" if "append_entries_commit msg resp u = (m, x)" for resp u m x
    using base_append_commit [of msg resp u] that by simp
  ultimately show ?thesis
    by (auto simp: handle_append_entries_def Let_def p l io_forms split: if_splits sum.splits option.splits bool.splits prod.splits)
qed

lemma base_append_response [simp]: "base (handle_append_entries_response msg s) = base s"
  by (simp add: handle_append_entries_response_eq Let_def record_success_def record_failure_def set_match_def send_def)

lemma base_install_response [simp]: "base (handle_install_snapshot_response msg s) = base s"
  by (simp add: handle_install_snapshot_response_def Let_def set_match_def)

lemma base_propose [simp]: "base (snd (propose data s)) = base s"
  by (simp add: propose_def Let_def io_forms split: sum.split bool.split)

lemma base_finish_read [simp]: "base (finish_read_index tok s) = base s"
  by (simp add: finish_read_index_def)

lemma base_read_index [simp]: "base (snd (read_index s)) = base s"
  by (rule read_index_state_cases) simp_all

lemma base_reply_outcome [simp]: "base (snd (reply_outcome x)) = base (snd x)"
  by (cases x) (simp add: reply_outcome_def returns_def send_def split: sum.split)

lemma base_reply [simp]: "base (snd (reply x)) = base (snd x)"
  by (simp add: reply_def returns_def send_def)

lemma base_set_callback [simp]: "base (set_snapshot_restore_callback f s) = base s"
  by (simp add: set_snapshot_restore_callback_def)

text \<open>The callback plays no part in the preparation of a leader's message.\<close>

abbreviation set_cb :: "(nat \<Rightarrow> bytes \<Rightarrow> bool) \<Rightarrow> raft \<Rightarrow> raft" where
  "set_cb \<equiv> set_snapshot_restore_callback"

lemma set_cb_fields [simp]:
  "r_term (set_cb f s) = r_term s" "r_storage_failed (set_cb f s) = r_storage_failed s"
  "r_state (set_cb f s) = r_state s" "r_last_applied (set_cb f s) = r_last_applied s"
  "r_commit_index (set_cb f s) = r_commit_index s" "r_log (set_cb f s) = r_log s"
  "r_snapshot_restore (set_cb f s) = Some f" "misaddressed msg (set_cb f s) = misaddressed msg s"
  "r_voted_for (set_cb f s) = r_voted_for s" "stale_snapshot msg (set_cb f s) = stale_snapshot msg s"
  by (simp_all add: set_snapshot_restore_callback_def misaddressed_def is_member_def stale_snapshot_def)

lemma set_cb_reset: "reset_randomized_election_timeout (set_cb f s) = set_cb f (reset_randomized_election_timeout s)"
  by (simp add: reset_randomized_election_timeout_def set_snapshot_restore_callback_def Let_def)

lemma set_cb_persist: "snd (persist_hard_state (set_cb f s)) = set_cb f (snd (persist_hard_state s))"
proof -
  have "r_wal (with_hard_state (set_cb f s)) = r_wal (with_hard_state s)"
    by (simp add: with_hard_state_def current_hard_state_def set_snapshot_restore_callback_def)
  from sync_ok_cong [OF this] have c: "sync_ok (with_hard_state (set_cb f s)) = sync_ok (with_hard_state s)"
    "synced_wal (with_hard_state (set_cb f s)) = synced_wal (with_hard_state s)" by blast+
  show ?thesis
    unfolding persist_hard_state_eq snd_conv c by (simp add: set_snapshot_restore_callback_def)
qed

lemma set_cb_follower: "become_follower t l (set_cb f s) = set_cb f (become_follower t l s)"
proof -
  let ?u = "\<lambda>s :: raft. s\<lparr>r_state := Follower, r_term := t, r_lead := l,
      r_voted_for := (if t > r_term s then 0 else r_voted_for s), r_read_index_pending := False,
      r_pending_read_index := 0, r_pending_read_context := 0, r_read_index_acks := [],
      r_pending_pre_vote_term := 0\<rparr>"
  have "?u (set_cb f s) = set_cb f (?u s)" by (simp add: set_snapshot_restore_callback_def)
  then have r: "reset_randomized_election_timeout (?u (set_cb f s)) =
      set_cb f (reset_randomized_election_timeout (?u s))" by (simp only: set_cb_reset)
  show ?thesis unfolding become_follower_def Let_def r set_cb_persist by simp
qed

lemma prepare_callback:
  "prepare_for_leader_rpc msg (set_cb f s) = map_prod id (set_cb f) (prepare_for_leader_rpc msg s)"
proof -
  have l: "(set_cb f u)\<lparr>r_lead := x\<rparr> = set_cb f (u\<lparr>r_lead := x\<rparr>)" for u x
    by (simp add: set_snapshot_restore_callback_def)
  have i: "(if c then set_cb f x else set_cb f y) = set_cb f (if c then x else y)" for c x y by simp
  show ?thesis
    unfolding prepare_for_leader_rpc_def Let_def set_cb_follower set_cb_fields i set_cb_reset l by simp
qed

text \<open>A message never moves the snapshot or the applied index, unless the callback accepted an
  InstallSnapshot; then, if the handler returns and storage is healthy, the node is at the
  snapshot.\<close>

lemma base_message_refused:
  "base (snd (handle_raft_message msg (set_snapshot_restore_callback (\<lambda>_ _. False) s))) = base s"
proof -
  let ?s = "set_snapshot_restore_callback (\<lambda>_ _. False) s"
  obtain b s1 where p: "prepare_for_leader_rpc msg ?s = (b, s1)" by fastforce
  have "base s1 = base s" using base_prepare [of msg ?s] p by simp
  moreover have "r_snapshot_restore s1 = Some (\<lambda>_ _. False)"
    using p unfolding prepare_callback by (cases "prepare_for_leader_rpc msg s") auto
  ultimately have "base (snd (handle_install_snapshot msg ?s)) = base s"
    by (simp add: handle_install_snapshot_def Let_def p split: bool.split)
  then show ?thesis by (simp add: handle_raft_message_def returns_def)
qed

lemma message_installs:
  assumes "calls_restore msg s"
    "handle_raft_message msg (set_snapshot_restore_callback (\<lambda>_ _. True) s) = (Inr (), s')"
    "\<not> r_storage_failed s'"
  shows "r_log s' = [] \<and> base s' = (m_snapshot_index msg, m_snapshot_data msg, m_snapshot_index msg)
     \<and> r_commit_index s' = m_snapshot_index msg"
proof -
  let ?s = "set_snapshot_restore_callback (\<lambda>_ _. True) s"
  obtain b s0 where p0: "prepare_for_leader_rpc msg s = (b, s0)" by fastforce
  define s1 where "s1 = set_snapshot_restore_callback (\<lambda>_ _. True) s0"
  have p: "prepare_for_leader_rpc msg ?s = (True, s1)" "r_snapshot_restore s1 = Some (\<lambda>_ _. True)"
    using p0 assms(1) by (auto simp: prepare_callback s1_def calls_restore_def)
  have c: "m_snapshot_index msg \<noteq> 0" "m_snapshot_term msg \<noteq> 0" "\<not> m_snapshot_term msg > m_term msg"
    "m_snapshot_data msg \<noteq> []" "\<not> stale_snapshot msg s1" "m_type msg = MsgInstallSnapshot"
    using assms(1) p0 by (auto simp: calls_restore_def s1_def)
  have "reply_outcome (handle_install_snapshot msg ?s) = (Inr (), s')"
    using assms(2) c(6) by (simp add: handle_raft_message_def msg_type_defs)
  then show ?thesis
    using assms(3) c p
    by (auto simp: handle_install_snapshot_def Let_def io_forms reply_outcome_def returns_def send_def base_def
        split: if_splits sum.splits bool.splits)
qed

subsection \<open>The image\<close>

definition image_at :: "kv_codec \<Rightarrow> raft \<Rightarrow> nat \<Rightarrow> store \<Rightarrow> bool" where
  "image_at K s n st \<longleftrightarrow> r_log_offset s \<le> n \<and> n \<le> r_commit_index s
     \<and> (\<exists>st'. log_store K (r_log_offset s) (r_last_snapshot_data s) (take (n - r_log_offset s) (r_log s)) = Inr st'
          \<and> map_of st' = map_of st)"

lemma node_log_wf: "node_wf s \<Longrightarrow> log_wf s"
  by (simp add: node_wf_def raft_wf_def)

lemma log_wf_bounds:
  assumes "log_wf s"
  shows "r_log_offset s \<le> r_last_applied s" "r_last_applied s \<le> r_commit_index s"
    "r_commit_index s \<le> r_log_offset s + length (r_log s)" "r_log_offset s + length (r_log s) + 1 < two64"
  using assms by (auto simp: log_wf_def log_end_def)

lemma kept_take:
  assumes "log_wf s" "log_wf s'" "kept s s'" "r_log_offset s' = r_log_offset s" "n \<le> r_commit_index s"
  shows "take (n - r_log_offset s) (r_log s') = take (n - r_log_offset s) (r_log s)"
proof (rule nth_equalityI)
  have c: "r_commit_index s \<le> r_commit_index s'" using assms(3) by (simp add: kept_def)
  then show l: "length (take (n - r_log_offset s) (r_log s')) = length (take (n - r_log_offset s) (r_log s))"
    using log_wf_bounds(3) [OF assms(1)] log_wf_bounds(3) [OF assms(2)] assms(4,5) by simp
  fix k assume "k < length (take (n - r_log_offset s) (r_log s'))"
  then have k: "k < n - r_log_offset s" by simp
  have "log_at s' (r_log_offset s + Suc k) = log_at s (r_log_offset s + Suc k)"
    using assms(3-5) k by (simp add: kept_def)
  with assms(4) k show "take (n - r_log_offset s) (r_log s') ! k = take (n - r_log_offset s) (r_log s) ! k"
    by (simp add: log_at_def)
qed

lemma image_kept:
  assumes "image_at K s n st" "log_wf s" "log_wf s'" "kept s s'" "base s' = base s"
  shows "image_at K s' n st"
proof -
  have b: "r_log_offset s' = r_log_offset s" "r_last_snapshot_data s' = r_last_snapshot_data s"
    using assms(5) by (simp_all add: base_def)
  have c: "r_commit_index s \<le> r_commit_index s'" using assms(4) by (simp add: kept_def)
  show ?thesis
    using assms(1) kept_take [OF assms(2-4) b(1), of n] c by (auto simp: image_at_def b)
qed

lemma log_store_snoc:
  "log_store K i state (es @ [e]) =
     (case log_store K i state es of
        Inl x \<Rightarrow> Inl x
      | Inr st \<Rightarrow> if runnable e then kv_step K e st else Inr st)"
  by (auto simp: log_store_def kv.replay_append kv_step_def split: sum.split prod.split)

lemma take_next_entry:
  assumes "log_wf s" "r_log_offset s \<le> n" "n < r_commit_index s"
  shows "take (Suc n - r_log_offset s) (r_log s) = take (n - r_log_offset s) (r_log s) @ [log_at s (Suc n)]"
proof -
  have "n - r_log_offset s < length (r_log s)" using log_wf_bounds(3) [OF assms(1)] assms(2,3) by simp
  moreover have "Suc n - r_log_offset s = Suc (n - r_log_offset s)" using assms(2) by simp
  ultimately show ?thesis by (simp add: take_Suc_conv_app_nth log_at_def)
qed

lemma image_next:
  assumes "image_at K s n st" "log_wf s" "n < r_commit_index s"
  shows "\<not> runnable (log_at s (Suc n)) \<Longrightarrow> image_at K s (Suc n) st"
    "runnable (log_at s (Suc n)) \<Longrightarrow> kv_apply K (log_at s (Suc n)) st = (Inr r, st') \<Longrightarrow> image_at K s (Suc n) st'"
proof -
  obtain st0 where st0: "log_store K (r_log_offset s) (r_last_snapshot_data s) (take (n - r_log_offset s) (r_log s)) = Inr st0"
    "map_of st0 = map_of st" and n: "r_log_offset s \<le> n"
    using assms(1) by (auto simp: image_at_def)
  note t = take_next_entry [OF assms(2) n assms(3)]
  show "image_at K s (Suc n) st" if "\<not> runnable (log_at s (Suc n))"
    using that n assms(3) st0 by (simp add: image_at_def t log_store_snoc)
  show "image_at K s (Suc n) st'"
    if "runnable (log_at s (Suc n))" "kv_apply K (log_at s (Suc n)) st = (Inr r, st')"
  proof -
    have "rel_sum (=) (\<lambda>a b. map_of a = map_of b) (kv_step K (log_at s (Suc n)) st0) (Inr st')"
      using kv_step_cong [OF st0(2), of K "log_at s (Suc n)"] that(2) by (simp add: kv_step_def)
    then obtain st1 where "kv_step K (log_at s (Suc n)) st0 = Inr st1" "map_of st1 = map_of st'"
      by (auto elim: rel_sum.cases)
    with that(1) n assms(3) st0 show ?thesis by (simp add: image_at_def t log_store_snoc)
  qed
qed

lemma take_snapshot_result:
  assumes "log_wf s" "take_snapshot i state s = (Inr (), s')" "\<not> r_storage_failed s'"
  shows "if r_log_offset s < i \<and> i \<le> r_last_applied s
     then r_log s' = drop (i - r_log_offset s) (r_log s) \<and> base s' = (i, state, r_last_applied s)
       \<and> r_commit_index s' = r_commit_index s
     else s' = s"
proof (cases "r_log_offset s < i \<and> i \<le> r_last_applied s")
  case False
  then show ?thesis using assms(2) by (auto simp: take_snapshot_def)
next
  case True
  have "compact_log i (r_log s) = drop (i - r_log_offset s) (r_log s)"
    using assms(1) True by (intro compact_log_eq) (auto simp: log_wf_alt log_end_def)
  then show ?thesis
    using assms(2,3) True
    by (auto simp: take_snapshot_def Let_def io_forms base_def split: if_splits sum.splits bool.splits)
qed

text \<open>A snapshot of the store at index \<open>i\<close> may replace the log up to \<open>i\<close>.\<close>

lemma image_compact:
  assumes "image_at K s i sti" "store_codec_ok K sti" "image_at K s n st" "i \<le> n" "log_wf s" "0 < i"
    "r_log s' = drop (i - r_log_offset s) (r_log s)" "base s' = (i, serialize K sti, a)"
    "r_commit_index s' = r_commit_index s"
  shows "image_at K s' n st"
proof -
  let ?o = "r_log_offset s" and ?log = "r_log s"
  let ?es = "take (i - ?o) ?log" and ?fs = "take (n - i) (drop (i - ?o) ?log)"
  obtain b where b: "snapshot_store K ?o (r_last_snapshot_data s) = Inr b"
    using assms(1) by (auto simp: image_at_def log_store_def split: sum.splits)
  obtain u v where u: "kv_replay K (filter runnable ?es) b = Inr u" "map_of u = map_of sti"
    and v: "kv_replay K (filter runnable (take (n - ?o) ?log)) b = Inr v" "map_of v = map_of st"
    using assms(1,3) b by (auto simp: image_at_def log_store_def)
  obtain t where t: "kc_unpack_store K (serialize K sti) = Inr t" "map_of t = map_of u"
    using assms(2) u(2) by (auto simp: store_codec_ok_def serialize_def split: sum.splits)
  have "?o \<le> i" using assms(1) by (simp add: image_at_def)
  then have "n - ?o = (i - ?o) + (n - i)" using assms(4) by simp
  then have "take (n - ?o) ?log = ?es @ ?fs" by (metis take_add)
  then have "rel_sum (=) (\<lambda>a b. map_of a = map_of b) (Inr v) (kv_replay K (filter runnable ?fs) t)"
    using kv.replay_from_snapshot [OF u(1) t(2), of "filter runnable ?fs"] v(1) by simp
  then obtain x where "kv_replay K (filter runnable ?fs) t = Inr x" "map_of x = map_of st"
    using v(2) by (auto elim: rel_sum.cases)
  moreover have "r_log_offset s' = i" "r_last_snapshot_data s' = serialize K sti"
    using assms(8) by (simp_all add: base_def)
  ultimately show ?thesis
    using assms(3,4,6,7,9) t(1) by (auto simp: image_at_def log_store_def snapshot_store_def)
qed

lemma image_installed:
  assumes "r_log s = []" "base s = (i, data, i)" "r_commit_index s = i" "0 < i" "kc_unpack_store K data = Inr st"
  shows "image_at K s i st"
proof -
  have "r_log_offset s = i" "r_last_snapshot_data s = data" using assms(2) by (simp_all add: base_def)
  with assms show ?thesis by (auto simp: image_at_def log_store_def snapshot_store_def)
qed

lemma image_started:
  assumes "wal_image R s" "r_commit_index s = rec_commit R" "r_last_applied s = rec_commit R"
    "log_store K (snap_index (rec_snapshot R)) (snap_state (rec_snapshot R))
       (take (rec_commit R - snap_index (rec_snapshot R)) (rec_entries R)) = Inr st"
  shows "image_at K s (r_last_applied s) st"
  using assms by (auto simp: wal_image_def image_at_def rec_commit_def)

end
