(* ===== verification/Snapshot_Anomaly.thy ===== *)
theory Snapshot_Anomaly
  imports Raft_Props
begin

text \<open>
  A run in which InstallSnapshot removes entries a follower has already acknowledged: the
  leader of term 1 replicates two entries; node 3 acknowledges the first, which commits it,
  and the leader takes a snapshot there; node 2 acknowledges both; the leader, which has not
  seen that answer yet, still has node 2's next index at 1 and sends it the snapshot; node 2
  replaces its whole log by the snapshot; the leader then receives the earlier answer and
  commits the second entry, which it alone holds. No message is lost, repeated or reordered.
\<close>

subsection \<open>The leader\<close>

definition an_leader ::
  "entry list \<Rightarrow> wal_record list \<Rightarrow> progress \<Rightarrow> progress \<Rightarrow> nat \<Rightarrow> nat \<Rightarrow> message list \<Rightarrow> raft" where
  "an_leader log d p2 p3 c a ms =
     ex_leader\<lparr>r_log := log, r_wal := Some (ex_file d), r_progress := [(2, p2), (3, p3)],
       r_commit_index := c, r_last_applied := a, r_msgs := ms\<rparr>"

abbreviation an_prog :: "nat \<Rightarrow> nat \<Rightarrow> progress" where
  "an_prog mtch nxt \<equiv> \<lparr>p_match = mtch, p_next = nxt\<rparr>"

definition an_append :: "nat \<Rightarrow> entry list \<Rightarrow> message" where
  "an_append p es = default_message\<lparr>m_type := MsgAppendEntries, m_from := 1, m_to := p,
     m_term := 1, m_entries := es\<rparr>"

definition an_one :: "wal_record list" where
  "an_one = ex_vote @ [RecEntry (ex_entry 1 1)]"

definition an_two :: "wal_record list" where
  "an_two = an_one @ [RecEntry (ex_entry 1 2)]"

definition an_com :: "wal_record list" where
  "an_com = an_two @ [RecHardState \<lparr>hs_term = 1, hs_vote = 1, hs_commit = 1\<rparr>]"

lemmas an_ev = an_leader_def ex_leader_def ex_candidate_def ex_node_def ex_io ex_entry_def
  broadcast_heartbeat_def heartbeat_peer_def umap_at_def umap_touch_def umap_put_def send_def
  make_append_entries_def make_install_snapshot_def last_log_index_def log_entry_def term_at_def
  returns_def drop_result_def an_append_def Let_def ex_defs

lemma an_propose_1:
  "raft_step (Propose [7]) ex_leader =
     (Inr (), an_leader [ex_entry 1 1] an_one (an_prog 0 1) (an_prog 0 1) 0 0
        [ex_heartbeat 2, ex_heartbeat 3, an_append 2 [ex_entry 1 1], an_append 3 [ex_entry 1 1]])"
  by (simp add: propose_def an_ev an_one_def ex_heartbeat_def)

lemma an_propose_2:
  "raft_step (Propose [7]) (an_leader [ex_entry 1 1] an_one (an_prog 0 1) (an_prog 0 1) 0 0 []) =
     (Inr (), an_leader [ex_entry 1 1, ex_entry 1 2] an_two (an_prog 0 1) (an_prog 0 1) 0 0
        [an_append 2 [ex_entry 1 1, ex_entry 1 2], an_append 3 [ex_entry 1 1, ex_entry 1 2]])"
  by (simp add: propose_def an_ev an_two_def)

definition an_ack :: "nat \<Rightarrow> nat \<Rightarrow> message" where
  "an_ack p i = default_message\<lparr>m_type := MsgAppendEntriesResponse, m_from := p, m_to := 1,
     m_term := 1, m_success := True, m_match_index := i\<rparr>"

lemma an_commit_1:
  "raft_step (Receive (an_ack 3 1))
     (an_leader [ex_entry 1 1, ex_entry 1 2] an_two (an_prog 0 1) (an_prog 0 1) 0 0 []) =
   (Inr (), an_leader [ex_entry 1 1, ex_entry 1 2] an_com (an_prog 0 1) (an_prog 1 2) 1 0 [])"
  by (simp add: handle_raft_message_def handle_append_entries_response_def misaddressed_def
      is_member_def an_ack_def set_match_def advance_commit_def replicas_def an_ev an_com_def)

lemma an_apply_1:
  "raft_step (Advance 1) (an_leader log d p2 p3 1 0 ms) = (Inr (), an_leader log d p2 p3 1 1 ms)"
  by (simp add: advance_def an_ev)

definition an_snapshot :: snapshot_meta where
  "an_snapshot = \<lparr>snap_index = 1, snap_term = 1, snap_state = [5], snap_discard_suffix = False\<rparr>"

definition an_compacted :: "progress \<Rightarrow> progress \<Rightarrow> nat \<Rightarrow> wal_record list \<Rightarrow> message list \<Rightarrow> raft" where
  "an_compacted p2 p3 c d ms =
     (an_leader [ex_entry 1 2] (an_com @ RecSnapshot an_snapshot # d) p2 p3 c 1 ms)
       \<lparr>r_log_offset := 1, r_log_offset_term := 1, r_last_snapshot_index := 1,
        r_last_snapshot_data := [5]\<rparr>"

lemma an_take_snapshot:
  "raft_step (Take_snapshot 1 [5])
     (an_leader [ex_entry 1 1, ex_entry 1 2] an_com (an_prog 0 1) (an_prog 1 2) 1 1 []) =
   (Inr (), an_compacted (an_prog 0 1) (an_prog 1 2) 1 [] [])"
  by (simp add: take_snapshot_def wal_save_snapshot_def save_snapshot_def snap_is_empty_def
      compact_log_def an_compacted_def an_snapshot_def an_ev)

definition an_install :: message where
  "an_install = default_message\<lparr>m_type := MsgInstallSnapshot, m_from := 1, m_to := 2, m_term := 1,
     m_snapshot_index := 1, m_snapshot_term := 1, m_snapshot_data := [5]\<rparr>"

definition an_append_2 :: message where
  "an_append_2 = (an_append 3 [ex_entry 1 2])\<lparr>m_prev_log_index := 1, m_prev_log_term := 1,
     m_leader_commit := 1\<rparr>"

lemma an_tick:
  "raft_step Tick (an_compacted (an_prog 0 1) (an_prog 1 2) 1 [] []) =
     (Inr (), an_compacted (an_prog 0 1) (an_prog 1 2) 1 [] [an_install, an_append_2])"
  by (simp add: tick_def an_compacted_def an_install_def an_append_2_def an_ev)

lemma an_commit_2:
  "raft_step (Receive (an_ack 2 2)) (an_compacted (an_prog 0 1) (an_prog 1 2) 1 [] []) =
     (Inr (), an_compacted (an_prog 2 3) (an_prog 1 2) 2
        [RecHardState \<lparr>hs_term = 1, hs_vote = 1, hs_commit = 2\<rparr>] [])"
  by (simp add: handle_raft_message_def handle_append_entries_response_def misaddressed_def
      is_member_def an_ack_def set_match_def advance_commit_def replicas_def an_compacted_def an_ev)


subsection \<open>The followers\<close>

definition an_node3 :: "message list \<Rightarrow> raft" where
  "an_node3 ms = (ex_node 3 0)\<lparr>r_term := 1, r_lead := 1, r_log := [ex_entry 1 1],
     r_wal := Some (ex_file [RecHardState \<lparr>hs_term = 1, hs_vote = 0, hs_commit = 0\<rparr>,
       RecEntry (ex_entry 1 1)]), r_msgs := ms\<rparr>"

lemmas an_fol = handle_raft_message_def reply_outcome_def handle_append_entries_def
  prepare_for_leader_rpc_def misaddressed_def is_member_def become_follower_def
  reset_randomized_election_timeout_def log_ok_def append_entries_commit_def an_ack_def an_ev

lemma an_receive_3:
  "raft_step (Receive (an_append 3 [ex_entry 1 1])) (ex_node 3 0) = (Inr (), an_node3 [an_ack 3 1])"
  by (simp add: an_fol an_node3_def)

definition an_voted :: "wal_record list" where
  "an_voted = [RecHardState \<lparr>hs_term = 1, hs_vote = 0, hs_commit = 0\<rparr>,
     RecHardState \<lparr>hs_term = 1, hs_vote = 1, hs_commit = 0\<rparr>, RecEntry (ex_entry 1 1),
     RecEntry (ex_entry 1 2)]"

definition an_node2 :: "message list \<Rightarrow> raft" where
  "an_node2 ms = (ex_node 2 0)\<lparr>r_term := 1, r_voted_for := 1, r_lead := 1,
     r_log := [ex_entry 1 1, ex_entry 1 2], r_wal := Some (ex_file an_voted), r_msgs := ms\<rparr>"

lemma an_receive_2:
  "raft_step (Receive (an_append 2 [ex_entry 1 1, ex_entry 1 2])) (ex_voter []) =
     (Inr (), an_node2 [an_ack 2 2])"
  by (simp add: an_fol an_node2_def an_voted_def ex_voter_def)

definition an_installed :: "message list \<Rightarrow> raft" where
  "an_installed ms = (an_node2 ms)\<lparr>r_log := [], r_log_offset := 1, r_log_offset_term := 1,
     r_last_snapshot_index := 1, r_last_snapshot_data := [5], r_last_applied := 1,
     r_commit_index := 1,
     r_wal := Some (ex_file (an_voted @
       [RecSnapshot (an_snapshot\<lparr>snap_discard_suffix := True\<rparr>),
        RecHardState \<lparr>hs_term = 1, hs_vote = 1, hs_commit = 1\<rparr>]))\<rparr>"

definition an_install_ack :: message where
  "an_install_ack = default_message\<lparr>m_type := MsgInstallSnapshotResponse, m_from := 2, m_to := 1,
     m_term := 1, m_success := True, m_match_index := 1\<rparr>"

lemma an_install_2:
  "raft_step (Receive an_install) (an_node2 []) = (Inr (), an_installed [an_install_ack])"
  by (simp add: an_fol an_node2_def an_voted_def an_install_def handle_install_snapshot_def
      stale_snapshot_def wal_save_snapshot_def save_snapshot_def snap_is_empty_def an_installed_def
      an_snapshot_def an_install_ack_def)

subsection \<open>The run\<close>

lemma an_states [simp]:
  "length l \<le> 2 \<Longrightarrow> in_range (an_leader l d p2 p3 c a ms)"
  "in_range (an_compacted p2 p3 c d ms)" "in_range (an_node2 ms)" "in_range (an_node3 ms)"
  "in_range ex_leader"
  "(an_leader l d p2 p3 c a ms)\<lparr>r_msgs := []\<rparr> = an_leader l d p2 p3 c a []"
  "(an_compacted p2 p3 c d ms)\<lparr>r_msgs := []\<rparr> = an_compacted p2 p3 c d []"
  "(an_node2 ms)\<lparr>r_msgs := []\<rparr> = an_node2 []" "(an_node3 ms)\<lparr>r_msgs := []\<rparr> = an_node3 []"
  "r_msgs (an_leader l d p2 p3 c a ms) = ms" "r_msgs (an_compacted p2 p3 c d ms) = ms"
  "r_msgs (an_node2 ms) = ms" "r_msgs (an_node3 ms) = ms"
  "\<not> r_storage_failed (an_leader l d p2 p3 c a ms)" "\<not> r_storage_failed (an_compacted p2 p3 c d ms)"
  "\<not> r_storage_failed (an_node2 ms)" "\<not> r_storage_failed (an_node3 ms)"
  by (simp_all add: in_range_def log_end_def an_leader_def an_compacted_def an_node2_def an_node3_def
      ex_leader_def ex_candidate_def ex_node_def two64_def)

lemma an_replicating:
  "\<exists>net. {an_append 3 [ex_entry 1 1], an_append 2 [ex_entry 1 1, ex_entry 1 2]} \<subseteq> net \<and>
     reachable (ex_cluster
       (an_leader [ex_entry 1 1, ex_entry 1 2] an_two (an_prog 0 1) (an_prog 0 1) 0 0 [])
       (ex_voter []) (ex_node 3 0) net)"
proof -
  define ms1 where "ms1 = [ex_heartbeat 2, ex_heartbeat 3, an_append 2 [ex_entry 1 1],
    an_append 3 [ex_entry 1 1]]"
  define ms2 where "ms2 = [an_append 2 [ex_entry 1 1, ex_entry 1 2],
    an_append 3 [ex_entry 1 1, ex_entry 1 2]]"
  have "reachable (ex_cluster (an_leader [ex_entry 1 1] an_one (an_prog 0 1) (an_prog 0 1) 0 0 ms1)
      (ex_voter []) (ex_node 3 0) ex_net)"
    by (rule ex_event(1) [OF ex_leader_reachable _ _ an_propose_1 [folded ms1_def]]) simp_all
  from ex_flush(1) [OF this]
  have "reachable (ex_cluster (an_leader [ex_entry 1 1] an_one (an_prog 0 1) (an_prog 0 1) 0 0 [])
      (ex_voter []) (ex_node 3 0) (ex_net \<union> set ms1))" by simp
  then have "reachable (ex_cluster
      (an_leader [ex_entry 1 1, ex_entry 1 2] an_two (an_prog 0 1) (an_prog 0 1) 0 0 ms2)
      (ex_voter []) (ex_node 3 0) (ex_net \<union> set ms1))"
    by (rule ex_event(1) [OF _ _ _ an_propose_2 [folded ms2_def]]) simp_all
  from ex_flush(1) [OF this]
  have "reachable (ex_cluster
      (an_leader [ex_entry 1 1, ex_entry 1 2] an_two (an_prog 0 1) (an_prog 0 1) 0 0 [])
      (ex_voter []) (ex_node 3 0) (ex_net \<union> set ms1 \<union> set ms2))" by simp
  moreover have "{an_append 3 [ex_entry 1 1], an_append 2 [ex_entry 1 1, ex_entry 1 2]}
      \<subseteq> ex_net \<union> set ms1 \<union> set ms2" by (simp add: ms1_def ms2_def)
  ultimately show ?thesis by blast
qed


lemma an_snapshotted:
  "\<exists>net. {an_append 2 [ex_entry 1 1, ex_entry 1 2]} \<subseteq> net \<and>
     reachable (ex_cluster (an_compacted (an_prog 0 1) (an_prog 1 2) 1 [] []) (ex_voter [])
       (an_node3 []) net)"
proof -
  obtain net where net: "an_append 3 [ex_entry 1 1] \<in> net"
    "an_append 2 [ex_entry 1 1, ex_entry 1 2] \<in> net"
    and r: "reachable (ex_cluster
       (an_leader [ex_entry 1 1, ex_entry 1 2] an_two (an_prog 0 1) (an_prog 0 1) 0 0 [])
       (ex_voter []) (ex_node 3 0) net)"
    using an_replicating by auto
  have "reachable (ex_cluster
       (an_leader [ex_entry 1 1, ex_entry 1 2] an_two (an_prog 0 1) (an_prog 0 1) 0 0 [])
       (ex_voter []) (an_node3 [an_ack 3 1]) net)"
    by (rule ex_event(3) [OF r _ _ an_receive_3]) (use net in simp_all)
  from ex_flush(3) [OF this]
  have "reachable (ex_cluster
       (an_leader [ex_entry 1 1, ex_entry 1 2] an_two (an_prog 0 1) (an_prog 0 1) 0 0 [])
       (ex_voter []) (an_node3 []) (net \<union> {an_ack 3 1}))" by simp
  then have "reachable (ex_cluster
       (an_leader [ex_entry 1 1, ex_entry 1 2] an_com (an_prog 0 1) (an_prog 1 2) 1 0 [])
       (ex_voter []) (an_node3 []) (net \<union> {an_ack 3 1}))"
    by (rule ex_event(1) [OF _ _ _ an_commit_1]) simp_all
  then have "reachable (ex_cluster
       (an_leader [ex_entry 1 1, ex_entry 1 2] an_com (an_prog 0 1) (an_prog 1 2) 1 1 [])
       (ex_voter []) (an_node3 []) (net \<union> {an_ack 3 1}))"
    by (rule ex_event(1) [OF _ _ _ an_apply_1]) simp_all
  then have "reachable (ex_cluster (an_compacted (an_prog 0 1) (an_prog 1 2) 1 [] [])
       (ex_voter []) (an_node3 []) (net \<union> {an_ack 3 1}))"
    by (rule ex_event(1) [OF _ _ _ an_take_snapshot]) simp_all
  with net show ?thesis by blast
qed

lemma an_final:
  "\<exists>net. reachable (ex_cluster
     (an_compacted (an_prog 2 3) (an_prog 1 2) 2
        [RecHardState \<lparr>hs_term = 1, hs_vote = 1, hs_commit = 2\<rparr>] [])
     (an_installed [an_install_ack]) (an_node3 []) net)"
proof -
  obtain net where net: "an_append 2 [ex_entry 1 1, ex_entry 1 2] \<in> net"
    and r: "reachable (ex_cluster (an_compacted (an_prog 0 1) (an_prog 1 2) 1 [] [])
       (ex_voter []) (an_node3 []) net)"
    using an_snapshotted by auto
  have "reachable (ex_cluster (an_compacted (an_prog 0 1) (an_prog 1 2) 1 [] [])
       (an_node2 [an_ack 2 2]) (an_node3 []) net)"
    by (rule ex_event(2) [OF r _ _ an_receive_2]) (use net in simp_all)
  from ex_flush(2) [OF this]
  have "reachable (ex_cluster (an_compacted (an_prog 0 1) (an_prog 1 2) 1 [] [])
       (an_node2 []) (an_node3 []) (net \<union> {an_ack 2 2}))" by simp
  then have "reachable (ex_cluster (an_compacted (an_prog 0 1) (an_prog 1 2) 1 [] [an_install, an_append_2])
       (an_node2 []) (an_node3 []) (net \<union> {an_ack 2 2}))"
    by (rule ex_event(1) [OF _ _ _ an_tick]) simp_all
  from ex_flush(1) [OF this]
  have "reachable (ex_cluster (an_compacted (an_prog 0 1) (an_prog 1 2) 1 [] [])
       (an_node2 []) (an_node3 []) (net \<union> {an_ack 2 2} \<union> {an_install, an_append_2}))" by simp
  then have "reachable (ex_cluster (an_compacted (an_prog 0 1) (an_prog 1 2) 1 [] [])
       (an_installed [an_install_ack]) (an_node3 []) (net \<union> {an_ack 2 2} \<union> {an_install, an_append_2}))"
    by (rule ex_event(2) [OF _ _ _ an_install_2]) simp_all
  then have "reachable (ex_cluster
     (an_compacted (an_prog 2 3) (an_prog 1 2) 2
        [RecHardState \<lparr>hs_term = 1, hs_vote = 1, hs_commit = 2\<rparr>] [])
       (an_installed [an_install_ack]) (an_node3 []) (net \<union> {an_ack 2 2} \<union> {an_install, an_append_2}))"
    by (rule ex_event(1) [OF _ _ _ an_commit_2]) simp_all
  then show ?thesis by blast
qed


end
