(* ===== verification/Node_Handoff.thy ===== *)
theory Node_Handoff
  imports Node_Image Snapshot_Anomaly
begin

text \<open>
  The node as a whole: every interleaving of its three loops with ticks, messages, clients and
  signals, and the invariant that ties the store to the Raft core. While the node is not
  stopping, at most one committed entry is on its way to the store or its acknowledgement is
  on its way back, and the store is the image of the log up to the index it has applied.
\<close>

subsection \<open>What is on its way\<close>

definition applies_of :: "store_task list \<Rightarrow> entry list" where
  "applies_of ts = concat (map (\<lambda>t. case t of Store_apply e \<Rightarrow> [e] | _ \<Rightarrow> []) ts)"

definition restores_of :: "store_task list \<Rightarrow> store_task list" where
  "restores_of ts = filter (\<lambda>t. case t of Store_restore _ _ \<Rightarrow> True | _ \<Rightarrow> False) ts"

definition acks_of :: "raft_task list \<Rightarrow> nat list" where
  "acks_of ts = concat (map (\<lambda>t. case t of Raft_applied i \<Rightarrow> [i] | _ \<Rightarrow> []) ts)"

definition snapshots_of :: "raft_task list \<Rightarrow> (nat \<times> bytes) list" where
  "snapshots_of ts = concat (map (\<lambda>t. case t of Raft_snapshot i state \<Rightarrow> [(i, state)] | _ \<Rightarrow> []) ts)"

definition messages_of :: "raft_task list \<Rightarrow> message list" where
  "messages_of ts = concat (map (\<lambda>t. case t of Raft_deliver m \<Rightarrow> [m] | _ \<Rightarrow> []) ts)"

lemma on_its_way [simp]:
  "applies_of [] = []" "restores_of [] = []" "acks_of [] = []" "snapshots_of [] = []" "messages_of [] = []"
  "applies_of (t # ts) = (case t of Store_apply e \<Rightarrow> [e] | _ \<Rightarrow> []) @ applies_of ts"
  "restores_of (t # ts) = (case t of Store_restore _ _ \<Rightarrow> [t] | _ \<Rightarrow> []) @ restores_of ts"
  "acks_of (u # us) = (case u of Raft_applied i \<Rightarrow> [i] | _ \<Rightarrow> []) @ acks_of us"
  "snapshots_of (u # us) = (case u of Raft_snapshot i state \<Rightarrow> [(i, state)] | _ \<Rightarrow> []) @ snapshots_of us"
  "messages_of (u # us) = (case u of Raft_deliver m \<Rightarrow> [m] | _ \<Rightarrow> []) @ messages_of us"
  "applies_of (ts @ ts') = applies_of ts @ applies_of ts'"
  "restores_of (ts @ ts') = restores_of ts @ restores_of ts'"
  "acks_of (us @ us') = acks_of us @ acks_of us'"
  "snapshots_of (us @ us') = snapshots_of us @ snapshots_of us'"
  "messages_of (us @ us') = messages_of us @ messages_of us'"
  by (simp_all add: applies_of_def restores_of_def acks_of_def snapshots_of_def messages_of_def
      split: store_task.split)

subsection \<open>The invariant\<close>

text \<open>The hand-off: nothing in flight, or one entry posted to the store, or its
  acknowledgement posted back.\<close>

definition handoff :: "raft \<Rightarrow> nat option \<Rightarrow> nat \<Rightarrow> entry list \<Rightarrow> nat list \<Rightarrow> bool" where
  "handoff s in_flight applied posted acks \<longleftrightarrow>
     (case in_flight of
        None \<Rightarrow> posted = [] \<and> acks = [] \<and> applied = r_last_applied s
      | Some i \<Rightarrow> i = r_last_applied s + 1 \<and> i \<le> r_commit_index s
          \<and> (posted = [log_at s i] \<and> acks = [] \<and> applied = r_last_applied s
             \<or> posted = [] \<and> acks = [i] \<and> applied = i))"

definition snapshots_ok :: "kv_codec \<Rightarrow> raft \<Rightarrow> (nat \<times> bytes) list \<Rightarrow> bool" where
  "snapshots_ok K s snaps \<longleftrightarrow>
     (\<forall>i state. (i, state) \<in> set snaps \<longrightarrow>
        (\<exists>st. state = serialize K st \<and> (i \<le> r_log_offset s \<or> image_at K s i st)))"

definition going :: "kv_codec \<Rightarrow> runtime \<Rightarrow> bool" where
  "going K rt \<longleftrightarrow>
     node_wf (rt_raft rt) \<and> \<not> r_storage_failed (rt_raft rt)
     \<and> handoff (rt_raft rt) (rt_apply_in_flight rt) (rt_store_applied rt)
          (applies_of (rt_store_queue rt)) (acks_of (rt_raft_queue rt))
     \<and> image_at K (rt_raft rt) (rt_store_applied rt) (rt_store rt)
     \<and> snapshots_ok K (rt_raft rt) (snapshots_of (rt_raft_queue rt))
     \<and> restores_of (rt_store_queue rt) = []
     \<and> list_all msg_wf (messages_of (rt_raft_queue rt))"

definition runtime_ok :: "kv_codec \<Rightarrow> runtime \<Rightarrow> bool" where
  "runtime_ok K rt \<longleftrightarrow> rt_stopping rt \<or> going K rt"

text \<open>Most handlers touch none of this, or stop the node.\<close>

definition view where
  "view rt = (rt_raft rt, rt_store rt, rt_store_applied rt, rt_apply_in_flight rt,
     applies_of (rt_store_queue rt), restores_of (rt_store_queue rt), acks_of (rt_raft_queue rt),
     snapshots_of (rt_raft_queue rt), messages_of (rt_raft_queue rt))"

definition steady :: "runtime \<Rightarrow> runtime \<Rightarrow> bool" where
  "steady rt rt' \<longleftrightarrow> (rt_stopping rt \<longrightarrow> rt_stopping rt') \<and> (rt_stopping rt' \<or> view rt' = view rt)"

lemma going_view: "view rt' = view rt \<Longrightarrow> going K rt' = going K rt"
  by (simp add: view_def going_def)

lemma steady_refl [simp]: "steady rt rt"
  by (simp add: steady_def)

lemma steady_trans [trans]: "steady a b \<Longrightarrow> steady b c \<Longrightarrow> steady a c"
  by (auto simp: steady_def)

lemma steady_ok: "steady rt rt' \<Longrightarrow> runtime_ok K rt \<Longrightarrow> runtime_ok K rt'"
  unfolding steady_def runtime_ok_def by (metis going_view)

lemma steady_fold: "(\<And>x rt. x \<in> set xs \<Longrightarrow> steady rt (f x rt)) \<Longrightarrow> steady rt (fold f xs rt)"
proof (induction xs arbitrary: rt)
  case (Cons x xs)
  have "steady rt (f x rt)" using Cons.prems by simp
  also have "steady (f x rt) (fold f xs (f x rt))" using Cons.IH Cons.prems by simp
  finally show ?case by simp
qed simp

lemma steady_failed [simp]: "steady rt (loop_failed rt')"
  by (simp add: steady_def loop_failed_def)

lemma steady_stop [simp]: "steady rt (request_stop reason rt')"
  by (simp add: steady_def request_stop_def post_raft_def Let_def)

lemma stop_requested_ok [simp]: "runtime_ok K (request_stop reason rt)"
  by (simp add: runtime_ok_def request_stop_def post_raft_def Let_def)

lemma loop_failed_ok [simp]: "runtime_ok K (loop_failed rt)"
  by (simp add: runtime_ok_def loop_failed_def)

lemmas steady_unfold = steady_def view_def call_reply_def post_raft_def post_store_def

lemma steady_guarded: "steady rt (snd x) \<Longrightarrow> steady rt (guarded x)"
  by (cases x) (simp add: guarded_def split: sum.split)

lemma steady_reply_error: "steady rt rt' \<Longrightarrow> steady rt (snd (reply_error h err rt'))"
  by (simp add: reply_error_def steady_unfold split: sum.split)

lemma steady_rejects: "steady rt (reject_write i err rt)" "steady rt (reject_read i err rt)"
  by (auto simp: reject_write_def reject_read_def split: option.split
      intro!: steady_guarded steady_reply_error, auto simp: steady_unfold)

lemma steady_complete_read: "steady rt (complete_read i rt)"
  by (simp add: complete_read_def steady_unfold split: option.split)

lemma steady_complete_write: "steady rt (snd (complete_write result rt))"
  by (simp add: complete_write_def Let_def steady_unfold split: option.split sum.split)

lemma steady_client: "steady rt (snd (handle_client_command K now arguments h rt))"
  using steady_reply_error [OF steady_refl]
  by (simp add: handle_client_command_def Let_def begin_read_def begin_write_def split_beta
      split: sum.split) (simp add: steady_unfold)

lemma steady_expire: "steady rt (expire_client_requests now rt)"
proof -
  have "steady r (post_raft (Raft_cancel_read i) (reject_read i err r))" for r i err
    using steady_rejects(2) [of r i err] by (auto simp: steady_unfold)
  then show ?thesis
    unfolding expire_client_requests_def Let_def
    by (intro steady_trans [OF steady_fold steady_fold] steady_rejects) 
qed

lemma steady_poll: "steady rt (on_request_poll cancelled now rt)"
  using steady_expire [of rt now] by (auto simp: on_request_poll_def steady_unfold)

subsection \<open>Raft events\<close>

lemma handoff_kept:
  assumes "handoff s f a ps cs" "log_wf s'" "kept s s'" "r_last_applied s' = r_last_applied s"
  shows "handoff s' f a ps cs"
proof -
  have "r_log_offset s' \<le> r_last_applied s" "r_commit_index s \<le> r_commit_index s'"
    using log_wf_bounds(1) [OF assms(2)] assms(3,4) by (simp_all add: kept_def)
  moreover have "log_at s' i = log_at s i" if "i = r_last_applied s + 1" "i \<le> r_commit_index s" for i
    using assms(3) that calculation by (simp add: kept_def)
  ultimately show ?thesis
    using assms(1,4) by (auto simp: handoff_def split: option.split option.split_asm)
qed

lemma going_raft:
  assumes g: "going K rt" and s': "node_wf s'" "kept (rt_raft rt) s'" "base s' = base (rt_raft rt)" "\<not> r_storage_failed s'"
  shows "going K (rt\<lparr>rt_raft := s'\<rparr>)"
proof -
  have lw: "log_wf (rt_raft rt)" using g by (simp add: going_def node_log_wf)
  note img = image_kept [OF _ lw node_log_wf [OF s'(1)] s'(2,3)]
  have b: "r_log_offset s' = r_log_offset (rt_raft rt)" "r_last_applied s' = r_last_applied (rt_raft rt)"
    using s'(3) by (simp_all add: base_def)
  then have "snapshots_ok K s' (snapshots_of (rt_raft_queue rt))"
    using g img by (simp add: going_def snapshots_ok_def) blast
  with g s' img handoff_kept [OF _ node_log_wf [OF s'(1)] s'(2) b(2)] show ?thesis by (simp add: going_def)
qed

lemma going_event:
  assumes "going K rt" "event_ok ev (rt_raft rt)" "raft_step ev (rt_raft rt) = (r, s')"
    "base s' = base (rt_raft rt)" "\<not> r_storage_failed s'"
  shows "going K (rt\<lparr>rt_raft := s'\<rparr>)"
proof -
  have "node_wf (rt_raft rt)" using assms(1) by (simp add: going_def)
  from raft_step_node_wf [OF this assms(2)] raft_step_forward [OF this assms(2)] assms
  show ?thesis by (auto simp: forward_def intro: going_raft)
qed

lemma going_frame:
  assumes "going K rt" "node_wf s'" "r_log s' = r_log (rt_raft rt)" "r_commit_index s' = r_commit_index (rt_raft rt)"
    "base s' = base (rt_raft rt)" "r_storage_failed s' = r_storage_failed (rt_raft rt)"
  shows "going K (rt\<lparr>rt_raft := s'\<rparr>)"
  using assms by (intro going_raft) (auto simp: kept_def base_def log_at_def going_def)

subsection \<open>After a Raft event\<close>

lemma going_dispatch: "going K rt \<Longrightarrow> going K (dispatch_next_committed_entry rt)"
proof -
  assume g: "going K rt"
  let ?s = "rt_raft rt"
  have lw: "log_wf ?s" using g by (simp add: going_def node_log_wf)
  note b = log_wf_bounds [OF lw]
  have e: "next_entry_to_apply ?s = (if r_last_applied ?s < r_commit_index ?s then Some (log_at ?s (r_last_applied ?s + 1)) else None)"
    "r_last_applied ?s < r_commit_index ?s \<Longrightarrow> entry_index (log_at ?s (r_last_applied ?s + 1)) = r_last_applied ?s + 1"
    using b lw by (auto simp: next_entry_to_apply_def log_entry_def log_at_def log_wf_def wrap_simps)
  show ?thesis
    using g e by (auto simp: dispatch_next_committed_entry_def post_store_def going_def handoff_def split: option.split)
qed

lemma going_posts:
  assumes "\<And>x r. going K r \<Longrightarrow> going K (f x r)"
  shows "going K rt \<Longrightarrow> going K (fold f xs rt)"
  using assms by (induction xs arbitrary: rt) auto

lemma going_post_store: "going K rt \<Longrightarrow> applies_of [t] = [] \<Longrightarrow> restores_of [t] = [] \<Longrightarrow> going K (post_store t rt)"
  by (simp add: going_def post_store_def)

lemma going_finish: "going K rt \<Longrightarrow> going K (rt\<lparr>rt_raft := finish_read_index tok (rt_raft rt)\<rparr>)"
proof -
  have "r_log (finish_read_index tok s) = r_log s" "r_commit_index (finish_read_index tok s) = r_commit_index s"
    "r_storage_failed (finish_read_index tok s) = r_storage_failed s" for s
    by (simp_all add: finish_read_index_def)
  then show "going K rt \<Longrightarrow> ?thesis" by (intro going_frame) (simp_all add: going_def finish_read_index_wf)
qed

lemma going_poll: "going K rt \<Longrightarrow> going K (poll_read_indexes rt)"
proof -
  assume g: "going K rt"
  have m: "going K (rt\<lparr>rt_read_indexes := m\<rparr>)" for m using g by (simp add: going_def)
  then have "going K (rt\<lparr>rt_read_indexes := m, rt_raft := finish_read_index tok (rt_raft rt)\<rparr>)" for m tok
    using going_finish [of K "rt\<lparr>rt_read_indexes := m\<rparr>" tok] by simp
  with g show ?thesis
    by (auto simp: poll_read_indexes_def Let_def split: option.split
        intro!: m going_posts going_post_store)
qed

lemma steady_send: "steady rt (send_messages M ms rt)"
proof (induction ms arbitrary: rt)
  case (Cons m ms)
  have "steady rt (send_messages M ms (rt\<lparr>rt_peers := ps\<rparr>))" for ps
    by (rule steady_trans [OF _ Cons.IH]) (simp add: steady_unfold)
  then show ?case using Cons.IH by (auto split: option.split sum.split bool.split prod.split)
qed simp

lemma steady_log: "steady rt (log_status_if_changed force rt)"
  by (simp add: log_status_if_changed_def Let_def steady_unfold)

lemma after_raft_ok:
  assumes "\<not> r_storage_failed (rt_raft rt) \<Longrightarrow> runtime_ok K rt"
  shows "runtime_ok K (after_raft_activity M rt)"
proof (cases "r_storage_failed (rt_raft rt)")
  case True
  then show ?thesis by (simp add: after_raft_activity_def)
next
  case False
  define rt1 where "rt1 = maybe_capture_snapshot (poll_read_indexes (dispatch_next_committed_entry rt))"
  have stop: "rt_stopping (fold (\<lambda>i. post_store (f i)) xs r) = rt_stopping r" for f r and xs :: "nat list"
    by (induction xs arbitrary: r) (simp_all add: post_store_def)
  have "runtime_ok K rt1"
  proof (cases "rt_stopping rt")
    case True
    then show ?thesis
      by (simp add: rt1_def runtime_ok_def maybe_capture_snapshot_def poll_read_indexes_def stop Let_def
          dispatch_next_committed_entry_def post_store_def split: option.split)
  next
    case s: False
    have "going K (poll_read_indexes (dispatch_next_committed_entry rt))"
      using assms False s by (simp add: runtime_ok_def going_poll going_dispatch)
    then show ?thesis
      by (auto simp: rt1_def runtime_ok_def maybe_capture_snapshot_def going_def post_store_def)
  qed
  moreover have "node_wf (s\<lparr>r_msgs := []\<rparr>)" if "node_wf s" for s
    using that by (simp add: node_wf_def out_wf_def wf_defs)
  ultimately have "runtime_ok K (rt1\<lparr>rt_raft := snd (read_messages (rt_raft rt1))\<rparr>)"
    using going_frame [of K rt1 "(rt_raft rt1)\<lparr>r_msgs := []\<rparr>"]
    by (auto simp: runtime_ok_def read_messages_def going_def [of K rt1])
  then show ?thesis
    using False steady_ok [OF steady_trans [OF steady_send steady_log]]
    by (simp add: after_raft_activity_def flush_raft_messages_def read_messages_def rt1_def)
qed

lemma after_going: "(\<not> r_storage_failed (rt_raft rt) \<Longrightarrow> going K rt) \<Longrightarrow> runtime_ok K (after_raft_activity M rt)"
  by (rule after_raft_ok) (simp add: runtime_ok_def)

subsection \<open>The handlers\<close>

lemma event_ok_in_range: "in_range s \<Longrightarrow> (\<And>m. ev = Receive m \<Longrightarrow> msg_wf m) \<Longrightarrow> event_ok ev s"
  by (auto simp: event_ok_def in_range_def split: event.split)

lemma tick_ok:
  assumes "runtime_ok K rt" "in_range (rt_raft rt)"
  shows "runtime_ok K (on_tick M cancelled rt)"
proof -
  have "runtime_ok K (rt\<lparr>rt_raft := tick (rt_raft rt)\<rparr>)"
    if "\<not> rt_stopping rt" "\<not> r_storage_failed (tick (rt_raft rt))"
    using going_event [OF _ event_ok_in_range [OF assms(2)], of K Tick] assms(1) that
    by (simp add: runtime_ok_def returns_def)
  then have "runtime_ok K (after_raft_activity M (rt\<lparr>rt_raft := tick (rt_raft rt)\<rparr>))" if "\<not> rt_stopping rt"
    using that by (intro after_raft_ok) simp
  moreover have "runtime_ok K (r\<lparr>rt_ticking := b\<rparr>) = runtime_ok K r" for r b
    by (simp add: runtime_ok_def going_def)
  ultimately show ?thesis using assms(1) by (simp add: on_tick_def)
qed

lemma propose_ok:
  assumes "runtime_ok K rt" "in_range (rt_raft rt)"
  shows "runtime_ok K (on_propose M i data rt)"
proof (cases "rt_stopping rt")
  case False
  obtain r s where p: "propose data (rt_raft rt) = (r, s)" by fastforce
  have "going K (rt\<lparr>rt_raft := s\<rparr>)" if "\<not> r_storage_failed s"
    using going_event [OF _ event_ok_in_range [OF assms(2)], of K "Propose data" "fst (drop_result (r, s))" s]
      assms(1) that base_propose [of data "rt_raft rt"] False p drop_result_state [of "(r, s)"]
    by (auto simp: runtime_ok_def prod_eq_iff)
  then show ?thesis
    using False p
    by (auto simp: on_propose_def split: sum.split intro!: after_going going_post_store)
      (simp_all add: post_store_def)
qed (use assms in \<open>simp add: on_propose_def\<close>)

lemma read_request_ok:
  assumes "runtime_ok K rt" "in_range (rt_raft rt)"
  shows "runtime_ok K (on_read_request M i rt)"
proof (cases "rt_stopping rt")
  case False
  obtain r s where p: "read_index (rt_raft rt) = (r, s)" by fastforce
  have "going K (rt\<lparr>rt_raft := s\<rparr>)" if "\<not> r_storage_failed s"
    using going_event [OF _ event_ok_in_range [OF assms(2)], of K "Read_index" "fst (drop_result (r, s))" s]
      assms(1) that base_read_index [of "rt_raft rt"] False p drop_result_state [of "(r, s)"]
    by (auto simp: runtime_ok_def prod_eq_iff)
  then show ?thesis
    using False p
    by (auto simp: on_read_request_def split: sum.split option.split intro!: after_going going_post_store)
      (simp_all add: post_store_def going_def)
qed (use assms in \<open>simp add: on_read_request_def\<close>)

text \<open>A task taken from the head of a queue.\<close>

lemma applied_ok:
  assumes "runtime_ok K (rt\<lparr>rt_raft_queue := Raft_applied i # ts\<rparr>)" "in_range (rt_raft rt)"
  shows "runtime_ok K (on_applied M i (rt\<lparr>rt_raft_queue := ts\<rparr>))"
proof (cases "rt_stopping rt")
  case False
  let ?s = "rt_raft rt"
  have g: "going K (rt\<lparr>rt_raft_queue := Raft_applied i # ts\<rparr>)"
    using assms(1) False by (simp add: runtime_ok_def)
  then have h: "rt_apply_in_flight rt = Some i" "i = r_last_applied ?s + 1" "i \<le> r_commit_index ?s"
    "applies_of (rt_store_queue rt) = []" "acks_of ts = []" "rt_store_applied rt = i" "node_wf ?s"
    by (auto simp: going_def handoff_def split: option.splits)
  have u: "u64_inc (r_last_applied ?s) = i"
    using h(2,3) log_wf_bounds [OF node_log_wf [OF h(7)]] by (simp add: wrap_simps)
  then have a: "advance i ?s = ?s\<lparr>r_last_applied := i\<rparr>" using h(3) by (simp add: advance_def)
  have wf: "node_wf (?s\<lparr>r_last_applied := i\<rparr>)"
    unfolding a [symmetric] using raft_step_node_wf [OF h(7) event_ok_in_range [OF assms(2)], of "Advance i"] by (simp add: returns_def)
  have "image_at K (?s\<lparr>r_last_applied := i\<rparr>) n st = image_at K ?s n st" for n st by (simp add: image_at_def)
  then have "going K (rt\<lparr>rt_raft_queue := ts, rt_raft := advance i ?s, rt_apply_in_flight := None\<rparr>)"
    using g h(4-6) unfolding a going_def handoff_def snapshots_ok_def by (simp add: wf)
  then show ?thesis
    using False h u a by (auto simp: on_applied_def Let_def intro!: after_going)
qed (simp add: on_applied_def runtime_ok_def)

lemma capture_ok:
  assumes "runtime_ok K rt"
  shows "runtime_ok K (capture_snapshot K rt)"
  using assms by (auto simp: capture_snapshot_def runtime_ok_def going_def post_raft_def snapshots_ok_def)

lemma cancel_read_ok: "runtime_ok K rt \<Longrightarrow> runtime_ok K (cancel_raft_read i rt)"
proof -
  assume ok: "runtime_ok K rt"
  have m: "runtime_ok K (rt\<lparr>rt_read_indexes := m\<rparr>)" for m using ok by (simp add: runtime_ok_def going_def)
  then have "runtime_ok K (rt\<lparr>rt_read_indexes := m, rt_raft := finish_read_index tok (rt_raft rt)\<rparr>)" for m tok
    using going_finish [of K "rt\<lparr>rt_read_indexes := m\<rparr>" tok] by (auto simp: runtime_ok_def)
  with m ok show ?thesis by (simp add: cancel_raft_read_def Let_def split: option.split)
qed

lemma apply_ok:
  assumes "runtime_ok K (rt\<lparr>rt_store_queue := Store_apply e # ts\<rparr>)"
  shows "runtime_ok K (apply_committed_entry K e (rt\<lparr>rt_store_queue := ts\<rparr>))"
proof (cases "rt_stopping rt")
  case False
  let ?s = "rt_raft rt" and ?n = "rt_store_applied rt" and ?r = "rt\<lparr>rt_store_queue := ts\<rparr>"
  have g: "going K (rt\<lparr>rt_store_queue := Store_apply e # ts\<rparr>)"
    using assms False by (simp add: runtime_ok_def)
  then have lw: "log_wf ?s" and n: "?n = r_last_applied ?s" "?n < r_commit_index ?s" "e = log_at ?s (Suc ?n)"
    and f: "rt_apply_in_flight rt = Some (Suc ?n)" "applies_of ts = []" "acks_of (rt_raft_queue rt) = []"
    and img: "image_at K ?s ?n (rt_store rt)"
    by (auto simp: going_def handoff_def node_log_wf split: option.splits)
  have i: "entry_index e = Suc ?n" "u64_inc ?n = Suc ?n"
    using n log_wf_bounds [OF lw] lw by (auto simp: log_at_def log_wf_def wrap_simps)
  have fin: "runtime_ok K (acknowledge_applied (Suc ?n) (r\<lparr>rt_store_applied := Suc ?n\<rparr>))"
    if "steady (?r\<lparr>rt_store := st\<rparr>) r" "image_at K ?s (Suc ?n) st" for st r
    using that g f n
    by (auto simp: steady_def view_def runtime_ok_def going_def handoff_def acknowledge_applied_def post_raft_def)
  note next_image = image_next [OF img lw n(2)]
  show ?thesis
  proof (cases "runnable e")
    case True
    obtain x st where x: "kv_apply K e (rt_store rt) = (x, st)" by fastforce
    have "runtime_ok K (acknowledge_applied (Suc ?n) (r\<lparr>rt_store_applied := Suc ?n\<rparr>))"
      if "x = Inr res" "steady (?r\<lparr>rt_store := st\<rparr>) r" for res r
      using fin [OF that(2)] next_image(2) True x that(1) n(3) by simp
    moreover have "steady (?r\<lparr>rt_store := st\<rparr>) u"
      if "complete_write res (?r\<lparr>rt_store := st\<rparr>) = (b, u)" for res b u
      using steady_complete_write [of "?r\<lparr>rt_store := st\<rparr>" res] that by simp
    ultimately show ?thesis
      using True False x i by (auto simp: apply_committed_entry_def runnable_def split: sum.split prod.split)
  next
    case nr: False
    then show ?thesis
      using False i fin [of "rt_store rt" ?r] next_image(1) n(3)
      by (auto simp: apply_committed_entry_def runnable_def)
  qed
qed (simp add: apply_committed_entry_def runtime_ok_def)

lemma snapshot_ok:
  assumes codec: "\<And>st. store_codec_ok K st"
    and ok: "runtime_ok K (rt\<lparr>rt_raft_queue := Raft_snapshot i state # ts\<rparr>)" and range: "in_range (rt_raft rt)"
  shows "runtime_ok K (on_snapshot M i state (rt\<lparr>rt_raft_queue := ts\<rparr>))"
proof (cases "rt_stopping rt")
  case False
  let ?s = "rt_raft rt"
  have g: "going K (rt\<lparr>rt_raft_queue := Raft_snapshot i state # ts\<rparr>)"
    using ok False by (simp add: runtime_ok_def)
  then have g': "going K (rt\<lparr>rt_raft_queue := ts, rt_snapshot_pending := False\<rparr>)"
    and wf: "node_wf ?s" and img: "image_at K ?s (rt_store_applied rt) (rt_store rt)"
    by (auto simp: going_def snapshots_ok_def)
  obtain sti where sti: "state = serialize K sti" "i \<le> r_log_offset ?s \<or> image_at K ?s i sti"
    using g by (auto simp: going_def snapshots_ok_def)
  have applied: "r_last_applied ?s \<le> rt_store_applied rt"
    using g by (auto simp: going_def handoff_def split: option.splits)
  obtain r s where t: "take_snapshot i state ?s = (r, s)" by fastforce
  have ev: "event_ok (Take_snapshot i state) ?s" by (rule event_ok_in_range [OF range]) simp
  have "going K (rt\<lparr>rt_raft_queue := ts, rt_snapshot_pending := False, rt_raft := s\<rparr>)"
    if "r = Inr ()" "\<not> r_storage_failed s"
  proof (cases "r_log_offset ?s < i \<and> i \<le> r_last_applied ?s")
    case False
    then have "s = ?s" using take_snapshot_result [OF node_log_wf [OF wf]] t that by (auto split: if_splits)
    then show ?thesis using g' by simp
  next
    case True
    then have c: "r_log s = drop (i - r_log_offset ?s) (r_log ?s)" "base s = (i, state, r_last_applied ?s)"
      "r_commit_index s = r_commit_index ?s"
      using take_snapshot_result [OF node_log_wf [OF wf]] t that by (auto split: if_splits)
    note img_s = image_compact [OF _ codec _ _ node_log_wf [OF wf] _ c(1) c(2) [unfolded sti(1)] c(3)]
    have s: "node_wf s" "kept ?s s"
      using raft_step_node_wf [OF wf ev] raft_step_forward [OF wf ev] t by (simp_all add: forward_def)
    have b: "r_log_offset s = i" "r_last_applied s = r_last_applied ?s" using c(2) by (simp_all add: base_def)
    have "image_at K ?s i sti" "0 < i" using sti(2) True by auto
    note img_s = img_s [OF this(1) _ _ this(2)]
    have "image_at K s n st" if "image_at K ?s n st" "i \<le> n" for n st by (rule img_s [OF that])
    moreover have "\<exists>st'. x = serialize K st' \<and> (n \<le> i \<or> image_at K s n st')"
      if "(n, x) \<in> set (snapshots_of ts)" for n x
      using that g' True calculation by (simp add: going_def snapshots_ok_def) (meson le_cases le_trans less_imp_le)
    ultimately show ?thesis
      using g' handoff_kept [OF _ node_log_wf [OF s(1)] s(2) b(2)] s(1) applied that(2) True
      by (simp add: going_def snapshots_ok_def b(1))
  qed
  then show ?thesis
    using False t by (auto simp: on_snapshot_def Let_def split: sum.split intro!: after_going)
qed (simp add: on_snapshot_def runtime_ok_def)

subsection \<open>Messages\<close>

lemma guarded_frame [simp]:
  "rt_raft (guarded x) = rt_raft (snd x)" "rt_apply_in_flight (guarded x) = rt_apply_in_flight (snd x)"
  "rt_stopping (snd x) \<Longrightarrow> rt_stopping (guarded x)"
  by (auto simp: guarded_def loop_failed_def split: prod.split sum.split)

lemma reply_error_frame [simp]:
  "rt_raft (snd (reply_error h err rt)) = rt_raft rt"
  "rt_apply_in_flight (snd (reply_error h err rt)) = rt_apply_in_flight rt"
  "rt_stopping (snd (reply_error h err rt)) = rt_stopping rt"
  by (simp_all add: reply_error_def call_reply_def split: sum.split)

lemma stop_store_frame:
  "rt_raft (stop_store rt) = rt_raft rt" "rt_apply_in_flight (stop_store rt) = rt_apply_in_flight rt"
  by (simp_all add: stop_store_eq)

lemma steady_stop_store: "steady rt (stop_store rt)"
  by (simp add: stop_store_eq steady_unfold)

lemma store_task_frame:
  "applies_of [t] = [] \<Longrightarrow> restores_of [t] = [] \<Longrightarrow>
     rt_raft (run_store_task K t rt) = rt_raft rt \<and> rt_apply_in_flight (run_store_task K t rt) = rt_apply_in_flight rt"
  by (cases t) (simp_all add: reject_write_def reject_read_def complete_read_def capture_snapshot_def
      stop_store_frame call_reply_def post_raft_def split: option.split)

lemma store_task_ok:
  assumes "runtime_ok K rt" "applies_of [t] = []" "restores_of [t] = []"
  shows "runtime_ok K (run_store_task K t rt)"
  using assms steady_ok [OF steady_rejects(1)] steady_ok [OF steady_rejects(2)] steady_ok [OF steady_complete_read]
    steady_ok [OF steady_stop_store]
  by (cases t) (simp_all add: capture_ok)

lemma drain_ok:
  assumes "runtime_ok K rt" "applies_of ts = []" "restores_of ts = []"
  shows "runtime_ok K (fold (run_store_task K) ts rt) \<and> rt_raft (fold (run_store_task K) ts rt) = rt_raft rt
     \<and> rt_apply_in_flight (fold (run_store_task K) ts rt) = rt_apply_in_flight rt"
  using assms
proof (induction ts arbitrary: rt)
  case (Cons t ts)
  have t: "applies_of [t] = []" "restores_of [t] = []" using Cons.prems(2,3) by simp_all
  show ?case using Cons.IH [OF store_task_ok [OF Cons.prems(1) t]] Cons.prems store_task_frame [OF t] by simp
qed simp

lemma node_wf_cb [simp]: "node_wf (set_cb f s) = node_wf s"
  by (simp add: set_snapshot_restore_callback_def node_wf_def out_wf_def wf_defs)

lemma going_cb: "going K rt \<Longrightarrow> going K (rt\<lparr>rt_raft := set_cb f (rt_raft rt)\<rparr>)"
  by (rule going_frame) (simp_all add: going_def)

lemma going_refused:
  assumes g: "going K rt" and msg: "msg_wf msg" "in_range (rt_raft rt)"
    and h: "handle_raft_message msg (set_cb (\<lambda>_ _. False) (rt_raft rt)) = (r, s')" "\<not> r_storage_failed s'"
  shows "going K (rt\<lparr>rt_raft := s'\<rparr>)"
proof -
  let ?s = "set_cb (\<lambda>_ _. False) (rt_raft rt)"
  have "in_range ?s" using msg(2) by (simp add: in_range_def log_end_def set_snapshot_restore_callback_def)
  then have "event_ok (Receive msg) ?s" using msg(1) by (intro event_ok_in_range) auto
  then show ?thesis
    using going_event [OF going_cb [OF g], of "Receive msg" "\<lambda>_ _. False" r s'] h
      base_message_refused [of msg "rt_raft rt"] by simp
qed

lemma going_installed:
  assumes g: "going K rt" "rt_apply_in_flight rt = None" and msg: "msg_wf msg" "in_range (rt_raft rt)"
    and c: "calls_restore msg (rt_raft rt)" "kc_unpack_store K (m_snapshot_data msg) = Inr st"
    and h: "handle_raft_message msg (set_cb (\<lambda>_ _. True) (rt_raft rt)) = (Inr (), s')" "\<not> r_storage_failed s'"
  shows "going K (rt\<lparr>rt_store := st, rt_store_applied := m_snapshot_index msg, rt_raft := s'\<rparr>)"
proof -
  let ?s = "set_cb (\<lambda>_ _. True) (rt_raft rt)" and ?i = "m_snapshot_index msg"
  have "in_range ?s" using msg(2) by (simp add: in_range_def log_end_def set_snapshot_restore_callback_def)
  then have ev: "event_ok (Receive msg) ?s" using msg(1) by (intro event_ok_in_range) auto
  have wf: "node_wf ?s" using g(1) by (simp add: going_def)
  have s': "node_wf s'" "kept ?s s'"
    using raft_step_node_wf [OF wf ev] raft_step_forward [OF wf ev] h(1) by (simp_all add: forward_def)
  note i = message_installs [OF c(1) h]
  have off: "r_log_offset s' = ?i" "r_last_applied s' = ?i" using i by (simp_all add: base_def)
  have "0 < ?i" using c(1) by (auto simp: calls_restore_def split: prod.splits)
  then have img: "image_at K s' ?i st" using i c(2) by (intro image_installed) auto
  have "r_commit_index (rt_raft rt) \<le> ?i" using s'(2) i by (simp add: kept_def)
  moreover have "r_log_offset (rt_raft rt) \<le> r_commit_index (rt_raft rt)"
    using g(1) log_wf_bounds [OF node_log_wf] by (fastforce simp: going_def)
  ultimately have "snapshots_ok K s' (snapshots_of (rt_raft_queue rt))"
    using g(1) unfolding going_def snapshots_ok_def off(1) by (meson image_at_def le_trans)
  then show ?thesis using g s'(1) img off h(2) by (simp add: going_def handoff_def)
qed

text \<open>The store loop has run what was posted before the restoration.\<close>

lemma drained_ok:
  assumes "going K rt" "rt_apply_in_flight rt = None"
  defines "drained \<equiv> fold (run_store_task K) (rt_store_queue rt) (rt\<lparr>rt_store_queue := []\<rparr>)"
  shows "runtime_ok K drained" "rt_raft drained = rt_raft rt" "rt_apply_in_flight drained = None"
proof -
  have q: "applies_of (rt_store_queue rt) = []" "restores_of (rt_store_queue rt) = []"
    using assms(1,2) by (simp_all add: going_def handoff_def)
  have "going K (rt\<lparr>rt_store_queue := []\<rparr>)" using assms(1) q by (simp add: going_def)
  then show "runtime_ok K drained" "rt_raft drained = rt_raft rt" "rt_apply_in_flight drained = None"
    using drain_ok [OF _ q, of K "rt\<lparr>rt_store_queue := []\<rparr>"] assms(2) by (simp_all add: drained_def runtime_ok_def)
qed

lemma restored_ok:
  assumes g: "going K rt" and msg: "msg_wf msg" "in_range (rt_raft rt)" "calls_restore msg (rt_raft rt)"
    and r: "restore_snapshot K timed_out (m_snapshot_index msg) (m_snapshot_data msg) rt = (True, rt1)"
    and h: "handle_raft_message msg (set_cb (\<lambda>_ _. True) (rt_raft rt1)) = (Inr (), s')" "\<not> r_storage_failed s'"
  shows "runtime_ok K (rt1\<lparr>rt_raft := s'\<rparr>)"
proof -
  define drained where "drained = fold (run_store_task K) (rt_store_queue rt) (rt\<lparr>rt_store_queue := []\<rparr>)"
  have r': "rt_apply_in_flight rt = None"
    "restore_now K (m_snapshot_index msg) (m_snapshot_data msg) drained = (True, rt1)"
    using r by (auto simp: restore_snapshot_def drained_def split: if_splits)
  note d = drained_ok [OF g r'(1), folded drained_def]
  obtain st where st: "kc_unpack_store K (m_snapshot_data msg) = Inr st"
    "rt1 = drained\<lparr>rt_store := st, rt_store_applied := m_snapshot_index msg\<rparr>"
    using r'(2) by (auto simp: restore_now_def deserialize_def split: sum.splits)
  show ?thesis
  proof (cases "rt_stopping drained")
    case False
    then have "going K drained" using d(1) by (simp add: runtime_ok_def)
    from going_installed [OF this d(3) msg(1) _ _ st(1)] show ?thesis
      using st(2) d(2) msg(2,3) h by (simp add: runtime_ok_def)
  qed (simp add: st(2) runtime_ok_def)
qed

lemma deliver_ok:
  assumes g: "going K rt" and msg: "msg_wf msg" "in_range (rt_raft rt)"
    and del: "deliver K timed_out msg rt = (Inr (), rt2)" and sf: "\<not> r_storage_failed (rt_raft rt2)"
  shows "runtime_ok K rt2"
proof -
  let ?x = "if calls_restore msg (rt_raft rt)
    then restore_snapshot K timed_out (m_snapshot_index msg) (m_snapshot_data msg) rt else (False, rt)"
  obtain restored rt1 s' where x: "rt2 = rt1\<lparr>rt_raft := s'\<rparr>" "?x = (restored, rt1)"
    "handle_raft_message msg (set_cb (\<lambda>_ _. restored) (rt_raft rt1)) = (Inr (), s')"
    using del by (auto simp: deliver_def split: prod.splits)
  then have sf': "\<not> r_storage_failed s'" using sf by simp
  show ?thesis
  proof (cases restored)
    case True
    with x restored_ok [OF g msg _ _ _ sf'] show ?thesis by (auto split: if_splits)
  next
    case False
    then have "rt_stopping rt1 \<or> going K rt1 \<and> rt_raft rt1 = rt_raft rt"
      using x(2) g drained_ok [OF g]
      by (auto simp: restore_snapshot_def restore_now_def deserialize_def request_stop_def Let_def post_raft_def
          runtime_ok_def split: if_splits sum.splits)
    then show ?thesis
      using going_refused [OF _ msg(1)] msg(2) x(1,3) False sf' by (auto simp: runtime_ok_def)
  qed
qed

lemma message_ok:
  assumes "runtime_ok K rt" "msg_wf msg" "in_range (rt_raft rt)"
  shows "runtime_ok K (on_message K M timed_out msg rt)"
proof (cases "rt_stopping rt")
  case False
  then have "runtime_ok K rt2"
    if "deliver K timed_out msg rt = (Inr (), rt2)" "\<not> r_storage_failed (rt_raft rt2)" for rt2
    using deliver_ok [OF _ assms(2,3) that] assms(1) by (simp add: runtime_ok_def)
  then show ?thesis
    using False assms(1) by (auto simp: on_message_def split: prod.split sum.split intro!: after_raft_ok)
qed (simp add: on_message_def runtime_ok_def)

subsection \<open>Runs of the node\<close>

text \<open>
  The steps of a running node: the head of either queue, the two timers, a message read by the
  peer loop, a command of a client with the handle of its reply, the stop of the peers, and a
  signal. The session closes when the command handler throws. The list holds the handles of
  the commands the node has taken. Messages are of the form the nodes send.
\<close>

inductive node_run :: "kv_codec \<Rightarrow> message_codec \<Rightarrow> reply_handle list \<Rightarrow> runtime \<Rightarrow> bool" for K M where
  start: "new_runtime K nc rng request_id N had_wal w = Inr rt \<Longrightarrow> legal (w_disk w) \<Longrightarrow>
    0 < request_id \<Longrightarrow> request_id < two64 \<Longrightarrow> node_run K M [] (start_services rt)"
| raft: "node_run K M hs rt \<Longrightarrow> \<not> rt_halted rt \<Longrightarrow> rt_raft_queue rt = t # ts \<Longrightarrow> in_range (rt_raft rt) \<Longrightarrow>
    node_run K M hs (run_raft_task K M timed_out t (rt\<lparr>rt_raft_queue := ts\<rparr>))"
| store: "node_run K M hs rt \<Longrightarrow> \<not> rt_halted rt \<Longrightarrow> rt_store_queue rt = u # us \<Longrightarrow>
    node_run K M hs (run_store_task K u (rt\<lparr>rt_store_queue := us\<rparr>))"
| tick: "node_run K M hs rt \<Longrightarrow> \<not> rt_halted rt \<Longrightarrow> rt_ticking rt \<Longrightarrow> in_range (rt_raft rt) \<Longrightarrow>
    node_run K M hs (on_tick M cancelled rt)"
| poll: "node_run K M hs rt \<Longrightarrow> \<not> rt_halted rt \<Longrightarrow> rt_polling rt \<Longrightarrow>
    node_run K M hs (on_request_poll cancelled now rt)"
| peer: "node_run K M hs rt \<Longrightarrow> \<not> rt_halted rt \<Longrightarrow> msg_wf m \<Longrightarrow> node_run K M hs (on_peer_message m rt)"
| client: "node_run K M hs rt \<Longrightarrow> \<not> rt_halted rt \<Longrightarrow>
    handle_client_command K now arguments h rt = (Inr (), rt') \<Longrightarrow> node_run K M (hs @ [h]) rt'"
| closed: "node_run K M hs rt \<Longrightarrow> \<not> rt_halted rt \<Longrightarrow>
    handle_client_command K now arguments h rt = (Inl x, rt') \<Longrightarrow> node_run K M hs rt'"
| peers_stop: "node_run K M hs rt \<Longrightarrow> \<not> rt_halted rt \<Longrightarrow> rt_peer_stop rt \<Longrightarrow> node_run K M hs (stop_peers rt)"
| signalled: "node_run K M hs rt \<Longrightarrow> \<not> rt_halted rt \<Longrightarrow> node_run K M hs (request_stop [] rt)"

lemma image_cb [simp]: "image_at K (set_cb f s) n st = image_at K s n st"
  by (simp add: image_at_def set_snapshot_restore_callback_def)

lemma started_ok:
  assumes "new_runtime K nc rng request_id N had_wal w = Inr rt" "legal (w_disk w)"
  shows "going K (start_services rt)"
proof -
  obtain s where s: "raft_new (raft_config_for nc) rng = Inr s"
    using assms(1) by (auto simp: new_runtime_def split: sum.splits)
  obtain s' st a where r: "recover_storage K had_wal w s = Inr (s', st, a)" "rt_raft rt = set_cb (\<lambda>_ _. False) s'"
    "rt_store rt = st" "rt_store_applied rt = a" "rt_apply_in_flight rt = None" "rt_raft_queue rt = []" "rt_store_queue rt = []"
    using assms(1) s by (auto simp: new_runtime_def split: sum.splits prod.splits)
  have wf: "node_wf s" by (rule raft_new_node_wf [OF s])
  have "node_wf s' \<and> \<not> r_storage_failed s' \<and> r_last_applied s' = a \<and> image_at K s' a st"
  proof (cases had_wal)
    case True
    then show ?thesis
      using recover_storage_legal [OF assms(2) wf, of K] r(1) image_started [of "recover_records (w_disk w)" s' K st]
      by (auto split: sum.splits)
  next
    case False
    have "r_log s = []" "r_log_offset s = 0" "r_commit_index s = 0" "r_last_applied s = 0" "\<not> r_storage_failed s"
      using s by (auto simp: raft_new_def Let_def reset_randomized_election_timeout_def split: if_splits)
    moreover have "node_wf (set_wal w s)" using wf by (simp add: set_wal_def node_wf_def out_wf_def wf_defs)
    ultimately show ?thesis
      using False r(1) by (auto simp: recover_storage_def set_wal_def image_at_def log_store_def snapshot_store_def)
  qed
  then have "going K rt"
    using r by (simp add: going_def handoff_def snapshots_ok_def)
  then show ?thesis
    by (simp add: start_services_def log_status_if_changed_def Let_def going_def)
qed

lemma raft_task_ok:
  assumes "\<And>st. store_codec_ok K st" "runtime_ok K rt" "rt_raft_queue rt = t # ts" "in_range (rt_raft rt)"
  shows "runtime_ok K (run_raft_task K M timed_out t (rt\<lparr>rt_raft_queue := ts\<rparr>))"
proof -
  let ?r = "rt\<lparr>rt_raft_queue := ts\<rparr>"
  have q: "rt\<lparr>rt_raft_queue := t # ts\<rparr> = rt" using assms(3) by simp
  have "runtime_ok K ?r" if "acks_of [t] = []"
    using assms(2,3) that by (auto simp: runtime_ok_def going_def snapshots_ok_def)
  moreover have "runtime_ok K (on_message K M timed_out m ?r)" if "t = Raft_deliver m" for m
  proof (cases "rt_stopping rt")
    case False
    then have "msg_wf m" using assms(2,3) that by (simp add: runtime_ok_def going_def)
    then show ?thesis using calculation that assms(4) by (simp add: message_ok)
  qed (simp add: on_message_def runtime_ok_def)
  moreover have "runtime_ok K (on_applied M i ?r)" if "t = Raft_applied i" for i
    using applied_ok [where rt = rt and ts = ts] assms(2,4) q that by simp
  moreover have "runtime_ok K (on_snapshot M i state ?r)" if "t = Raft_snapshot i state" for i state
    using snapshot_ok [OF assms(1), where rt = rt and ts = ts] assms(2,4) q that by simp
  moreover have "runtime_ok K (stop_on_raft_loop ?r)" if "runtime_ok K ?r"
    using that by (simp add: stop_on_raft_loop_def runtime_ok_def going_def post_store_def)
  ultimately show ?thesis
    using assms(4) by (cases t) (simp_all add: propose_ok read_request_ok cancel_read_ok)
qed

lemma store_queue_ok:
  assumes "runtime_ok K rt" "rt_store_queue rt = u # us"
  shows "runtime_ok K (run_store_task K u (rt\<lparr>rt_store_queue := us\<rparr>))"
proof -
  have q: "rt\<lparr>rt_store_queue := u # us\<rparr> = rt" using assms(2) by simp
  have "runtime_ok K (rt\<lparr>rt_store_queue := us\<rparr>)" if "applies_of [u] = []"
    using assms that by (simp add: runtime_ok_def going_def split: store_task.splits)
  then show ?thesis
  proof (cases u)
    case (Store_apply e)
    then show ?thesis using apply_ok [where rt = rt and ts = us and K = K and e = e] assms(1) q by simp
  next
    case (Store_restore i data)
    then show ?thesis
      using assms by (simp add: runtime_ok_def going_def restore_now_def split: sum.split prod.split)
  qed (simp_all only: store_task_ok on_its_way store_task.case append_Nil)
qed

lemma node_run_ok:
  assumes "node_run K M hs rt" "\<And>st. store_codec_ok K st"
  shows "runtime_ok K rt"
  using assms(1)
proof induction
  case (start nc rng request_id N had_wal w rt)
  then show ?case by (simp add: started_ok runtime_ok_def)
next
  case (client hs rt now arguments h rt')
  then show ?case using steady_ok [OF steady_client [of rt K now arguments h]] by simp
next
  case (closed hs rt now arguments h x rt')
  then show ?case using steady_ok [OF steady_client [of rt K now arguments h]] by simp
next
  case (peer hs rt m)
  then show ?case by (simp add: on_peer_message_def post_raft_def runtime_ok_def going_def)
next
  case (peers_stop hs rt)
  then show ?case by (simp add: stop_peers_def runtime_ok_def going_def)
qed (simp_all add: raft_task_ok store_queue_ok tick_ok steady_ok [OF steady_poll] assms(2))

subsection \<open>A run\<close>

text \<open>A codec that packs every store, and a node that starts, receives its first entry from a
  leader and applies it.\<close>

fun ex_text :: "string \<Rightarrow> bytes" where
  "ex_text [] = [0]"
| "ex_text (c # cs) = 1 # of_nat (of_char c) # ex_text cs"

fun ex_parse :: "bytes \<Rightarrow> string \<Rightarrow> string list" where
  "ex_parse [] acc = []"
| "ex_parse [b] acc = (if b = 0 then [acc] else [])"
| "ex_parse (b # c # bs) acc = (if b = 0 then acc # ex_parse (c # bs) [] else ex_parse bs (acc @ [char_of (unat c)]))"

definition ex_any_codec :: kv_codec where
  "ex_any_codec = ex_codec\<lparr>kc_pack_store := (\<lambda>st. concat (map (\<lambda>(k, v). ex_text k @ ex_text v) st)),
     kc_unpack_store := (\<lambda>bs. Inr (ex_pairs (ex_parse bs [])))\<rparr>"

lemma ex_parse_text: "ex_parse (ex_text s @ rest) acc = (acc @ s) # ex_parse rest []"
proof (induction s arbitrary: acc)
  case Nil
  then show ?case by (cases rest) simp_all
next
  case (Cons c cs)
  have "unat (of_nat (of_char c :: nat) :: 8 word) = of_char c"
    using nat_of_char_less_256 [of c] by (simp add: unat_of_nat take_bit_nat_eq_self)
  then show ?case using Cons by simp
qed

lemma ex_any_codec_ok: "store_codec_ok ex_any_codec st"
proof -
  have "ex_pairs (ex_parse (concat (map (\<lambda>(k, v). ex_text k @ ex_text v) st)) []) = st"
    by (induction st) (auto simp: ex_parse_text)
  then show ?thesis by (simp add: store_codec_ok_def ex_any_codec_def)
qed


definition ex_message_codec :: message_codec where
  "ex_message_codec = \<lparr>mc_pack = (\<lambda>_. []), mc_unpack = (\<lambda>_. Inl Runtime_error)\<rparr>"

definition ex_first :: message where
  "ex_first = (an_append 3 [ex_set])\<lparr>m_leader_commit := 1\<rparr>"

definition ex_fresh :: runtime where
  "ex_fresh = projr (new_runtime ex_any_codec (ex_addressed 3) (sconst 0) 1 ex_network False (ex_file []))"

lemma ex_fresh_raft:
  "raft_new (raft_config_for (ex_addressed 3)) (sconst 0) = Inr ((ex_node 3 0)\<lparr>r_snapshot_restore := None, r_wal := None\<rparr>)"
  by (simp add: raft_new_def raft_config_for_def ex_addressed_def ex_config_def default_node_config_def default_config_def
      ex_node_def reset_randomized_election_timeout_def Let_def ex_defs)

lemma ex_fresh:
  "new_runtime ex_any_codec (ex_addressed 3) (sconst 0) 1 ex_network False (ex_file []) = Inr ex_fresh"
  "rt_raft ex_fresh = (ex_node 3 0)\<lparr>r_snapshot_restore := Some (\<lambda>_ _. False)\<rparr>"
  "rt_config ex_fresh = ex_addressed 3" "rt_peers ex_fresh = []" "rt_read_indexes ex_fresh = []"
  "rt_store ex_fresh = []" "rt_store_applied ex_fresh = 0" "rt_apply_in_flight ex_fresh = None"
  "rt_raft_queue ex_fresh = []" "rt_store_queue ex_fresh = []" "rt_pending_writes ex_fresh = []" "rt_pending_reads ex_fresh = []"
  "\<not> rt_stopping ex_fresh" "\<not> rt_halted ex_fresh" "\<not> rt_snapshot_pending ex_fresh" "rt_replies ex_fresh = []"
  by (simp_all add: ex_fresh_def new_runtime_def ex_fresh_raft ex_services recover_storage_def Let_def set_wal_def
      set_snapshot_restore_callback_def ex_node_def)

definition ex_told :: runtime where
  "ex_told = on_peer_message ex_first (start_services ex_fresh)"

definition ex_dispatched :: runtime where
  "ex_dispatched = run_raft_task ex_any_codec ex_message_codec False (Raft_deliver ex_first) (ex_told\<lparr>rt_raft_queue := []\<rparr>)"

definition ex_applied :: runtime where
  "ex_applied = run_store_task ex_any_codec (Store_apply ex_set) (ex_dispatched\<lparr>rt_store_queue := []\<rparr>)"

definition ex_taught :: "message list \<Rightarrow> raft" where
  "ex_taught ms = (ex_node 3 0)\<lparr>r_snapshot_restore := Some (\<lambda>_ _. False), r_term := 1, r_lead := 1, r_log := [ex_set],
     r_commit_index := 1,
     r_wal := Some (ex_file [RecHardState \<lparr>hs_term = 1, hs_vote = 0, hs_commit = 0\<rparr>,
       RecEntry ex_set, RecHardState \<lparr>hs_term = 1, hs_vote = 0, hs_commit = 1\<rparr>]), r_msgs := ms\<rparr>"

lemma ex_first_handled:
  "handle_raft_message ex_first ((ex_node 3 0)\<lparr>r_snapshot_restore := Some (\<lambda>_ _. False)\<rparr>) = (Inr (), ex_taught [an_ack 3 1])"
  by (simp add: an_fol ex_first_def ex_taught_def ex_set_def default_entry_def)

lemma ex_dispatched:
  "rt_store_queue ex_dispatched = [Store_apply ex_set]" "\<not> rt_stopping ex_dispatched" "\<not> rt_halted ex_dispatched"
  "rt_store_applied ex_dispatched = 0" "rt_store ex_dispatched = []" "rt_pending_writes ex_dispatched = []"
  "rt_raft_queue ex_dispatched = []" "rt_replies ex_dispatched = []"
proof -
  let ?rt = "ex_told\<lparr>rt_raft_queue := []\<rparr>"
  have t: "rt_raft ?rt = (ex_node 3 0)\<lparr>r_snapshot_restore := Some (\<lambda>_ _. False)\<rparr>" "rt_peers ?rt = []" "rt_read_indexes ?rt = []"
    "\<not> rt_stopping ?rt" "\<not> rt_halted ?rt" "rt_apply_in_flight ?rt = None" "rt_store_queue ?rt = []"
    "rt_store_applied ?rt = 0" "rt_store ?rt = []" "rt_pending_writes ?rt = []"
  "rt_raft_queue ?rt = []" "rt_replies ?rt = []" "\<not> rt_snapshot_pending ?rt"
    by (simp_all add: ex_told_def on_peer_message_def post_raft_def start_services_def log_status_if_changed_def Let_def ex_fresh)
  define rt1 where "rt1 = ?rt\<lparr>rt_raft := ex_taught [an_ack 3 1]\<rparr>"
  have "deliver ex_any_codec False ex_first ?rt = (Inr (), rt1)"
    unfolding deliver_def t(1)
    using ex_first_handled
    by (simp add: calls_restore_def ex_first_def an_append_def ex_defs rt1_def set_snapshot_restore_callback_def t)
  moreover have "known_type ex_first" by (simp add: known_type_def ex_first_def an_append_def ex_defs)
  ultimately have d: "ex_dispatched = after_raft_activity ex_message_codec rt1"
    using t(4) by (simp add: ex_dispatched_def on_message_def)
  have f: "next_entry_to_apply (ex_taught ms) = Some ex_set" "\<not> r_storage_failed (ex_taught ms)"
    "\<not> should_snapshot (ex_taught ms)" "read_messages (ex_taught ms) = (ms, ex_taught [])" for ms
    by (simp_all add: ex_taught_def ex_node_def next_entry_to_apply_def log_entry_def ex_set_def default_entry_def
         should_snapshot_def read_messages_def wrap_simps two64_def)
  show "rt_store_queue ex_dispatched = [Store_apply ex_set]" "\<not> rt_stopping ex_dispatched" "\<not> rt_halted ex_dispatched"
  "rt_store_applied ex_dispatched = 0" "rt_store ex_dispatched = []" "rt_pending_writes ex_dispatched = []"
  "rt_raft_queue ex_dispatched = []" "rt_replies ex_dispatched = []"
    unfolding d after_raft_activity_def rt1_def
    using t by (simp_all add: f dispatch_next_committed_entry_def post_store_def poll_read_indexes_def
       maybe_capture_snapshot_def flush_raft_messages_def log_status_if_changed_def Let_def an_ack_def)
qed

lemma ex_start_run: "node_run ex_any_codec ex_message_codec [] (start_services ex_fresh)"
proof -
  have "legal (w_disk (ex_file []))" by (simp add: ex_file_def open_wal_def legal_def)
  from node_run.start [OF ex_fresh(1) this] show ?thesis by (simp add: two64_def)
qed

lemma ex_node_run: "node_run ex_any_codec ex_message_codec [] ex_dispatched"
proof -
  note ex_start_run
  moreover have f: "\<not> rt_halted (start_services ex_fresh)" "rt_raft (start_services ex_fresh) = rt_raft ex_fresh"
    "rt_raft_queue (start_services ex_fresh) = []"
    by (simp_all add: start_services_def log_status_if_changed_def Let_def ex_fresh)
  moreover have "msg_wf ex_first"
    by (simp add: msg_wf_def ex_first_def an_append_def ex_defs ex_set_def default_entry_def)
  ultimately have "node_run ex_any_codec ex_message_codec [] ex_told"
    unfolding ex_told_def by (intro node_run.peer)
  moreover have "rt_raft_queue ex_told = [Raft_deliver ex_first]" "in_range (rt_raft ex_told)" "\<not> rt_halted ex_told"
    using f by (simp_all add: ex_told_def on_peer_message_def post_raft_def ex_fresh in_range_def ex_node_def log_end_def ex_defs)
  ultimately show ?thesis unfolding ex_dispatched_def by (intro node_run.raft)
qed

lemma ex_applied:
  "node_run ex_any_codec ex_message_codec [] ex_applied" "rt_store ex_applied = [(''a'', ''b'')]"
  "\<not> rt_stopping ex_applied" "rt_store_applied ex_applied = 1"
proof -
  show "node_run ex_any_codec ex_message_codec [] ex_applied"
    unfolding ex_applied_def using ex_node_run ex_dispatched by (intro node_run.store)
  have e: "entry_index ex_set = 1" "entry_type ex_set = EntryNormal" "entry_data ex_set \<noteq> []"
    by (simp_all add: ex_set_def default_entry_def ex_codec_def)
  have "kv_apply ex_any_codec ex_set [] = kv_apply ex_codec ex_set []"
    by (simp add: kv_apply_def unpack_command_def ex_any_codec_def)
  then show "rt_store ex_applied = [(''a'', ''b'')]" "\<not> rt_stopping ex_applied" "rt_store_applied ex_applied = 1"
    by (simp_all add: ex_applied_def apply_committed_entry_def ex_dispatched e ex_apply_set acknowledge_applied_def
        post_raft_def wrap_simps two64_def complete_write_def)
qed

subsection \<open>What the invariant gives\<close>

text \<open>
  C22. In every run of a node, whatever the interleaving of its loops, timers, messages and
  clients, and until it begins to stop: the store has exactly the bindings that the last
  snapshot and the log entries up to the applied index give, the applied index is committed,
  and it is the index the Raft core has recorded or the one after it.
\<close>

theorem store_follows_log:
  assumes "node_run K M hs rt" "\<not> rt_stopping rt" "\<forall>st. store_codec_ok K st"
  shows "(\<exists>st. log_store K (r_log_offset (rt_raft rt)) (r_last_snapshot_data (rt_raft rt))
        (take (rt_store_applied rt - r_log_offset (rt_raft rt)) (r_log (rt_raft rt))) = Inr st
        \<and> map_of st = map_of (rt_store rt))
     \<and> rt_store_applied rt \<le> r_commit_index (rt_raft rt)
     \<and> rt_store_applied rt \<in> {r_last_applied (rt_raft rt), r_last_applied (rt_raft rt) + 1}"
  using node_run_ok [OF assms(1)] assms(2,3)
  by (auto simp: runtime_ok_def going_def handoff_def image_at_def split: option.splits)

theorem store_follows_log_witness:
  "\<exists>st. log_store ex_any_codec (r_log_offset (rt_raft ex_applied)) (r_last_snapshot_data (rt_raft ex_applied))
        (take (rt_store_applied ex_applied - r_log_offset (rt_raft ex_applied)) (r_log (rt_raft ex_applied))) = Inr st
     \<and> map_of st = [''a'' \<mapsto> ''b'']"
  using store_follows_log [OF ex_applied(1,3)] ex_any_codec_ok by (simp add: ex_applied)

text \<open>
  C23. What the store loop applies is the next committed entry, in every run: an entry taken
  from its queue is the log entry right after the applied index and is committed. Then either
  the node stops, or the entry is applied and acknowledged once, and at most one client gets a
  reply, the one whose pending write the entry carries, with the result of the application.
\<close>

theorem applies_next_committed:
  assumes "node_run K M hs rt" "\<not> rt_stopping rt" "\<forall>st. store_codec_ok K st"
    "rt_store_queue rt = Store_apply e # us"
  defines "rt' \<equiv> run_store_task K (Store_apply e) (rt\<lparr>rt_store_queue := us\<rparr>)"
    and "n \<equiv> rt_store_applied rt + 1"
  shows "e = log_at (rt_raft rt) n \<and> n \<le> r_commit_index (rt_raft rt) \<and> entry_index e = n
     \<and> (rt_stopping rt'
        \<or> rt_store_applied rt' = n \<and> rt_raft_queue rt' = rt_raft_queue rt @ [Raft_applied n]
          \<and> (if runnable e
             then \<exists>result. kv_apply K e (rt_store rt) = (Inr result, rt_store rt')
               \<and> rt_replies rt' = rt_replies rt @
                   (case map_of (rt_pending_writes rt) (ar_request_id result) of
                      Some p \<Rightarrow> if ar_origin_node result = nc_id (rt_config rt)
                        then [(pw_reply p, if ar_type result = CommandSet then CHR ''+'' # ''OK'' @ [CR, LF]
                                           else encode_integer (to_int64 (ar_affected result)))]
                        else []
                    | None \<Rightarrow> [])
             else rt_store rt' = rt_store rt \<and> rt_replies rt' = rt_replies rt))"
    (is "_ \<and> _ \<and> _ \<and> ?Q")
proof -
  let ?s = "rt_raft rt"
  have g: "going K rt" using node_run_ok [OF assms(1)] assms(2,3) by (simp add: runtime_ok_def)
  then have lw: "log_wf ?s" by (simp add: going_def node_log_wf)
  have e: "e = log_at ?s n" "n \<le> r_commit_index ?s" "r_log_offset ?s < n"
    using g log_wf_bounds [OF lw] assms(4) by (auto simp: going_def handoff_def n_def split: option.splits)
  have i: "entry_index e = n" "u64_inc (rt_store_applied rt) = n"
    using e lw log_wf_bounds [OF lw] by (auto simp: log_at_def log_wf_def n_def wrap_simps)
  have "\<not> n \<le> rt_store_applied rt" by (simp add: n_def)
  then have ?Q
    using assms(2) i
    by (auto simp: rt'_def apply_committed_entry_def runnable_def acknowledge_applied_def post_raft_def complete_write_def
        call_reply_def Let_def request_stop_def encode_simple_string_def split: sum.split option.split prod.split)
  with e i show ?thesis by blast
qed

theorem applies_next_committed_witness:
  "ex_set = log_at (rt_raft ex_dispatched) 1 \<and> 1 \<le> r_commit_index (rt_raft ex_dispatched)
   \<and> rt_store_applied ex_applied = 1"
  using applies_next_committed [OF ex_node_run ex_dispatched(2) _ ex_dispatched(1)] ex_any_codec_ok
  by (simp add: ex_dispatched ex_applied)

end
