(* ===== verification/Read_Anomaly.thy ===== *)
theory Read_Anomaly
  imports Snapshot_Anomaly
begin

text \<open>
  A run in which a deposed leader confirms a read that began after a newer leader had
  committed a write. The leader of term 1 starts a read round; node 2 answers the round, and
  the answer is delayed. Node 2 is then elected for term 2 with the vote of node 3 and commits
  an entry. Now a read arrives at node 1: \<^verbatim>\<open>read_index\<close> returns the token of the round that is
  still pending, and the delayed answer, sent before the write, completes it.
\<close>

subsection \<open>The leader of term 1\<close>

definition rd_com :: "wal_record list" where
  "rd_com = an_one @ [RecHardState \<lparr>hs_term = 1, hs_vote = 1, hs_commit = 1\<rparr>]"

definition rd_leader :: "bool umap \<Rightarrow> message list \<Rightarrow> raft" where
  "rd_leader acks ms = (an_leader [ex_entry 1 1] rd_com (an_prog 1 2) (an_prog 0 1) 1 1 ms)
     \<lparr>r_read_index_pending := True, r_pending_read_index := 1, r_pending_read_context := 1,
      r_next_read_context := 2, r_read_index_acks := acks\<rparr>"

definition rd_beat :: message where
  "rd_beat = (an_append 2 [])\<lparr>m_prev_log_index := 1, m_prev_log_term := 1, m_leader_commit := 1,
     m_read_context := 1\<rparr>"

definition rd_beat_3 :: message where
  "rd_beat_3 = (an_append 3 [ex_entry 1 1])\<lparr>m_leader_commit := 1, m_read_context := 1\<rparr>"

definition rd_ack :: message where
  "rd_ack = (an_ack 2 1)\<lparr>m_read_context := 1\<rparr>"

lemmas rd_response = handle_raft_message_def handle_append_entries_response_def misaddressed_def
  is_member_def set_match_def advance_commit_def replicas_def

lemma rd_commit_1:
  "raft_step (Receive (an_ack 2 1)) (an_leader [ex_entry 1 1] an_one (an_prog 0 1) (an_prog 0 1) 0 0 []) =
     (Inr (), an_leader [ex_entry 1 1] rd_com (an_prog 1 2) (an_prog 0 1) 1 0 [])"
  by (simp add: rd_response an_ack_def an_ev rd_com_def an_one_def)

lemma rd_read:
  "raft_step Read_index (an_leader [ex_entry 1 1] rd_com (an_prog 1 2) (an_prog 0 1) 1 1 []) =
     (Inr (), rd_leader [] [rd_beat, rd_beat_3])"
  by (simp add: read_index_def has_committed_entry_in_current_term_def rd_leader_def rd_beat_def rd_beat_3_def an_ev)

subsection \<open>Node 2\<close>

definition rd_d2 :: "wal_record list" where
  "rd_d2 = [RecHardState \<lparr>hs_term = 1, hs_vote = 0, hs_commit = 0\<rparr>,
     RecHardState \<lparr>hs_term = 1, hs_vote = 1, hs_commit = 0\<rparr>, RecEntry (ex_entry 1 1)]"

definition rd_d2c :: "wal_record list" where
  "rd_d2c = rd_d2 @ [RecHardState \<lparr>hs_term = 1, hs_vote = 1, hs_commit = 1\<rparr>]"

definition rd_follower :: "nat \<Rightarrow> wal_record list \<Rightarrow> nat \<Rightarrow> message list \<Rightarrow> raft" where
  "rd_follower c d e ms = (ex_voter [])\<lparr>r_lead := 1, r_log := [ex_entry 1 1], r_commit_index := c,
     r_wal := Some (ex_file d), r_election_elapsed := e, r_msgs := ms\<rparr>"

lemma rd_receive_2:
  "raft_step (Receive (an_append 2 [ex_entry 1 1])) (ex_voter []) = (Inr (), rd_follower 0 rd_d2 0 [an_ack 2 1])"
  by (simp add: an_fol rd_follower_def rd_d2_def ex_voter_def)

lemma rd_beat_2:
  "raft_step (Receive rd_beat) (rd_follower 0 rd_d2 0 []) = (Inr (), rd_follower 1 rd_d2c 0 [rd_ack])"
  by (simp add: an_fol rd_follower_def rd_d2_def rd_d2c_def ex_voter_def rd_beat_def rd_ack_def)

lemma rd_tick: "e < 9 \<Longrightarrow> raft_step Tick (rd_follower 1 rd_d2c e []) = (Inr (), rd_follower 1 rd_d2c (Suc e) [])"
  by (simp add: tick_def rd_follower_def ex_voter_def an_ev)

definition rd_ask :: "message_type \<Rightarrow> nat \<Rightarrow> message" where
  "rd_ask ty p = default_message\<lparr>m_type := ty, m_from := 2, m_to := p, m_term := 2, m_last_log_index := 1,
     m_last_log_term := 1\<rparr>"

definition rd_pre :: "message list \<Rightarrow> raft" where
  "rd_pre ms = (rd_follower 1 rd_d2c 0 ms)\<lparr>r_state := PreCandidate, r_lead := 0, r_pending_pre_vote_term := 2,
     r_pre_votes := [(2, True)]\<rparr>"

lemmas rd_votes = become_pre_candidate_def pre_campaign_def reset_randomized_election_timeout_def vote_request_def
  last_log_term_def handle_pre_vote_def handle_pre_vote_response_def handle_request_vote_def reply_def
  handle_request_vote_response_def become_candidate_def campaign_def count_true_def is_log_up_to_date_def
  become_follower_def become_leader_def handle_raft_message_def misaddressed_def is_member_def rd_ask_def

lemma rd_timeout:
  "raft_step Tick (rd_follower 1 rd_d2c 9 []) = (Inr (), rd_pre [rd_ask MsgPreVote 1, rd_ask MsgPreVote 3])"
  by (simp add: tick_def rd_follower_def rd_pre_def ex_voter_def rd_votes an_ev)

definition rd_pre_grant :: message where
  "rd_pre_grant = default_message\<lparr>m_type := MsgPreVoteResponse, m_from := 3, m_to := 2, m_pre_vote_term := 2,
     m_vote_granted := True\<rparr>"

lemma rd_pre_granted:
  "raft_step (Receive (rd_ask MsgPreVote 3)) (ex_node 3 0) = (Inr (), (ex_node 3 0)\<lparr>r_msgs := [rd_pre_grant]\<rparr>)"
  by (simp add: rd_votes rd_pre_grant_def an_ev)

definition rd_cand :: "message list \<Rightarrow> raft" where
  "rd_cand ms = (rd_pre ms)\<lparr>r_state := Candidate, r_term := 2, r_voted_for := 2, r_pending_pre_vote_term := 0,
     r_pre_votes := [(2, True), (3, True)], r_votes := [(2, True)],
     r_wal := Some (ex_file (rd_d2c @ [RecHardState \<lparr>hs_term = 2, hs_vote = 2, hs_commit = 1\<rparr>]))\<rparr>"

lemma rd_pre_won:
  "raft_step (Receive rd_pre_grant) (rd_pre []) = (Inr (), rd_cand [rd_ask MsgRequestVote 1, rd_ask MsgRequestVote 3])"
  by (simp add: rd_votes rd_pre_grant_def rd_pre_def rd_cand_def rd_follower_def ex_voter_def an_ev)

definition rd_grant :: message where
  "rd_grant = default_message\<lparr>m_type := MsgRequestVoteResponse, m_from := 3, m_to := 2, m_term := 2,
     m_vote_granted := True\<rparr>"

definition rd_voter :: "nat \<Rightarrow> message list \<Rightarrow> raft" where
  "rd_voter l ms = (ex_node 3 0)\<lparr>r_term := 2, r_voted_for := 2, r_lead := l, r_msgs := ms,
     r_wal := Some (ex_file [RecHardState \<lparr>hs_term = 2, hs_vote = 0, hs_commit = 0\<rparr>,
       RecHardState \<lparr>hs_term = 2, hs_vote = 2, hs_commit = 0\<rparr>])\<rparr>"

lemma rd_granted:
  "raft_step (Receive (rd_ask MsgRequestVote 3)) (ex_node 3 0) = (Inr (), rd_voter 0 [rd_grant])"
  by (simp add: rd_votes rd_grant_def rd_voter_def an_ev)

definition rd_append :: "nat \<Rightarrow> nat \<Rightarrow> entry list \<Rightarrow> message" where
  "rd_append p i es = default_message\<lparr>m_type := MsgAppendEntries, m_from := 2, m_to := p, m_term := 2,
     m_prev_log_index := i, m_prev_log_term := i, m_leader_commit := 1, m_entries := es\<rparr>"

definition rd_d2n :: "wal_record list" where
  "rd_d2n = rd_d2c @ [RecHardState \<lparr>hs_term = 2, hs_vote = 2, hs_commit = 1\<rparr>]"

definition rd_new :: "entry list \<Rightarrow> wal_record list \<Rightarrow> progress \<Rightarrow> nat \<Rightarrow> message list \<Rightarrow> raft" where
  "rd_new log d p3 c ms = (rd_cand ms)\<lparr>r_state := Leader, r_lead := 2, r_votes := [(2, True), (3, True)],
     r_progress := [(1, an_prog 0 2), (3, p3)], r_log := log, r_commit_index := c, r_wal := Some (ex_file d)\<rparr>"

lemmas rd_nodes = rd_new_def rd_cand_def rd_pre_def rd_follower_def ex_voter_def

lemma rd_elected:
  "raft_step (Receive rd_grant) (rd_cand []) =
     (Inr (), rd_new [ex_entry 1 1] rd_d2n (an_prog 0 2) 1 [rd_append 1 1 [], rd_append 3 1 []])"
  by (simp add: rd_votes rd_grant_def rd_nodes rd_d2n_def rd_append_def an_ev)

lemma rd_proposed:
  "raft_step (Propose [7]) (rd_new [ex_entry 1 1] rd_d2n (an_prog 0 2) 1 []) =
     (Inr (), rd_new [ex_entry 1 1, ex_entry 2 2] (rd_d2n @ [RecEntry (ex_entry 2 2)]) (an_prog 0 2) 1
       [rd_append 1 1 [ex_entry 2 2], rd_append 3 1 [ex_entry 2 2]])"
  by (simp add: propose_def rd_nodes rd_append_def an_ev)

definition rd_refusal :: message where
  "rd_refusal = default_message\<lparr>m_type := MsgAppendEntriesResponse, m_from := 3, m_to := 2, m_term := 2\<rparr>"

lemma rd_refused:
  "raft_step (Receive (rd_append 3 1 [])) (rd_voter 0 []) = (Inr (), rd_voter 2 [rd_refusal])"
  by (simp add: an_fol rd_voter_def rd_append_def rd_refusal_def)

lemma rd_retry:
  "raft_step (Receive rd_refusal)
     (rd_new [ex_entry 1 1, ex_entry 2 2] (rd_d2n @ [RecEntry (ex_entry 2 2)]) (an_prog 0 2) 1 []) =
   (Inr (), rd_new [ex_entry 1 1, ex_entry 2 2] (rd_d2n @ [RecEntry (ex_entry 2 2)]) (an_prog 0 1) 1
     [rd_append 1 1 [ex_entry 2 2], rd_append 3 0 [ex_entry 1 1, ex_entry 2 2]])"
  by (simp add: rd_response rd_refusal_def rd_nodes rd_append_def an_ev)

definition rd_stored :: "message list \<Rightarrow> raft" where
  "rd_stored ms = (rd_voter 2 ms)\<lparr>r_log := [ex_entry 1 1, ex_entry 2 2], r_commit_index := 1,
     r_wal := Some (ex_file [RecHardState \<lparr>hs_term = 2, hs_vote = 0, hs_commit = 0\<rparr>,
       RecHardState \<lparr>hs_term = 2, hs_vote = 2, hs_commit = 0\<rparr>, RecEntry (ex_entry 1 1), RecEntry (ex_entry 2 2),
       RecHardState \<lparr>hs_term = 2, hs_vote = 2, hs_commit = 1\<rparr>])\<rparr>"

definition rd_stored_ack :: message where
  "rd_stored_ack = rd_refusal\<lparr>m_success := True, m_match_index := 2\<rparr>"

lemma rd_store:
  "raft_step (Receive (rd_append 3 0 [ex_entry 1 1, ex_entry 2 2])) (rd_voter 2 []) = (Inr (), rd_stored [rd_stored_ack])"
  by (simp add: an_fol rd_voter_def rd_append_def rd_refusal_def rd_stored_def rd_stored_ack_def)

lemma rd_commit_2:
  "raft_step (Receive rd_stored_ack)
     (rd_new [ex_entry 1 1, ex_entry 2 2] (rd_d2n @ [RecEntry (ex_entry 2 2)]) (an_prog 0 1) 1 []) =
   (Inr (), rd_new [ex_entry 1 1, ex_entry 2 2]
     (rd_d2n @ [RecEntry (ex_entry 2 2), RecHardState \<lparr>hs_term = 2, hs_vote = 2, hs_commit = 2\<rparr>]) (an_prog 2 3) 2 [])"
  by (simp add: rd_response rd_refusal_def rd_stored_ack_def rd_nodes an_ev)

subsection \<open>The run\<close>

lemma rd_states [simp]:
  "in_range (rd_leader acks ms)" "in_range (rd_follower c d e ms)" "in_range (rd_pre ms)" "in_range (rd_cand ms)"
  "length l \<le> 2 \<Longrightarrow> in_range (rd_new l d p c ms)" "in_range (rd_voter n ms)" "in_range (rd_stored ms)"
  "in_range ((ex_node 3 0)\<lparr>r_msgs := ms\<rparr>)"
  "(rd_leader acks ms)\<lparr>r_msgs := []\<rparr> = rd_leader acks []" "(rd_follower c d e ms)\<lparr>r_msgs := []\<rparr> = rd_follower c d e []"
  "(rd_pre ms)\<lparr>r_msgs := []\<rparr> = rd_pre []" "(rd_cand ms)\<lparr>r_msgs := []\<rparr> = rd_cand []"
  "(rd_new l d p c ms)\<lparr>r_msgs := []\<rparr> = rd_new l d p c []" "(rd_voter n ms)\<lparr>r_msgs := []\<rparr> = rd_voter n []"
  "(rd_stored ms)\<lparr>r_msgs := []\<rparr> = rd_stored []" "(ex_node 3 0)\<lparr>r_msgs := []\<rparr> = ex_node 3 0"
  "r_msgs (rd_leader acks ms) = ms" "r_msgs (rd_follower c d e ms) = ms" "r_msgs (rd_pre ms) = ms"
  "r_msgs (rd_cand ms) = ms" "r_msgs (rd_new l d p c ms) = ms" "r_msgs (rd_voter n ms) = ms" "r_msgs (rd_stored ms) = ms"
  "\<not> r_storage_failed (rd_leader acks ms)" "\<not> r_storage_failed (rd_follower c d e ms)" "\<not> r_storage_failed (rd_pre ms)"
  "\<not> r_storage_failed (rd_cand ms)" "\<not> r_storage_failed (rd_new l d p c ms)" "\<not> r_storage_failed (rd_voter n ms)"
  "\<not> r_storage_failed (rd_stored ms)"
  by (simp_all add: in_range_def log_end_def rd_leader_def rd_nodes rd_voter_def rd_stored_def an_leader_def
      ex_leader_def ex_candidate_def ex_node_def two64_def)

lemma rd_flush:
  assumes "reachable (ex_cluster a b c net)"
  shows "\<not> r_storage_failed b \<Longrightarrow>
      \<exists>net'. net \<subseteq> net' \<and> set (r_msgs b) \<subseteq> net' \<and> reachable (ex_cluster a (b\<lparr>r_msgs := []\<rparr>) c net')"
    and "\<not> r_storage_failed c \<Longrightarrow>
      \<exists>net'. net \<subseteq> net' \<and> set (r_msgs c) \<subseteq> net' \<and> reachable (ex_cluster a b (c\<lparr>r_msgs := []\<rparr>) net')"
  using ex_flush(2,3) [OF assms] by blast+

text \<open>The round is started and node 2 has answered it.\<close>

lemma rd_round:
  "\<exists>net. rd_ack \<in> net \<and> reachable (ex_cluster (rd_leader [] []) (rd_follower 1 rd_d2c 0 []) (ex_node 3 0) net)"
proof -
  let ?a = "\<lambda>d p2 c a. an_leader [ex_entry 1 1] d p2 (an_prog 0 1) c a"
  define ms where "ms = [ex_heartbeat 2, ex_heartbeat 3, an_append 2 [ex_entry 1 1], an_append 3 [ex_entry 1 1]]"
  have "reachable (ex_cluster (?a an_one (an_prog 0 1) 0 0 ms) (ex_voter []) (ex_node 3 0) ex_net)"
    by (rule ex_event(1) [OF ex_leader_reachable _ _ an_propose_1 [folded ms_def]]) simp_all
  from ex_flush(1) [OF this]
  have "reachable (ex_cluster (?a an_one (an_prog 0 1) 0 0 []) (ex_voter []) (ex_node 3 0) (ex_net \<union> set ms))" by simp
  then have "reachable (ex_cluster (?a an_one (an_prog 0 1) 0 0 []) (rd_follower 0 rd_d2 0 [an_ack 2 1]) (ex_node 3 0)
      (ex_net \<union> set ms))"
    by (rule ex_event(2) [OF _ _ _ rd_receive_2]) (simp_all add: ms_def)
  from ex_flush(2) [OF this]
  have "reachable (ex_cluster (?a an_one (an_prog 0 1) 0 0 []) (rd_follower 0 rd_d2 0 []) (ex_node 3 0)
      (ex_net \<union> set ms \<union> {an_ack 2 1}))" by simp
  then have "reachable (ex_cluster (?a rd_com (an_prog 1 2) 1 0 []) (rd_follower 0 rd_d2 0 []) (ex_node 3 0)
      (ex_net \<union> set ms \<union> {an_ack 2 1}))"
    by (rule ex_event(1) [OF _ _ _ rd_commit_1]) simp_all
  then have "reachable (ex_cluster (?a rd_com (an_prog 1 2) 1 1 []) (rd_follower 0 rd_d2 0 []) (ex_node 3 0)
      (ex_net \<union> set ms \<union> {an_ack 2 1}))"
    by (rule ex_event(1) [OF _ _ _ an_apply_1]) simp_all
  then have "reachable (ex_cluster (rd_leader [] [rd_beat, rd_beat_3]) (rd_follower 0 rd_d2 0 []) (ex_node 3 0)
      (ex_net \<union> set ms \<union> {an_ack 2 1}))"
    by (rule ex_event(1) [OF _ _ _ rd_read]) simp_all
  from ex_flush(1) [OF this]
  have "reachable (ex_cluster (rd_leader [] []) (rd_follower 0 rd_d2 0 []) (ex_node 3 0)
      (ex_net \<union> set ms \<union> {an_ack 2 1} \<union> {rd_beat, rd_beat_3}))" by simp
  then have "reachable (ex_cluster (rd_leader [] []) (rd_follower 1 rd_d2c 0 [rd_ack]) (ex_node 3 0)
      (ex_net \<union> set ms \<union> {an_ack 2 1} \<union> {rd_beat, rd_beat_3}))"
    by (rule ex_event(2) [OF _ _ _ rd_beat_2]) simp_all
  from rd_flush(1) [OF this] show ?thesis by auto
qed

lemma rd_waiting:
  assumes "reachable (ex_cluster a (rd_follower 1 rd_d2c 0 []) c net)"
  shows "e \<le> 9 \<Longrightarrow> reachable (ex_cluster a (rd_follower 1 rd_d2c e []) c net)"
proof (induction e)
  case (Suc e)
  then show ?case using ex_event(2) [of a "rd_follower 1 rd_d2c e []" c net Tick] rd_tick [of e] by simp
qed (rule assms)

lemma rd_election:
  assumes "reachable (ex_cluster a (rd_follower 1 rd_d2c 0 []) (ex_node 3 0) net)"
  shows "\<exists>net'. net \<subseteq> net' \<and> rd_append 3 1 [] \<in> net' \<and>
    reachable (ex_cluster a (rd_new [ex_entry 1 1] rd_d2n (an_prog 0 2) 1 []) (rd_voter 0 []) net')"
proof -
  have "reachable (ex_cluster a (rd_pre [rd_ask MsgPreVote 1, rd_ask MsgPreVote 3]) (ex_node 3 0) net)"
    by (rule ex_event(2) [OF rd_waiting [OF assms order_refl] _ _ rd_timeout]) simp_all
  from rd_flush(1) [OF this]
  obtain n1 where n1: "net \<subseteq> n1" "rd_ask MsgPreVote 3 \<in> n1" "reachable (ex_cluster a (rd_pre []) (ex_node 3 0) n1)"
    by auto
  have "reachable (ex_cluster a (rd_pre []) ((ex_node 3 0)\<lparr>r_msgs := [rd_pre_grant]\<rparr>) n1)"
    by (rule ex_event(3) [OF n1(3) _ _ rd_pre_granted]) (use n1 in simp_all)
  from rd_flush(2) [OF this]
  obtain n2 where n2: "n1 \<subseteq> n2" "rd_pre_grant \<in> n2" "reachable (ex_cluster a (rd_pre []) (ex_node 3 0) n2)"
    by auto
  have "reachable (ex_cluster a (rd_cand [rd_ask MsgRequestVote 1, rd_ask MsgRequestVote 3]) (ex_node 3 0) n2)"
    by (rule ex_event(2) [OF n2(3) _ _ rd_pre_won]) (use n2 in simp_all)
  from rd_flush(1) [OF this]
  obtain n3 where n3: "n2 \<subseteq> n3" "rd_ask MsgRequestVote 3 \<in> n3" "reachable (ex_cluster a (rd_cand []) (ex_node 3 0) n3)"
    by auto
  have "reachable (ex_cluster a (rd_cand []) (rd_voter 0 [rd_grant]) n3)"
    by (rule ex_event(3) [OF n3(3) _ _ rd_granted]) (use n3 in simp_all)
  from rd_flush(2) [OF this]
  obtain n4 where n4: "n3 \<subseteq> n4" "rd_grant \<in> n4" "reachable (ex_cluster a (rd_cand []) (rd_voter 0 []) n4)"
    by auto
  have "reachable (ex_cluster a (rd_new [ex_entry 1 1] rd_d2n (an_prog 0 2) 1 [rd_append 1 1 [], rd_append 3 1 []])
      (rd_voter 0 []) n4)"
    by (rule ex_event(2) [OF n4(3) _ _ rd_elected]) (use n4 in simp_all)
  from rd_flush(1) [OF this] obtain n5 where n5: "n4 \<subseteq> n5" "rd_append 3 1 [] \<in> n5"
    "reachable (ex_cluster a (rd_new [ex_entry 1 1] rd_d2n (an_prog 0 2) 1 []) (rd_voter 0 []) n5)" by auto
  have "net \<subseteq> n5" using n1(1) n2(1) n3(1) n4(1) n5(1) by blast
  with n5 show ?thesis by blast
qed

lemma rd_committed:
  assumes "reachable (ex_cluster a (rd_new [ex_entry 1 1] rd_d2n (an_prog 0 2) 1 []) (rd_voter 0 []) net)"
    "rd_append 3 1 [] \<in> net"
  shows "\<exists>net'. net \<subseteq> net' \<and> reachable (ex_cluster a (rd_new [ex_entry 1 1, ex_entry 2 2]
     (rd_d2n @ [RecEntry (ex_entry 2 2), RecHardState \<lparr>hs_term = 2, hs_vote = 2, hs_commit = 2\<rparr>]) (an_prog 2 3) 2 [])
     (rd_stored []) net')"
proof -
  let ?n = "\<lambda>p ms. rd_new [ex_entry 1 1, ex_entry 2 2] (rd_d2n @ [RecEntry (ex_entry 2 2)]) p 1 ms"
  have "reachable (ex_cluster a (?n (an_prog 0 2) [rd_append 1 1 [ex_entry 2 2], rd_append 3 1 [ex_entry 2 2]]) (rd_voter 0 []) net)"
    by (rule ex_event(2) [OF assms(1) _ _ rd_proposed]) simp_all
  from rd_flush(1) [OF this]
  obtain n1 where n1: "net \<subseteq> n1" "reachable (ex_cluster a (?n (an_prog 0 2) []) (rd_voter 0 []) n1)" by auto
  have "reachable (ex_cluster a (?n (an_prog 0 2) []) (rd_voter 2 [rd_refusal]) n1)"
    by (rule ex_event(3) [OF n1(2) _ _ rd_refused]) (use n1 assms(2) in auto)
  from rd_flush(2) [OF this]
  obtain n2 where n2: "n1 \<subseteq> n2" "rd_refusal \<in> n2" "reachable (ex_cluster a (?n (an_prog 0 2) []) (rd_voter 2 []) n2)"
    by auto
  have "reachable (ex_cluster a (?n (an_prog 0 1) [rd_append 1 1 [ex_entry 2 2], rd_append 3 0 [ex_entry 1 1, ex_entry 2 2]])
      (rd_voter 2 []) n2)"
    by (rule ex_event(2) [OF n2(3) _ _ rd_retry]) (use n2 in simp_all)
  from rd_flush(1) [OF this]
  obtain n3 where n3: "n2 \<subseteq> n3" "rd_append 3 0 [ex_entry 1 1, ex_entry 2 2] \<in> n3"
    "reachable (ex_cluster a (?n (an_prog 0 1) []) (rd_voter 2 []) n3)" by auto
  have "reachable (ex_cluster a (?n (an_prog 0 1) []) (rd_stored [rd_stored_ack]) n3)"
    by (rule ex_event(3) [OF n3(3) _ _ rd_store]) (use n3 in simp_all)
  from rd_flush(2) [OF this]
  obtain n4 where n4: "n3 \<subseteq> n4" "rd_stored_ack \<in> n4" "reachable (ex_cluster a (?n (an_prog 0 1) []) (rd_stored []) n4)"
    by auto
  have "net \<subseteq> n4" using n1(1) n2(1) n3(1) n4(1) by blast
  moreover have "reachable (ex_cluster a (rd_new [ex_entry 1 1, ex_entry 2 2]
     (rd_d2n @ [RecEntry (ex_entry 2 2), RecHardState \<lparr>hs_term = 2, hs_vote = 2, hs_commit = 2\<rparr>]) (an_prog 2 3) 2 [])
     (rd_stored []) n4)"
    by (rule ex_event(2) [OF n4(3) _ _ rd_commit_2]) (use n4 in simp_all)
  ultimately show ?thesis by blast
qed

lemma rd_second_read:
  "read_index (rd_leader [] []) = (Inr (Some \<lparr>ri_context = 1, ri_safe_index = 1\<rparr>), rd_leader [] [])"
  "raft_step (Receive rd_ack) (rd_leader [] []) = (Inr (), rd_leader [(2, True)] [])"
  "read_index_ready \<lparr>ri_context = 1, ri_safe_index = 1\<rparr> (rd_leader [(2, True)] [])"
  by (simp_all add: read_index_def pending_token_def rd_leader_def rd_response rd_ack_def an_ack_def an_ev
      read_index_ready_def has_committed_entry_in_current_term_def count_true_def)

text \<open>
  C28. Reads are not linearizable after a change of leader: there is a run without failures in
  which node 2 leads term 2 and has committed an entry on itself and node 3, and only then a
  read starts at node 1, still leader of term 1; the read shares the token of the round that
  is pending, and an answer that was already on the network completes it, although its safe
  index is below the committed entry, which node 1 does not have.
\<close>

theorem shared_round_confirms_stale_read:
  "\<exists>C old new third tok m s s'. reachable C \<and> c_node C 1 = Some old \<and> c_node C 2 = Some new \<and> c_node C 3 = Some third
     \<and> r_state new = Leader \<and> r_term old < r_term new
     \<and> log_at new 2 = ex_entry 2 2 \<and> log_at third 2 = ex_entry 2 2 \<and> r_commit_index new = 2 \<and> log_end old = 1
     \<and> read_index old = (Inr (Some tok), s) \<and> m \<in> c_net C \<and> raft_step (Receive m) s = (Inr (), s')
     \<and> read_index_ready tok s' \<and> ri_safe_index tok < r_commit_index new"
proof -
  obtain n1 where n1: "rd_ack \<in> n1"
    "reachable (ex_cluster (rd_leader [] []) (rd_follower 1 rd_d2c 0 []) (ex_node 3 0) n1)"
    using rd_round by blast
  obtain n2 where n2: "n1 \<subseteq> n2" "rd_append 3 1 [] \<in> n2"
    "reachable (ex_cluster (rd_leader [] []) (rd_new [ex_entry 1 1] rd_d2n (an_prog 0 2) 1 []) (rd_voter 0 []) n2)"
    using rd_election [OF n1(2)] by blast
  let ?new = "rd_new [ex_entry 1 1, ex_entry 2 2]
    (rd_d2n @ [RecEntry (ex_entry 2 2), RecHardState \<lparr>hs_term = 2, hs_vote = 2, hs_commit = 2\<rparr>]) (an_prog 2 3) 2 []"
  obtain n3 where n3: "n2 \<subseteq> n3" "reachable (ex_cluster (rd_leader [] []) ?new (rd_stored []) n3)"
    using rd_committed [OF n2(3,2)] by blast
  have f: "r_state ?new = Leader" "r_term (rd_leader [] []) < r_term ?new" "log_at ?new 2 = ex_entry 2 2"
    "log_at (rd_stored []) 2 = ex_entry 2 2" "r_commit_index ?new = 2" "log_end (rd_leader [] []) = 1"
    by (simp_all add: rd_nodes rd_leader_def an_leader_def ex_leader_def ex_candidate_def ex_node_def log_at_def
        rd_stored_def rd_voter_def log_end_def)
  have "rd_ack \<in> n3" using n1(1) n2(1) n3(1) by blast
  then show ?thesis
    using n3(2) f rd_second_read
    by (intro exI [of _ "ex_cluster (rd_leader [] []) ?new (rd_stored []) n3"] exI [of _ "rd_leader [] []"] exI [of _ ?new]
        exI [of _ "rd_stored []"] exI [of _ "\<lparr>ri_context = 1, ri_safe_index = 1\<rparr>"] exI [of _ rd_ack]
        exI [of _ "rd_leader [(2, True)] []"]) (simp del: One_nat_def add: ex_fields)
qed

end
