(* ===== verification/Node_Requests.thy ===== *)
theory Node_Requests
  imports Node_Handoff Read_Anomaly "HOL-Library.Multiset"
begin

text \<open>
  The clients of a node: every command the node takes is pending or answered exactly once, in
  every run. Reads are released to the store loop only when the store has what their round
  promised, a write or read that is too old is answered, and a node that stops answers
  everyone.
\<close>

subsection \<open>The books\<close>

definition pending_handles :: "runtime \<Rightarrow> reply_handle list" where
  "pending_handles rt = map (\<lambda>p. pw_reply (snd p)) (rt_pending_writes rt) @ map (\<lambda>p. pd_reply (snd p)) (rt_pending_reads rt)"

definition answered_handles :: "runtime \<Rightarrow> reply_handle list" where
  "answered_handles rt = map fst (rt_replies rt)"

text \<open>The \<open>k\<close>-th request number after \<open>i\<close>: the numbers go round without 0.\<close>

definition request_number :: "nat \<Rightarrow> nat \<Rightarrow> nat" where
  "request_number i k = (i - 1 + k) mod (two64 - 1) + 1"

lemma request_number_next:
  assumes "0 < i" "i < two64"
  shows "request_number i 0 = i"
    "allocate_request_id (request_number i k) = (request_number i k, request_number i (Suc k))"
proof -
  show "request_number i 0 = i" using assms by (simp add: request_number_def)
  let ?m = "two64 - 1"
  define a where "a = (i - 1 + k) mod ?m"
  have m: "0 < ?m" "Suc ?m = two64" by (simp_all add: two64_def)
  then have a: "Suc a < two64" unfolding a_def by (metis Suc_mono mod_less_divisor)
  have n: "request_number i k = Suc a" "request_number i (Suc k) = (if Suc (Suc a) = two64 then 1 else Suc (Suc a))"
    using m by (auto simp: request_number_def a_def mod_Suc)
  have "u64_inc (Suc a) = (if Suc (Suc a) = two64 then 0 else Suc (Suc a))"
    using a by (simp add: u64_inc_def u64_add_def u64_def)
  then show "allocate_request_id (request_number i k) = (request_number i k, request_number i (Suc k))"
    unfolding n by (simp add: allocate_request_id_def next_id_def)
qed

lemma request_number_inj:
  assumes "request_number i k = request_number i n" "k < n" "n < two64 - 1"
  shows False
proof -
  have "(i - 1 + n) mod (two64 - 1) = (i - 1 + k) mod (two64 - 1)"
    using assms(1) by (simp add: request_number_def)
  then have "two64 - 1 dvd (i - 1 + n) - (i - 1 + k)"
    using assms(2) by (subst (asm) mod_eq_dvd_iff_nat) simp_all
  with assms(2,3) show False by (auto dest: dvd_imp_le)
qed

text \<open>What the store loop will say to a client can be sent.\<close>

definition sendable :: "store_task \<Rightarrow> bool" where
  "sendable t = (case t of Store_reject_write _ err \<Rightarrow> \<not> has_line_break err
                         | Store_reject_read _ err \<Rightarrow> \<not> has_line_break err | _ \<Rightarrow> True)"

text \<open>The books balance, and the number of the next request is not that of a pending one.\<close>

definition numbered :: "nat \<Rightarrow> nat \<Rightarrow> nat set \<Rightarrow> bool" where
  "numbered taken next keys \<longleftrightarrow>
     (\<exists>i n. 0 < i \<and> i < two64 \<and> n \<le> taken \<and> next = request_number i n \<and> keys \<subseteq> request_number i ` {..<n})"

definition ledger :: "reply_handle list \<Rightarrow> (reply_handle \<times> string) list \<Rightarrow> pending_write umap \<Rightarrow> pending_read umap \<Rightarrow> nat \<Rightarrow> bool" where
  "ledger hs replies ws rs next \<longleftrightarrow>
     mset hs = mset (map fst replies) + mset (map (\<lambda>p. pw_reply (snd p)) ws) + mset (map (\<lambda>p. pd_reply (snd p)) rs)
     \<and> umap_ok ws \<and> umap_ok rs
     \<and> numbered (length hs) next (fst ` set ws \<union> fst ` set rs)"

definition books_ok :: "reply_handle list \<Rightarrow> runtime \<Rightarrow> bool" where
  "books_ok hs rt \<longleftrightarrow>
     (length hs < two64 - 1 \<longrightarrow>
        ledger hs (rt_replies rt) (rt_pending_writes rt) (rt_pending_reads rt) (rt_next_request_id rt))
     \<and> list_all sendable (rt_store_queue rt)"

definition books where
  "books rt = (rt_replies rt, rt_pending_writes rt, rt_pending_reads rt, rt_next_request_id rt)"

text \<open>The Raft loop and the peer loop leave the books alone.\<close>

definition tidy :: "runtime \<Rightarrow> runtime \<Rightarrow> bool" where
  "tidy rt rt' \<longleftrightarrow> books rt' = books rt \<and> (list_all sendable (rt_store_queue rt) \<longrightarrow> list_all sendable (rt_store_queue rt'))"

lemma tidy_refl [simp]: "tidy rt rt"
  by (simp add: tidy_def)

lemma tidy_trans [trans]: "tidy a b \<Longrightarrow> tidy b c \<Longrightarrow> tidy a c"
  by (simp add: tidy_def)

lemma tidy_fold: "(\<And>x rt. tidy rt (f x rt)) \<Longrightarrow> tidy rt (fold f xs rt)"
proof (induction xs arbitrary: rt)
  case (Cons x xs)
  then have "tidy rt (f x rt)" by simp
  also have "tidy (f x rt) (fold f xs (f x rt))" using Cons by simp
  finally show ?case by simp
qed simp

lemma tidy_ok: "tidy rt rt' \<Longrightarrow> books_ok hs rt \<Longrightarrow> books_ok hs rt'"
  by (simp add: tidy_def books_def books_ok_def)

lemmas tidy_unfold = tidy_def books_def post_store_def post_raft_def sendable_def

lemma tidy_post_store: "sendable t \<Longrightarrow> tidy rt (post_store t rt)"
  by (simp add: tidy_def books_def post_store_def)

lemma tidy_stops: "tidy rt (request_stop reason rt)" "tidy rt (loop_failed rt)"
  by (simp_all add: request_stop_def loop_failed_def Let_def tidy_unfold)

lemma not_leader_sendable [simp]: "\<not> has_line_break (not_leader_error s)"
  by (simp add: not_leader_error_def has_line_break_def)

subsection \<open>The Raft loop\<close>

lemma tidy_poll: "tidy rt (poll_read_indexes rt)"
proof -
  have "tidy rt (rt\<lparr>rt_read_indexes := m\<rparr>)" "tidy rt (rt\<lparr>rt_read_indexes := m, rt_raft := s\<rparr>)" for m s
    by (simp_all add: tidy_unfold)
  moreover have "tidy r (fold (\<lambda>i. post_store (Store_reject_read i (not_leader_error s))) xs r)"
    "tidy r (fold (\<lambda>i. post_store (Store_complete_read i)) xs r)" for r s xs
    by (intro tidy_fold tidy_post_store; simp add: sendable_def)+
  ultimately have "tidy rt (fold (\<lambda>i. post_store (Store_reject_read i (not_leader_error s))) xs (rt\<lparr>rt_read_indexes := m\<rparr>))"
    "tidy rt (fold (\<lambda>i. post_store (Store_complete_read i)) xs (rt\<lparr>rt_read_indexes := m, rt_raft := s\<rparr>))" for s xs m
    by (blast intro: tidy_trans)+
  then show ?thesis by (simp add: poll_read_indexes_def Let_def split: option.split)
qed

lemma tidy_send: "tidy rt (send_messages M ms rt)"
proof (induction ms arbitrary: rt)
  case (Cons m ms)
  have p: "tidy rt (rt\<lparr>rt_peers := ps\<rparr>)" for ps by (simp add: tidy_unfold)
  show ?case
    using Cons.IH tidy_trans [OF p Cons.IH] tidy_trans [OF p tidy_stops(1)]
    by (auto split: option.split sum.split bool.split prod.split)
qed simp

lemma tidy_after: "tidy rt (after_raft_activity M rt)"
proof -
  have d: "tidy rt (dispatch_next_committed_entry rt)" for rt
    by (simp add: dispatch_next_committed_entry_def tidy_unfold split: option.split)
  have c: "tidy rt (maybe_capture_snapshot rt)" for rt by (simp add: maybe_capture_snapshot_def tidy_unfold)
  have f: "tidy rt (flush_raft_messages M rt)" for rt
    using tidy_trans [OF _ tidy_send, of rt "rt\<lparr>rt_raft := snd (read_messages (rt_raft rt))\<rparr>"]
    by (simp add: flush_raft_messages_def read_messages_def tidy_unfold)
  have l: "tidy rt (log_status_if_changed b rt)" for b rt
    by (simp add: log_status_if_changed_def Let_def tidy_unfold)
  show ?thesis
    using tidy_stops(1) tidy_trans [OF tidy_trans [OF tidy_trans [OF tidy_trans [OF d tidy_poll] c] f] l]
    by (simp add: after_raft_activity_def)
qed

lemma tidy_raft_update: "tidy rt (rt\<lparr>rt_raft := s\<rparr>)"
  by (simp add: tidy_unfold)

lemma tidy_tick: "tidy rt (on_tick M cancelled rt)"
  using tidy_trans [OF tidy_raft_update tidy_after]
  by (simp add: on_tick_def tidy_def books_def)

lemma tidy_propose: "tidy rt (on_propose M i data rt)"
proof -
  have "tidy rt (post_store (Store_reject_write i err) (rt\<lparr>rt_raft := s\<rparr>))" if "\<not> has_line_break err" for err s
    by (rule tidy_trans [OF tidy_raft_update tidy_post_store]) (use that in \<open>simp add: sendable_def\<close>)
  from this [OF not_leader_sendable] this [of "''TRYAGAIN storage unavailable''"]
  have p: "tidy rt (post_store (Store_reject_write i (not_leader_error s')) (rt\<lparr>rt_raft := s\<rparr>))"
    "tidy rt (post_store (Store_reject_write i ''TRYAGAIN storage unavailable'') (rt\<lparr>rt_raft := s\<rparr>))" for s s'
    by (simp_all add: has_line_break_def)
  show ?thesis
    using tidy_trans [OF p(1) tidy_after] tidy_trans [OF p(2) tidy_after] tidy_trans [OF tidy_raft_update tidy_after]
      tidy_trans [OF tidy_raft_update tidy_stops(2)]
    by (simp add: on_propose_def split: prod.split sum.split option.split)
qed

lemma tidy_read_request: "tidy rt (on_read_request M i rt)"
proof -
  have p: "tidy rt (post_store (Store_reject_read i (not_leader_error s)) (rt\<lparr>rt_raft := s\<rparr>))"
    "tidy rt (rt\<lparr>rt_raft := s, rt_read_indexes := m\<rparr>)" for s m
    by (simp_all add: tidy_unfold)
  show ?thesis
    using tidy_trans [OF p(1) tidy_after] tidy_trans [OF p(2) tidy_after] tidy_trans [OF tidy_raft_update tidy_stops(2)]
    by (simp add: on_read_request_def split: prod.split sum.split option.split)
qed

lemma tidy_applied: "tidy rt (on_applied M i rt)"
proof -
  have p: "tidy rt (rt\<lparr>rt_raft := s, rt_apply_in_flight := f\<rparr>)" for s f by (simp add: tidy_unfold)
  show ?thesis
    using tidy_stops(1) tidy_trans [OF tidy_raft_update tidy_stops(1)] tidy_trans [OF p tidy_after]
    by (simp add: on_applied_def Let_def)
qed

lemma tidy_snapshot: "tidy rt (on_snapshot M i state rt)"
proof -
  have p: "tidy rt (rt\<lparr>rt_snapshot_pending := False, rt_raft := s\<rparr>)" for s by (simp add: tidy_unfold)
  show ?thesis
    using tidy_trans [OF p tidy_stops(2)] tidy_trans [OF p tidy_after]
    by (simp add: on_snapshot_def Let_def tidy_def books_def split: prod.split sum.split)
qed

lemma tidy_cancel_read: "tidy rt (cancel_raft_read i rt)"
  by (simp add: cancel_raft_read_def Let_def tidy_unfold split: option.split)

lemma tidy_stop: "tidy rt (stop_on_raft_loop rt)"
  by (simp add: stop_on_raft_loop_def tidy_unfold)

subsection \<open>The store loop\<close>

lemma erase_mset:
  "umap_ok m \<Longrightarrow> map_of m k = Some v \<Longrightarrow> mset m = add_mset (k, v) (mset (umap_erase m k))"
proof (induction m)
  case (Cons p m)
  obtain j w where p: "p = (j, w)" by fastforce
  have "AList.delete k m = m" if "k \<notin> fst ` set m" using that by (induction m) auto
  then show ?case using Cons p by (auto simp: umap_ok_def umap_erase_def)
qed simp

lemma erase_ok [simp]: "umap_ok m \<Longrightarrow> umap_ok (umap_erase m k)"
  by (simp add: umap_ok_def umap_erase_def distinct_delete)

lemma erase_keys: "fst ` set (umap_erase m k) \<subseteq> fst ` set m"
  by (induction m) (auto simp: umap_erase_def)

lemma numbered_mono:
  assumes "numbered taken nx keys" "keys' \<subseteq> keys"
  shows "numbered taken nx keys'"
proof -
  obtain i n where "0 < i" "i < two64" "n \<le> taken" "nx = request_number i n" "keys \<subseteq> request_number i ` {..<n}"
    using assms(1) by (auto simp: numbered_def)
  with assms(2) show ?thesis unfolding numbered_def by (intro exI [of _ i] exI [of _ n]) auto
qed

lemma ledger_write:
  assumes "ledger hs rep ws rs nx" "map_of ws k = Some p"
  shows "ledger hs (rep @ [(pw_reply p, r)]) (umap_erase ws k) rs nx"
proof -
  have "mset ws = add_mset (k, p) (mset (umap_erase ws k))"
    using assms by (intro erase_mset) (simp_all add: ledger_def)
  then have "mset (map (\<lambda>p. pw_reply (snd p)) ws) = add_mset (pw_reply p) (mset (map (\<lambda>p. pw_reply (snd p)) (umap_erase ws k)))"
    by simp
  moreover have "fst ` set (umap_erase ws k) \<union> fst ` set rs \<subseteq> fst ` set ws \<union> fst ` set rs" using erase_keys [of ws k] by blast
  moreover have "numbered (length hs) nx (fst ` set ws \<union> fst ` set rs)" using assms(1) by (simp add: ledger_def)
  ultimately show ?thesis using assms(1) numbered_mono by (simp add: ledger_def)
qed

lemma ledger_read:
  assumes "ledger hs rep ws rs nx" "map_of rs k = Some p"
  shows "ledger hs (rep @ [(pd_reply p, r)]) ws (umap_erase rs k) nx"
proof -
  have "mset rs = add_mset (k, p) (mset (umap_erase rs k))"
    using assms by (intro erase_mset) (simp_all add: ledger_def)
  then have "mset (map (\<lambda>p. pd_reply (snd p)) rs) = add_mset (pd_reply p) (mset (map (\<lambda>p. pd_reply (snd p)) (umap_erase rs k)))"
    by simp
  moreover have "fst ` set ws \<union> fst ` set (umap_erase rs k) \<subseteq> fst ` set ws \<union> fst ` set rs" using erase_keys [of rs k] by blast
  moreover have "numbered (length hs) nx (fst ` set ws \<union> fst ` set rs)" using assms(1) by (simp add: ledger_def)
  ultimately show ?thesis using assms(1) numbered_mono by (simp add: ledger_def)
qed

lemma books_rejects:
  assumes "books_ok hs rt" "\<not> has_line_break err"
  shows "books_ok hs (reject_write i err rt)" "books_ok hs (reject_read i err rt)"
  using assms
  by (auto simp: reject_write_def reject_read_def reply_error_clean guarded_def call_reply_def books_ok_def
      ledger_write ledger_read split: option.split)

lemma books_complete_read: "books_ok hs rt \<Longrightarrow> books_ok hs (complete_read i rt)"
  by (auto simp: complete_read_def call_reply_def books_ok_def ledger_read split: option.split)

lemma books_complete_write: "books_ok hs rt \<Longrightarrow> books_ok hs (snd (complete_write result rt))"
  by (auto simp: complete_write_def Let_def call_reply_def books_ok_def ledger_write encode_simple_string_def
      has_line_break_def split: option.split)

lemma books_apply:
  assumes "books_ok hs rt"
  shows "books_ok hs (apply_committed_entry K e rt)"
proof -
  have ack: "books_ok hs (acknowledge_applied i (r\<lparr>rt_store_applied := j\<rparr>))" "books_ok hs (request_stop reason r)"
    if "books_ok hs r" for r i j reason
    using that tidy_ok [OF tidy_stops(1) that] by (simp_all add: books_ok_def acknowledge_applied_def post_raft_def)
  define x where "x = (if entry_type e = EntryNormal \<and> entry_data e \<noteq> [] then
                 (case kv_apply K e (rt_store rt) of
                    (Inl x, st) \<Rightarrow> (Inl x, rt\<lparr>rt_store := st\<rparr>)
                  | (Inr result, st) \<Rightarrow>
                      if ar_origin_node result = nc_id (rt_config rt)
                      then complete_write result (rt\<lparr>rt_store := st\<rparr>)
                      else (Inr (), rt\<lparr>rt_store := st\<rparr>))
               else (Inr (), rt))"
  have "books_ok hs (rt\<lparr>rt_store := st\<rparr>)" for st using assms by (simp add: books_ok_def)
  then have "books_ok hs (snd x)"
    using assms by (simp add: x_def books_complete_write split: prod.split sum.split)
  then show ?thesis
    unfolding apply_committed_entry_def x_def [symmetric]
    using assms ack(1) [of "snd x"] ack(2) [of "snd x"] ack(2) [OF assms] ack(1) [OF assms, of _ "rt_store_applied rt"]
    by (cases x) (simp split: sum.split)
qed

lemma stop_store_books:
  "rt_pending_writes (stop_store rt) = [] \<and> rt_pending_reads (stop_store rt) = []
   \<and> rt_store_queue (stop_store rt) = rt_store_queue rt \<and> rt_next_request_id (stop_store rt) = rt_next_request_id rt
   \<and> rt_replies (stop_store rt) = rt_replies rt @ map (\<lambda>h. (h, CHR ''-'' # ''TRYAGAIN node stopping'' @ [CR, LF])) (pending_handles rt)"
  by (simp add: stop_store_eq pending_handles_def o_def)

lemma books_stop: "books_ok hs rt \<Longrightarrow> books_ok hs (stop_store rt)"
  using stop_store_books [of rt]
  by (auto simp: books_ok_def ledger_def pending_handles_def o_def ac_simps intro: numbered_mono [OF _ empty_subsetI])

lemma books_store_task: "books_ok hs rt \<Longrightarrow> sendable t \<Longrightarrow> books_ok hs (run_store_task K t rt)"
  by (cases t)
    (simp_all add: sendable_def books_rejects books_complete_read books_apply books_stop,
      auto simp: capture_snapshot_def post_raft_def restore_now_def books_ok_def split: prod.split sum.split)

lemma books_expire: "books_ok hs rt \<Longrightarrow> books_ok hs (expire_client_requests now rt)"
proof -
  assume ok: "books_ok hs rt"
  have fold_ok: "books_ok hs (fold f xs r)" if "books_ok hs r" "\<And>x r. books_ok hs r \<Longrightarrow> books_ok hs (f x r)"
    for f r and xs :: "nat list"
    using that by (induction xs arbitrary: r) simp_all
  have w: "books_ok hs (reject_write i ''TRYAGAIN write outcome unknown'' r)"
    "books_ok hs (post_raft (Raft_cancel_read i) (reject_read i ''TRYAGAIN read quorum unavailable'' r))"
    if "books_ok hs r" for i r
    using that books_rejects(1) [OF that, of "''TRYAGAIN write outcome unknown''" i]
      books_rejects(2) [OF that, of "''TRYAGAIN read quorum unavailable''" i]
    by (simp_all add: has_line_break_def) (simp add: books_ok_def post_raft_def)
  show ?thesis unfolding expire_client_requests_def Let_def using ok by (intro fold_ok w)
qed

subsection \<open>Clients\<close>

lemma put_fresh: "map_of m k = None \<Longrightarrow> umap_put m k v = m @ [(k, v)]"
  unfolding umap_put_def by (induction m) (auto split: if_splits)

lemma numbered_allocate:
  assumes "numbered taken nx keys" "taken < two64 - 1" "allocate_request_id nx = (i, nx')"
  shows "i \<notin> keys \<and> numbered (Suc taken) nx' (insert i keys)"
proof -
  obtain a n where n: "0 < a" "a < two64" "n \<le> taken" "nx = request_number a n" "keys \<subseteq> request_number a ` {..<n}"
    using assms(1) by (auto simp: numbered_def)
  then have i: "i = request_number a n" "nx' = request_number a (Suc n)"
    using assms(3) request_number_next(2) [OF n(1,2), of n] by simp_all
  have "request_number a k \<noteq> i" if "k < n" for k
    using request_number_inj [OF _ that] i(1) n(3) assms(2) by auto
  then have "i \<notin> request_number a ` {..<n}" by blast
  moreover have "insert i keys \<subseteq> request_number a ` {..<Suc n}" using n(5) i(1) by auto
  ultimately show ?thesis
    using n i(2) unfolding numbered_def by (intro conjI exI [of _ a] exI [of _ "Suc n"]) auto
qed

lemma ledger_begin:
  assumes "ledger hs rep ws rs nx" "length hs < two64 - 1" "allocate_request_id nx = (i, nx')"
  shows "ledger (hs @ [h]) rep (emplace ws i \<lparr>pw_reply = h, pw_deadline = d\<rparr>) rs nx'"
    "ledger (hs @ [h]) rep ws (emplace rs i \<lparr>pd_key = key, pd_reply = h, pd_deadline = d\<rparr>) nx'"
proof -
  have n: "i \<notin> fst ` set ws \<union> fst ` set rs" "numbered (Suc (length hs)) nx' (insert i (fst ` set ws \<union> fst ` set rs))"
    using numbered_allocate [OF _ assms(2,3)] assms(1) by (auto simp: ledger_def)
  then have "map_of ws i = None" "map_of rs i = None" by (simp_all add: map_of_eq_None_iff)
  with n assms(1) show "ledger (hs @ [h]) rep (emplace ws i \<lparr>pw_reply = h, pw_deadline = d\<rparr>) rs nx'"
    "ledger (hs @ [h]) rep ws (emplace rs i \<lparr>pd_key = key, pd_reply = h, pd_deadline = d\<rparr>) nx'"
    by (auto simp: ledger_def emplace_def put_fresh umap_ok_def)
qed

lemma books_client:
  assumes "books_ok hs rt" "handle_client_command K now arguments h rt = (Inr (), rt')"
  shows "books_ok (hs @ [h]) rt'"
proof -
  have replied: "books_ok (hs @ [h]) (call_reply h r rt)" for r
  proof -
    have "numbered (Suc n) nx keys" if num: "numbered n nx keys" for n nx keys
    proof -
      obtain i k where "0 < i" "i < two64" "k \<le> n" "nx = request_number i k" "keys \<subseteq> request_number i ` {..<k}"
        using num by (auto simp: numbered_def)
      then show ?thesis unfolding numbered_def by (intro exI [of _ i] exI [of _ k]) auto
    qed
    then show ?thesis using assms(1) by (auto simp: books_ok_def call_reply_def ledger_def)
  qed
  have begun: "books_ok (hs @ [h]) (begin_write K now c h rt)" "books_ok (hs @ [h]) (begin_read now key h rt)" for c key
    using assms(1) ledger_begin [of hs "rt_replies rt" "rt_pending_writes rt" "rt_pending_reads rt" "rt_next_request_id rt"]
    by (auto simp: books_ok_def begin_write_def begin_read_def Let_def post_raft_def split: prod.split)
  have e: "books_ok (hs @ [h]) rt'" if "reply_error h err rt = (Inr (), rt')" for err
    using that replied by (auto simp: reply_error_def split: sum.splits)
  show ?thesis
    using assms(2) e replied begun
    unfolding handle_client_command_def Let_def by (auto split: if_splits sum.splits)
qed

lemma client_closed: "handle_client_command K now arguments h rt = (Inl x, rt') \<Longrightarrow> rt' = rt"
  by (auto simp: handle_client_command_def reply_error_def Let_def split: if_splits sum.splits)

subsection \<open>Runs\<close>

lemma books_drain:
  "books_ok hs rt \<Longrightarrow> list_all sendable ts \<Longrightarrow> books_ok hs (fold (run_store_task K) ts rt)"
  by (induction ts arbitrary: rt) (simp_all add: books_store_task)

lemma books_message: "books_ok hs rt \<Longrightarrow> books_ok hs (on_message K M timed_out msg rt)"
proof -
  assume ok: "books_ok hs rt"
  have "books_ok hs (rt\<lparr>rt_store_queue := []\<rparr>)" "list_all sendable (rt_store_queue rt)"
    using ok by (simp_all add: books_ok_def)
  then have d: "books_ok hs (fold (run_store_task K) (rt_store_queue rt) (rt\<lparr>rt_store_queue := []\<rparr>))"
    by (rule books_drain)
  have "books_ok hs (snd (restore_now K i data r))" if "books_ok hs r" for i data r
    using that by (simp add: restore_now_def books_ok_def split: prod.split sum.split)
  with d have "books_ok hs (snd (restore_snapshot K timed_out i data rt))" for i data
    using ok tidy_ok [OF tidy_trans [OF tidy_post_store tidy_stops(1)] ok]
    by (simp add: restore_snapshot_def sendable_def)
  then have r: "books_ok hs (snd (if c then restore_snapshot K timed_out i data rt else (False, rt)))" for c i data
    using ok by simp
  have "books_ok hs (snd (deliver K timed_out msg rt))"
    using tidy_ok [OF tidy_raft_update r] by (simp add: deliver_def Let_def split_beta)
  then show ?thesis
    using ok tidy_ok [OF tidy_after] tidy_ok [OF tidy_stops(2)]
    by (cases "deliver K timed_out msg rt") (simp add: on_message_def split: sum.split)
qed

lemma books_raft_task: "books_ok hs rt \<Longrightarrow> books_ok hs (run_raft_task K M timed_out t rt)"
  by (cases t) (simp_all add: books_message tidy_ok [OF tidy_propose] tidy_ok [OF tidy_read_request] tidy_ok [OF tidy_applied]
      tidy_ok [OF tidy_snapshot] tidy_ok [OF tidy_cancel_read] tidy_ok [OF tidy_stop])

lemma node_run_books: "node_run K M hs rt \<Longrightarrow> books_ok hs rt"
proof (induction rule: node_run.induct)
  case (start nc rng request_id N had_wal w rt)
  then have "rt_replies rt = []" "rt_pending_writes rt = []" "rt_pending_reads rt = []" "rt_store_queue rt = []"
    "rt_next_request_id rt = request_id"
    by (auto simp: new_runtime_def split: sum.splits prod.splits)
  moreover have "numbered 0 request_id {}"
    using start(3,4) request_number_next(1) [of request_id] unfolding numbered_def
    by (intro exI [of _ request_id] exI [of _ 0]) simp
  ultimately show ?case
    by (simp add: start_services_def log_status_if_changed_def Let_def books_ok_def ledger_def)
next
  case (raft hs rt t ts timed_out)
  then have "books_ok hs (rt\<lparr>rt_raft_queue := ts\<rparr>)" by (simp add: books_ok_def)
  then show ?case by (rule books_raft_task)
next
  case (store hs rt u us)
  then have "books_ok hs (rt\<lparr>rt_store_queue := us\<rparr>)" "sendable u" by (simp_all add: books_ok_def)
  then show ?case by (rule books_store_task)
next
  case (tick hs rt cancelled)
  then show ?case using tidy_ok [OF tidy_tick] by simp
next
  case (poll hs rt cancelled now)
  have "books_ok hs (r\<lparr>rt_polling := b\<rparr>) = books_ok hs r" for r b by (simp add: books_ok_def)
  then show ?case using poll.IH books_expire by (simp add: on_request_poll_def)
next
  case (peer hs rt m)
  then show ?case by (simp add: on_peer_message_def post_raft_def books_ok_def)
next
  case (client hs rt now arguments h rt')
  then show ?case using books_client by blast
next
  case (closed hs rt now arguments h x rt')
  show ?case using client_closed [OF closed(3)] closed.IH by simp
next
  case (peers_stop hs rt)
  then show ?case by (simp add: stop_peers_def books_ok_def)
next
  case (signalled hs rt)
  then show ?case using tidy_ok [OF tidy_stops(1)] by simp
qed

text \<open>
  C25. Every client command is answered exactly once or still waits: in every run of a node
  with fewer than \<open>2^64 - 1\<close> commands, the commands taken are, counted with multiplicity, those
  answered and those in the two tables of pending requests. Running the stop of the store loop
  answers all that wait and empties the tables.
\<close>

theorem requests_answered_once:
  assumes "node_run K M hs rt" "length hs < two64 - 1"
  shows "mset hs = mset (answered_handles rt) + mset (pending_handles rt)
     \<and> mset (answered_handles (run_store_task K Store_stop rt)) = mset hs
     \<and> pending_handles (run_store_task K Store_stop rt) = []"
proof -
  have "mset hs = mset (answered_handles rt) + mset (pending_handles rt)"
    using node_run_books [OF assms(1)] assms(2)
    by (simp add: books_ok_def ledger_def answered_handles_def pending_handles_def ac_simps)
  then show ?thesis
    using stop_store_books [of rt] by (simp add: answered_handles_def pending_handles_def o_def)
qed

definition ex_pinged :: runtime where
  "ex_pinged = snd (handle_client_command ex_any_codec 0 [''ping''] 9 (start_services ex_fresh))"

definition ex_asked :: runtime where
  "ex_asked = snd (handle_client_command ex_any_codec 0 [''GET'', ''a''] 10 ex_pinged)"

lemma ex_asked:
  "node_run ex_any_codec ex_message_codec [9, 10] ex_asked" "answered_handles ex_asked = [9]" "pending_handles ex_asked = [10]"
proof -
  have f: "\<not> rt_halted (start_services ex_fresh)" "rt_replies (start_services ex_fresh) = []"
    "rt_pending_writes (start_services ex_fresh) = []" "rt_pending_reads (start_services ex_fresh) = []"
    by (simp_all add: start_services_def log_status_if_changed_def Let_def ex_fresh)
  have u: "uppercase_ascii ''ping'' = ''PING''" "uppercase_ascii ''GET'' = ''GET''"
    by (simp_all add: uppercase_ascii_def toupper_def char_of_def bit_0)
  have p: "handle_client_command ex_any_codec 0 [''ping''] 9 (start_services ex_fresh) = (Inr (), ex_pinged)"
    by (simp add: ex_pinged_def handle_client_command_def Let_def u encode_simple_string_def has_line_break_def)
  have g: "handle_client_command ex_any_codec 0 [''GET'', ''a''] 10 ex_pinged = (Inr (), ex_asked)"
    by (simp add: ex_asked_def handle_client_command_def Let_def u)
  have h: "\<not> rt_halted ex_pinged" "rt_replies ex_pinged = [(9, ''+PONG'' @ [CR, LF])]" "rt_pending_writes ex_pinged = []"
    "rt_pending_reads ex_pinged = []"
    using f by (simp_all add: ex_pinged_def handle_client_command_def Let_def u encode_simple_string_def has_line_break_def
        call_reply_def)
  from node_run.client [OF ex_start_run f(1) p] have "node_run ex_any_codec ex_message_codec ([] @ [9]) ex_pinged" .
  from node_run.client [OF this h(1) g] show "node_run ex_any_codec ex_message_codec [9, 10] ex_asked" by simp
  show "answered_handles ex_asked = [9]" "pending_handles ex_asked = [10]"
    using h by (simp_all add: ex_asked_def handle_client_command_def Let_def u begin_read_def post_raft_def answered_handles_def
        pending_handles_def emplace_def umap_put_def split: prod.split)
qed

theorem requests_answered_once_witness:
  "mset [9, 10] = mset (answered_handles ex_asked) + mset (pending_handles ex_asked)
   \<and> answered_handles ex_asked = [9]
   \<and> mset (answered_handles (run_store_task ex_any_codec Store_stop ex_asked)) = mset [9, 10]"
  using requests_answered_once [OF ex_asked(1)] ex_asked(2) by (simp add: two64_def)

subsection \<open>Time limits\<close>

lemma erase_all: "set (fold (\<lambda>i m. umap_erase m i) ks m) \<subseteq> {x \<in> set m. fst x \<notin> set ks}"
proof (induction ks arbitrary: m)
  case (Cons k ks)
  have "set (umap_erase m k) \<subseteq> {x \<in> set m. fst x \<noteq> k}" by (induction m) (auto simp: umap_erase_def)
  with Cons.IH [of "umap_erase m k"] show ?case by auto
qed simp

lemma unexpired:
  fixes d :: "'v \<Rightarrow> nat"
  shows "set (fold (\<lambda>i m. umap_erase m i) (map fst (filter (\<lambda>p. d (snd p) \<le> now) m)) m) \<subseteq> {x \<in> set m. now < d (snd x)}"
  using erase_all [of "map fst (filter (\<lambda>p. d (snd p) \<le> now) m)" m] by force

lemma erase_missing: "map_of m k = None \<Longrightarrow> umap_erase m k = m"
  by (induction m) (auto simp: umap_erase_def split: if_splits)

lemma reject_write_table:
  "\<not> has_line_break err \<Longrightarrow> rt_pending_writes (reject_write i err rt) = umap_erase (rt_pending_writes rt) i
     \<and> rt_pending_reads (reject_write i err rt) = rt_pending_reads rt"
  by (auto simp: reject_write_def reply_error_clean guarded_def call_reply_def erase_missing split: option.split)

lemma reject_read_table:
  "\<not> has_line_break err \<Longrightarrow> rt_pending_reads (reject_read i err rt) = umap_erase (rt_pending_reads rt) i
     \<and> rt_pending_writes (reject_read i err rt) = rt_pending_writes rt"
  by (auto simp: reject_read_def reply_error_clean guarded_def call_reply_def erase_missing split: option.split)

lemma expire_tables:
  "rt_pending_writes (expire_client_requests now rt) =
     fold (\<lambda>i m. umap_erase m i) (map fst (filter (\<lambda>p. pw_deadline (snd p) \<le> now) (rt_pending_writes rt))) (rt_pending_writes rt)"
  "rt_pending_reads (expire_client_requests now rt) =
     fold (\<lambda>i m. umap_erase m i) (map fst (filter (\<lambda>p. pd_deadline (snd p) \<le> now) (rt_pending_reads rt))) (rt_pending_reads rt)"
proof -
  have w: "rt_pending_writes (fold (\<lambda>i. reject_write i ''TRYAGAIN write outcome unknown'') ks r) =
      fold (\<lambda>i m. umap_erase m i) ks (rt_pending_writes r)
    \<and> rt_pending_reads (fold (\<lambda>i. reject_write i ''TRYAGAIN write outcome unknown'') ks r) = rt_pending_reads r" for ks r
    by (induction ks arbitrary: r) (simp_all add: reject_write_table has_line_break_def)
  have r: "rt_pending_reads (fold (\<lambda>i r. post_raft (Raft_cancel_read i) (reject_read i ''TRYAGAIN read quorum unavailable'' r)) ks r) =
      fold (\<lambda>i m. umap_erase m i) ks (rt_pending_reads r)
    \<and> rt_pending_writes (fold (\<lambda>i r. post_raft (Raft_cancel_read i) (reject_read i ''TRYAGAIN read quorum unavailable'' r)) ks r) =
      rt_pending_writes r" for ks r
    by (induction ks arbitrary: r) (simp_all add: reject_read_table has_line_break_def post_raft_def)
  show "rt_pending_writes (expire_client_requests now rt) =
     fold (\<lambda>i m. umap_erase m i) (map fst (filter (\<lambda>p. pw_deadline (snd p) \<le> now) (rt_pending_writes rt))) (rt_pending_writes rt)"
    "rt_pending_reads (expire_client_requests now rt) =
     fold (\<lambda>i m. umap_erase m i) (map fst (filter (\<lambda>p. pd_deadline (snd p) \<le> now) (rt_pending_reads rt))) (rt_pending_reads rt)"
    by (simp_all add: expire_client_requests_def Let_def w r)
qed

text \<open>
  C26. No client waits past its limit: after the request timer has fired at time \<open>now\<close> on a
  node that is not stopping, every write and every read that is still pending has a deadline
  after \<open>now\<close>, and it was pending before.
\<close>

theorem expired_requests_answered:
  assumes "\<not> rt_stopping rt"
  shows "set (rt_pending_writes (on_request_poll False now rt)) \<subseteq> {p \<in> set (rt_pending_writes rt). now < pw_deadline (snd p)}
     \<and> set (rt_pending_reads (on_request_poll False now rt)) \<subseteq> {p \<in> set (rt_pending_reads rt). now < pd_deadline (snd p)}"
  using assms by (simp add: on_request_poll_def expire_tables unexpired)

theorem expired_requests_answered_witness:
  "length (rt_pending_reads ex_asked) = 1 \<and> rt_pending_reads (on_request_poll False 5000 ex_asked) = []"
proof -
  have s: "\<not> rt_stopping (start_services ex_fresh)" "rt_pending_reads (start_services ex_fresh) = []"
    by (simp_all add: start_services_def log_status_if_changed_def Let_def ex_fresh)
  have u: "uppercase_ascii ''ping'' = ''PING''" "uppercase_ascii ''GET'' = ''GET''"
    by (simp_all add: uppercase_ascii_def toupper_def char_of_def bit_0)
  have a: "\<not> rt_stopping ex_asked" "\<exists>i. rt_pending_reads ex_asked = [(i, \<lparr>pd_key = ''a'', pd_reply = 10, pd_deadline = 5000\<rparr>)]"
    using s by (simp_all add: ex_asked_def ex_pinged_def handle_client_command_def Let_def u begin_read_def post_raft_def
        encode_simple_string_def has_line_break_def call_reply_def emplace_def umap_put_def kRequestTimeout_def split: prod.split)
  then obtain i where i: "rt_pending_reads ex_asked = [(i, \<lparr>pd_key = ''a'', pd_reply = 10, pd_deadline = 5000\<rparr>)]" by blast
  have "{p \<in> set (rt_pending_reads ex_asked). 5000 < pd_deadline (snd p)} = {}" by (auto simp: i)
  with expired_requests_answered [OF a(1), of 5000]
  have "set (rt_pending_reads (on_request_poll False 5000 ex_asked)) = {}" by simp
  then show ?thesis by (simp add: i)
qed

subsection \<open>Reads\<close>

text \<open>
  C27. A read is released only on a store that holds everything its round promised: when the
  Raft loop hands finished reads to the store loop, each belongs to one round that a majority
  has confirmed to a leader with an entry of its own term, and the store has applied the
  round's safe index; the other reads keep waiting.
\<close>

theorem reads_wait_for_store:
  assumes "going K rt" "r_state (rt_raft rt) = Leader"
  defines "rt' \<equiv> poll_read_indexes rt"
  shows "rt' = rt \<or>
     (\<exists>tok. read_index_ready tok (rt_raft rt) \<and> ri_safe_index tok \<le> rt_store_applied rt
        \<and> rt_store_queue rt' = rt_store_queue rt @
            map Store_complete_read (map fst (filter (\<lambda>p. snd p = tok) (rt_read_indexes rt)))
        \<and> rt_read_indexes rt' = filter (\<lambda>p. snd p \<noteq> tok) (rt_read_indexes rt))"
proof (cases "find (\<lambda>p. read_index_ready (snd p) (rt_raft rt)) (rt_read_indexes rt)")
  case None
  then show ?thesis using assms(2) by (simp add: rt'_def poll_read_indexes_def)
next
  case (Some p)
  have posts: "fold (\<lambda>i. post_store (f i)) xs r = r\<lparr>rt_store_queue := rt_store_queue r @ map f xs\<rparr>" for f xs r
    by (induction xs arbitrary: r) (simp_all add: post_store_def)
  have r: "read_index_ready (snd p) (rt_raft rt)" using Some by (auto simp: find_Some_iff)
  then have "ri_safe_index (snd p) \<le> r_last_applied (rt_raft rt)"
    by (auto simp: read_index_ready_def split: if_splits)
  moreover have "r_last_applied (rt_raft rt) \<le> rt_store_applied rt"
    using assms(1) by (auto simp: going_def handoff_def split: option.splits)
  ultimately show ?thesis
    using Some r assms(2) by (auto simp: rt'_def poll_read_indexes_def posts)
qed

text \<open>A leader with one confirmed read; any command stands for one write.\<close>

definition ex_read_codec :: kv_codec where
  "ex_read_codec = ex_any_codec\<lparr>kc_unpack_command := (\<lambda>_. Inr \<lparr>raw_type = Some (Positive_integer 0),
     raw_strs = [''a'', ''b''], raw_origin_node = 1, raw_request_id = 7\<rparr>)\<rparr>"

definition ex_confirmed_read :: runtime where
  "ex_confirmed_read = ex_fresh\<lparr>rt_raft := rd_leader [(2, True)] [], rt_store := [(''a'', ''b'')], rt_store_applied := 1,
     rt_read_indexes := [(5, \<lparr>ri_context = 1, ri_safe_index = 1\<rparr>)]\<rparr>"

lemma ex_confirmed_read_going: "going ex_read_codec ex_confirmed_read"
proof -
  have f: "r_log (rd_leader a ms) = [ex_entry 1 1]" "r_log_offset (rd_leader a ms) = 0" "r_commit_index (rd_leader a ms) = 1"
    "r_last_applied (rd_leader a ms) = 1" for a ms
    by (simp_all add: rd_leader_def an_leader_def ex_leader_def ex_candidate_def ex_node_def)
  have "node_wf (rd_leader [(2, True)] [])"
    by (simp add: node_wf_def out_wf_def wf_defs rd_leader_def an_leader_def ex_leader_def ex_candidate_def ex_node_def
        ex_entry_def two64_def umap_ok_def umap_at_def default_progress_def)
  moreover have "image_at ex_read_codec (rd_leader [(2, True)] []) 1 [(''a'', ''b'')]"
    by (simp add: image_at_def f log_store_def snapshot_store_def runnable_def ex_entry_def kv_apply_def unpack_command_def
        ex_read_codec_def convert_command_type_def CommandSet_def kv_set_def)
  ultimately show ?thesis
    using f by (simp add: going_def ex_confirmed_read_def ex_fresh handoff_def snapshots_ok_def)
qed

theorem reads_wait_for_store_witness:
  "going ex_read_codec ex_confirmed_read \<and> rt_store_queue (poll_read_indexes ex_confirmed_read) = [Store_complete_read 5]
   \<and> (\<exists>tok. read_index_ready tok (rt_raft ex_confirmed_read) \<and> ri_safe_index tok \<le> rt_store_applied ex_confirmed_read)"
proof -
  have l: "r_state (rt_raft ex_confirmed_read) = Leader"
    by (simp add: ex_confirmed_read_def rd_leader_def an_leader_def ex_leader_def)
  have q: "rt_store_queue (poll_read_indexes ex_confirmed_read) = [Store_complete_read 5]"
    using rd_second_read(3) l by (simp add: poll_read_indexes_def ex_confirmed_read_def ex_fresh post_store_def)
  have "rt_store_queue ex_confirmed_read = []" by (simp add: ex_confirmed_read_def ex_fresh)
  with q have "poll_read_indexes ex_confirmed_read \<noteq> ex_confirmed_read" by auto
  then have "\<exists>tok. read_index_ready tok (rt_raft ex_confirmed_read) \<and> ri_safe_index tok \<le> rt_store_applied ex_confirmed_read"
    using reads_wait_for_store [OF ex_confirmed_read_going l] by auto
  with ex_confirmed_read_going q show ?thesis by simp
qed

end
