(* ===== verification/Node_Progress.thy ===== *)
theory Node_Progress
  imports Node_Handoff
begin

text \<open>
  Progress of a node: a committed entry that is not applied is always in one of the queues, so
  the node never forgets to apply it. Every handler of the Raft loop ends by handing out the
  next committed entry.
\<close>

definition lively :: "runtime \<Rightarrow> bool" where
  "lively rt \<longleftrightarrow> rt_stopping rt \<or> rt_apply_in_flight rt \<noteq> None \<or> r_commit_index (rt_raft rt) \<le> r_last_applied (rt_raft rt)"

lemma steady_lively: "steady rt rt' \<Longrightarrow> lively rt \<Longrightarrow> lively rt'"
  by (auto simp: steady_def view_def lively_def)

lemma stops_lively [simp]: "lively (loop_failed rt)" "lively (request_stop reason rt)"
  by (simp_all add: lively_def loop_failed_def request_stop_def post_raft_def Let_def)

lemma poll_lively: "lively rt \<Longrightarrow> lively (poll_read_indexes rt)"
proof -
  have f: "rt_stopping (fold (\<lambda>i. post_store (g i)) xs r) = rt_stopping r"
    "rt_apply_in_flight (fold (\<lambda>i. post_store (g i)) xs r) = rt_apply_in_flight r"
    "rt_raft (fold (\<lambda>i. post_store (g i)) xs r) = rt_raft r" for g r and xs :: "nat list"
    by (induction xs arbitrary: r) (simp_all add: post_store_def)
  assume "lively rt"
  then show ?thesis
    by (auto simp: poll_read_indexes_def Let_def f lively_def finish_read_index_def split: option.split)
qed

text \<open>Whatever happened before, the end of a Raft handler is lively.\<close>

lemma after_lively: "lively (after_raft_activity M rt)"
proof (cases "r_storage_failed (rt_raft rt)")
  case False
  define a where "a = maybe_capture_snapshot (poll_read_indexes (dispatch_next_committed_entry rt))"
  have "lively (dispatch_next_committed_entry rt)"
    by (auto simp: lively_def dispatch_next_committed_entry_def next_entry_to_apply_def post_store_def split: option.split)
  then have "lively a"
    using poll_lively by (simp add: a_def maybe_capture_snapshot_def lively_def post_store_def)
  then have "lively (a\<lparr>rt_raft := snd (read_messages (rt_raft a))\<rparr>)" by (simp add: lively_def read_messages_def)
  with False show ?thesis
    using steady_lively [OF steady_trans [OF steady_send steady_log]]
    by (simp add: after_raft_activity_def flush_raft_messages_def read_messages_def a_def)
qed (simp add: after_raft_activity_def)

lemma raft_task_lively: "lively rt \<Longrightarrow> lively (run_raft_task K M timed_out t rt)"
proof (cases t)
  case (Raft_deliver m)
  assume "lively rt"
  with Raft_deliver after_lively show ?thesis by (simp add: on_message_def split: prod.split sum.split)
next
  case (Raft_applied i)
  assume "lively rt"
  with Raft_applied after_lively show ?thesis by (simp add: on_applied_def Let_def)
next
  case (Raft_snapshot i state)
  assume "lively rt"
  with Raft_snapshot after_lively show ?thesis
    by (simp add: on_snapshot_def Let_def split: prod.split sum.split) (simp add: lively_def)
next
  case (Raft_cancel_read i)
  assume "lively rt"
  with Raft_cancel_read show ?thesis
    by (auto simp: cancel_raft_read_def Let_def lively_def finish_read_index_def split: option.split)
qed (simp_all add: on_propose_def on_read_request_def stop_on_raft_loop_def post_store_def after_lively
    split: prod.split sum.split option.split, simp_all add: lively_def)

lemma apply_lively: "lively rt \<Longrightarrow> lively (apply_committed_entry K e rt)"
proof -
  assume l: "lively rt"
  have s: "lively (acknowledge_applied i (r\<lparr>rt_store_applied := n\<rparr>))" if "steady (rt\<lparr>rt_store := st\<rparr>) r" for st r i n
    using steady_lively [OF that] l by (simp add: lively_def acknowledge_applied_def post_raft_def)
  have c: "lively (acknowledge_applied i (r\<lparr>rt_store_applied := n\<rparr>))"
    if "complete_write res (rt\<lparr>rt_store := st\<rparr>) = (x, r)" for st r i n res x
    using s [OF steady_complete_write [of "rt\<lparr>rt_store := st\<rparr>" res]] that by simp
  have p: "lively (acknowledge_applied i (rt\<lparr>rt_store := st, rt_store_applied := n\<rparr>))"
    "lively (acknowledge_applied i (rt\<lparr>rt_store_applied := n\<rparr>))" "lively (acknowledge_applied i rt)" for st i n
    using l by (simp_all add: lively_def acknowledge_applied_def post_raft_def)
  show ?thesis
    using l p c unfolding apply_committed_entry_def by (simp split: prod.split sum.split)
qed

lemma store_task_lively: "lively rt \<Longrightarrow> lively (run_store_task K u rt)"
proof (cases u)
  case (Store_apply e)
  assume "lively rt"
  with Store_apply show ?thesis by (simp add: apply_lively)
next
  case (Store_restore i data)
  assume "lively rt"
  with Store_restore show ?thesis by (simp add: restore_now_def lively_def split: prod.split sum.split)
qed (simp_all add: steady_lively [OF steady_rejects(1)] steady_lively [OF steady_rejects(2)]
    steady_lively [OF steady_complete_read] steady_lively [OF steady_stop_store],
    simp add: capture_snapshot_def post_raft_def lively_def)

lemma started_lively:
  assumes "new_runtime K nc rng request_id N had_wal w = Inr rt" "legal (w_disk w)"
  shows "lively (start_services rt)"
proof -
  have g: "going K (start_services rt)" by (rule started_ok [OF assms])
  have "rt_apply_in_flight rt = None" "r_commit_index (rt_raft rt) = rt_store_applied rt"
    using assms(1)
    by (auto simp: new_runtime_def recover_storage_def raft_new_def reset_randomized_election_timeout_def
        set_snapshot_restore_callback_def set_wal_def Let_def split: sum.splits prod.splits if_splits)
  with g show ?thesis
    by (simp add: going_def handoff_def lively_def start_services_def log_status_if_changed_def Let_def)
qed

lemma node_run_lively: "node_run K M hs rt \<Longrightarrow> lively rt"
proof (induction rule: node_run.induct)
  case (start nc rng request_id N had_wal w rt)
  then show ?case by (simp add: started_lively)
next
  case (raft hs rt t ts timed_out)
  then have "lively (rt\<lparr>rt_raft_queue := ts\<rparr>)" by (simp add: lively_def)
  then show ?case by (rule raft_task_lively)
next
  case (store hs rt u us)
  then have "lively (rt\<lparr>rt_store_queue := us\<rparr>)" by (simp add: lively_def)
  then show ?case by (rule store_task_lively)
next
  case (tick hs rt cancelled)
  then show ?case using after_lively by (simp add: on_tick_def lively_def)
next
  case (client hs rt now arguments h rt')
  then show ?case using steady_lively [OF steady_client [of rt K now arguments h]] by simp
next
  case (closed hs rt now arguments h x rt')
  then show ?case using steady_lively [OF steady_client [of rt K now arguments h]] by simp
qed (simp_all add: steady_lively [OF steady_poll] on_peer_message_def post_raft_def stop_peers_def, simp_all add: lively_def)

text \<open>
  C24. A committed entry is never forgotten: in every run of a node that is not stopping, if the
  Raft core has a committed entry it has not recorded as applied, then the next such entry is
  in the queue of the store loop, or it is applied and its acknowledgement is in the queue of
  the Raft loop. When both queues are empty, the store has everything that is committed.
\<close>

theorem committed_entries_reach_store:
  assumes "node_run K M hs rt" "\<not> rt_stopping rt" "\<forall>st. store_codec_ok K st"
  defines "n \<equiv> r_last_applied (rt_raft rt) + 1"
  shows "(n \<le> r_commit_index (rt_raft rt) \<longrightarrow>
       Store_apply (log_at (rt_raft rt) n) \<in> set (rt_store_queue rt)
       \<or> Raft_applied n \<in> set (rt_raft_queue rt) \<and> rt_store_applied rt = n)
     \<and> (rt_store_queue rt = [] \<and> rt_raft_queue rt = [] \<longrightarrow> rt_store_applied rt = r_commit_index (rt_raft rt))"
proof -
  have g: "going K rt" using node_run_ok [OF assms(1)] assms(2,3) by (simp add: runtime_ok_def)
  have l: "rt_apply_in_flight rt \<noteq> None \<or> r_commit_index (rt_raft rt) \<le> r_last_applied (rt_raft rt)"
    using node_run_lively [OF assms(1)] assms(2) by (simp add: lively_def)
  have q: "e \<in> set (applies_of ts) \<Longrightarrow> Store_apply e \<in> set ts" for e ts
    by (induction ts) (auto split: store_task.splits)
  have a: "i \<in> set (acks_of us) \<Longrightarrow> Raft_applied i \<in> set us" for i us
    by (induction us) (auto split: raft_task.splits)
  have b: "r_last_applied (rt_raft rt) \<le> r_commit_index (rt_raft rt)"
    using g log_wf_bounds [OF node_log_wf] by (auto simp: going_def)
  show ?thesis
  proof (cases "rt_apply_in_flight rt")
    case None
    with g l b show ?thesis by (auto simp: going_def handoff_def n_def)
  next
    case (Some i)
    with g have "applies_of (rt_store_queue rt) = [log_at (rt_raft rt) n] \<or>
        acks_of (rt_raft_queue rt) = [n] \<and> rt_store_applied rt = n"
      by (auto simp: going_def handoff_def n_def)
    with q [of "log_at (rt_raft rt) n" "rt_store_queue rt"] a [of n "rt_raft_queue rt"] show ?thesis by auto
  qed
qed

theorem committed_entries_reach_store_witness:
  "node_run ex_any_codec ex_message_codec [] ex_dispatched
   \<and> Store_apply (log_at (rt_raft ex_dispatched) (r_last_applied (rt_raft ex_dispatched) + 1)) \<in> set (rt_store_queue ex_dispatched)"
proof -
  have "going ex_any_codec ex_dispatched"
    using node_run_ok [OF ex_node_run ex_any_codec_ok] ex_dispatched(2) by (simp add: runtime_ok_def)
  then have "r_last_applied (rt_raft ex_dispatched) + 1 \<le> r_commit_index (rt_raft ex_dispatched)"
    using ex_dispatched(1) by (auto simp: going_def handoff_def split: option.splits)
  then show ?thesis
    using committed_entries_reach_store [OF ex_node_run ex_dispatched(2)] ex_any_codec_ok ex_node_run
    by (simp add: ex_dispatched(7))
qed

end
