(* ===== verification/Spec2Isabelle.thy ===== *)
theory Spec2Isabelle
  imports Raft_Service Node_Requests Node_Progress
begin

text \<open>
  A verification development of a replicated key-value store written in C++: three nodes that
  agree on a log of commands with Raft, keep it in a write-ahead log, apply it to a key-value
  store, and serve clients over the Redis protocol. File names below are relative to
  \<^verbatim>\<open>src/src\<close>.

  \<^bold>\<open>The program.\<close> \<^verbatim>\<open>main.cpp\<close> parses the command line and runs a \<^verbatim>\<open>NodeRuntime\<close>
  (\<^verbatim>\<open>app/node_runtime.cpp\<close>). The runtime owns a Raft core (\<^verbatim>\<open>raft/raft.cpp\<close>) on its Raft loop, a
  store (\<^verbatim>\<open>server/kv_store.cpp\<close>) and the client sessions (\<^verbatim>\<open>server/resp_server.cpp\<close>,
  \<^verbatim>\<open>server/resp_codec.cpp\<close>) on its store loop, and the connections to the other nodes
  (\<^verbatim>\<open>transport/peer.cpp\<close>, \<^verbatim>\<open>transport/server.cpp\<close>, \<^verbatim>\<open>transport/proto.h\<close>, \<^verbatim>\<open>common/bytebuffer.cpp\<close>) on
  its peer loop. The core writes entries, votes and snapshots to the log (\<^verbatim>\<open>wal/wal.cpp\<close>,
  \<^verbatim>\<open>wal/proto.h\<close>) before it answers. A client's write is proposed to the core, replicated,
  committed, handed to the store and answered; a client's read waits for a confirmed read
  round and for the store.

  \<^bold>\<open>The model.\<close> One theory per part, one definition per function of the source.

  \<^item> \<open>Prelude\<close>, \<open>Text\<close>, \<open>Byte_Words\<close>: unsigned integers as natural numbers with the wrap-around
    written out (\<open>u64_inc\<close>, \<open>u64_sub\<close>, ...), hash maps as association lists (\<open>umap_put\<close>, ...),
    exceptions as the left side of a sum, numbers in text and in bytes.
  \<^item> \<open>Raft_Proto\<close>, \<open>Node_Config\<close>: entries, messages, configuration, the command line
    (\<^verbatim>\<open>parse_node_config\<close>).
  \<^item> \<open>Wal\<close>: the log as a sequence of records with a buffer, a \<open>wal_sync\<close> that may fail, and the
    fold that recovery computes. \<open>Wal_Crc\<close> and \<open>Wal_Bytes\<close>: the same log as bytes in files, with
    writes that may stop after any byte, the scan of recovery and the repair of a file.
  \<^item> \<open>Raft\<close>, \<open>Raft_Log\<close>: the record \<open>raft\<close> for the members of \<^verbatim>\<open>kv::Raft\<close>, and every handler as a
    function that returns the new state; sent messages collect in \<open>r_msgs\<close> until
    \<open>read_messages\<close>. \<open>raft_step\<close> lists the events.
  \<^item> \<open>KV_Store\<close>: \<open>kv_apply\<close>, \<open>serialize\<close>, \<open>deserialize\<close>.
  \<^item> \<open>Resp_Codec\<close>, \<open>Resp_Session\<close>, \<open>Byte_Buffer\<close>, \<open>Transport\<close>, \<open>Peer\<close>, \<open>Listeners\<close>: decoders and
    encoders as functions on byte lists; sessions, senders and accept loops as state machines
    in which an outstanding Asio operation is a flag of the state and its completion a step.
  \<^item> \<open>Node_Runtime\<close>, \<open>Node_Start\<close>: the record \<open>runtime\<close> for the members of \<^verbatim>\<open>NodeRuntime::Impl\<close>
    with the work posted to each loop as a queue of \<open>raft_task\<close> and \<open>store_task\<close>, every
    handler, the constructor with recovery, and \<^verbatim>\<open>main\<close>.
  \<^item> \<open>Cluster\<close>: three Raft cores with their files and a network that loses, repeats and reorders
    messages; nodes crash and start again at any moment (\<open>cluster_step\<close>). \<open>Node_Handoff\<close>: one node
    whose loops, timers, peers, clients and signals interleave in any order (\<open>node_run\<close>).

  \<^bold>\<open>The lemmas.\<close>

  \<^item> \<open>Raft_Frame\<close>, \<open>Raft_Inv\<close>, \<open>Raft_Log_Inv\<close>: every event keeps the well-formedness \<open>node_wf\<close>.
    \<open>Raft_Forward\<close>: no event moves a term, vote, commit or applied index backwards or changes a
    committed entry. \<open>Raft_Durable\<close>: the file always holds a legal history that recovers to the
    state. \<open>Raft_Votes\<close>: votes rest on records of the files.
  \<^item> \<open>Cluster\<close>: the locale \<open>election\<close> proves once that majorities of single votes elect one winner;
    its interpretation on the files of the cluster gives election safety, below.
  \<^item> \<open>Raft_Props\<close>, \<open>Raft_Service\<close>: AppendEntries equals a reference merge, acknowledgements are
    durable, the commit rule, applying, reads, snapshots, refusals.
  \<^item> \<open>Wal_Bytes\<close>: the locale \<open>record_scan\<close> is the contract of a scanner; the byte operations
    implement the record operations, a changed byte is found, recovery ends and is idempotent.
  \<^item> \<open>KV_Store\<close>: the store implements a finite map; the locale \<open>state_machine\<close> gives that a snapshot
    replaces the prefix of the log it was taken from.
  \<^item> \<open>Resp_Codec\<close>, \<open>Transport\<close>: decoding does not depend on how the input is cut, round trips,
    limits. \<open>Peer\<close>, \<open>Resp_Session\<close>, \<open>Listeners\<close>: order, bounds and progress in every run; the
    locales \<open>byte_queue\<close> and \<open>accept_loop\<close> are interpreted on the code's buffer and both servers.
  \<^item> \<open>Node_Start\<close>, \<open>Node_Image\<close>, \<open>Node_Handoff\<close>, \<open>Node_Progress\<close>, \<open>Node_Requests\<close>: what a start recovers from the
    bytes of the data directory; in every run of a node the store is the image of the log, the
    store applies the next committed entry and never forgets one, reads wait for the store, and
    every client command is answered once or pending.
  \<^item> \<open>Cluster_Trace\<close>, \<open>Snapshot_Anomaly\<close>, \<open>Read_Anomaly\<close>: concrete runs. The last two show that
    InstallSnapshot discards entries a follower has acknowledged, and that a read can be
    confirmed by a round that began before it, after a newer leader has committed a write. So
    Raft's leader completeness and the linearizability of reads do not hold of this code, and
    the development does not claim them.

  \<^bold>\<open>Bounds.\<close> All recursions are total: the scan of a log file decreases the number of bytes
  left, the decoders the input left, the handlers iterate over finite lists. No fuel is used.
  The steps of a cluster and of a node assume that terms and log indices stay below
  \<open>2^64 - 2\<close> (\<open>in_range\<close>), and the accounting of requests that a node takes fewer than \<open>2^64 - 1\<close>
  commands; beyond that the numbers of the code wrap around.

  \<^bold>\<open>Parameters.\<close> MessagePack is a codec argument (\<open>kv_codec\<close>, \<open>wal_codec\<close>, \<open>message_codec\<close>); where a
  property needs it, the hypothesis is that packing and unpacking give the value back. The
  results of the file system and of the network (\<open>write_outcome\<close>, \<open>file_faults\<close>, \<open>network\<close>, error
  flags of completions), the clock and the random engine (a stream of draws) are arguments.

  \<^bold>\<open>Not modelled.\<close> The inside of Boost.Asio, sockets and threads: a handler runs as a whole, as
  the strands and the one thread per loop make it do, and work guards only decide when a loop
  with an empty queue ends. The text written to the standard error. The seed of the random
  engine. Accessors, and overloads that call the modelled function with a default argument.
\<close>

text \<open>
  C1. Election safety: two nodes that are leaders of the same term, at the same or at
  different moments of a run with crashes, restarts, lost, repeated and reordered messages,
  are the same node.
\<close>

theorem election_safety:
  assumes "reachable C" "cluster_step\<^sup>*\<^sup>* C C'"
    and "c_node C n = Some s" "r_state s = Leader"
    and "c_node C' n' = Some s'" "r_state s' = Leader"
    and "r_term s' = r_term s"
  shows "n' = n"
proof -
  have C: "cluster_ok C" using assms(1) by (rule reachable_ok)
  have C': "cluster_ok C'" "files_grow C C'" using steps_ok [OF assms(2) C] by simp_all
  have "elections.wins C' (r_term s) n" using wins_mono [OF C'(2) leader_wins [OF C assms(3,4)]] .
  moreover have "elections.wins C' (r_term s) n'"
    using leader_wins [OF C'(1) assms(5,6)] assms(7) by simp
  ultimately show ?thesis by (rule elections.one_winner [symmetric])
qed

theorem election_safety_witness:
  "reachable (ex_cluster ex_leader (ex_voter []) (ex_node 3 0) ex_net) \<and> r_state ex_leader = Leader
     \<and> \<not> (\<exists>s'. c_node (ex_cluster ex_leader (ex_voter []) (ex_node 3 0) ex_net) 2 = Some s'
          \<and> r_state s' = Leader \<and> r_term s' = 1)"
proof -
  have l: "r_state ex_leader = Leader" "r_term ex_leader = 1"
    by (simp_all add: ex_leader_def ex_candidate_def)
  show ?thesis
    using election_safety [OF ex_leader_reachable rtranclp.rtrancl_refl ex_fields(1) l(1), of 2]
      ex_leader_reachable l by auto
qed

text \<open>
  C2. Every node of a reachable cluster is well formed (its log is contiguous from the
  snapshot, the applied index lies between the snapshot and the commit index and the commit
  index within the log, its maps have one entry per member), and every message in the network
  is well formed.
\<close>

theorem reachable_well_formed:
  assumes "reachable C"
  shows "(\<forall>n s. c_node C n = Some s \<longrightarrow> n \<in> {1, 2, 3} \<and> r_id s = n \<and> node_wf s)
     \<and> (\<forall>m \<in> c_net C. msg_wf m)"
  using reachable_ok [OF assms] by (auto simp: cluster_ok_def node_ok_def net_ok_def)

theorem reachable_well_formed_witness:
  "reachable (ex_cluster ex_leader (ex_voter []) (ex_node 3 0) ex_net)
     \<and> node_wf ex_leader \<and> msg_wf ex_grant"
proof -
  have "ex_grant \<in> ex_net" by (simp add: ex_net_def)
  then show ?thesis
    using reachable_well_formed [OF ex_leader_reachable] ex_leader_reachable ex_fields(1,4) by metis
qed

text \<open>
  C3. A crash loses nothing: a node of a reachable cluster whose storage has not failed,
  stopped at any moment and started again from its file, has the same term, vote, commit
  index, log and snapshot, and is a follower with an empty outbox.
\<close>

theorem restart_restores_state:
  assumes "reachable C" "c_node C n = Some s" "\<not> r_storage_failed s" "nc_id nc = n"
  shows "\<exists>s'. boot nc rng cb (open_wal (disk_of s) io sz) = Inr s'
     \<and> r_term s' = r_term s \<and> r_voted_for s' = r_voted_for s
     \<and> r_commit_index s' = r_commit_index s \<and> r_log s' = r_log s
     \<and> r_log_offset s' = r_log_offset s \<and> r_log_offset_term s' = r_log_offset_term s
     \<and> r_last_snapshot_data s' = r_last_snapshot_data s
     \<and> r_state s' = Follower \<and> r_msgs s' = []"
proof -
  have s: "storage_ok [] s" "n \<in> {1, 2, 3}"
    using reachable_ok [OF assms(1)] assms(2) by (auto simp: cluster_ok_def node_ok_def)
  have im: "wal_image (recover_records (disk_of s)) s"
    using s(1) assms(3) by (auto simp: storage_ok_def disk_of_def)
  have "legal (disk_of s)" using storage_ok_of [OF s(1)] by simp
  from boot_legal [OF this, of nc rng cb io sz] assms(4) s(2) im
  show ?thesis by (auto simp: wal_image_def)
qed

theorem restart_restores_state_witness:
  "\<exists>s'. boot (ex_config 2) (sconst 5) (\<lambda>_ _. True)
         (open_wal (disk_of (ex_voter [])) (sconst Sync_ok) (\<lambda>_. 1)) = Inr s'
     \<and> r_term s' = 1 \<and> r_voted_for s' = 1"
proof -
  have v: "\<not> r_storage_failed (ex_voter [])" "nc_id (ex_config 2) = 2"
    by (simp_all add: ex_voter_def ex_node_def ex_config_def)
  have "r_term (ex_voter []) = 1" "r_voted_for (ex_voter []) = 1" by (simp_all add: ex_voter_def)
  with restart_restores_state [OF ex_leader_reachable ex_fields(2) v,
      of "sconst 5" "\<lambda>_ _. True" "sconst Sync_ok" "\<lambda>_. 1"]
  show ?thesis by auto
qed

text \<open>
  C4. A node can always be started again: whatever happened before, including a storage
  failure in the middle of a flush or an exception, the file of a member of a reachable
  cluster boots, to a well-formed follower.
\<close>

theorem restart_never_refused:
  assumes "reachable C" "nc_id nc \<in> {1, 2, 3}"
  shows "\<exists>s. boot nc rng cb (open_wal (file_of C (nc_id nc)) io sz) = Inr s
     \<and> node_wf s \<and> r_id s = nc_id nc \<and> r_state s = Follower"
proof -
  have "legal (file_of C (nc_id nc))"
    using reachable_ok [OF assms(1)] by (simp add: cluster_ok_def)
  from boot_legal [OF this assms(2)] show ?thesis by blast
qed

theorem restart_never_refused_witness:
  "\<exists>s. boot (ex_config 1) (sconst 5) (\<lambda>_ _. True)
         (open_wal (file_of (ex_cluster ex_leader (ex_voter []) (ex_node 3 0) ex_net) 1)
            (sconst (Sync_error 0)) (\<lambda>_. 1)) = Inr s
     \<and> node_wf s \<and> r_id s = 1"
proof -
  have i: "nc_id (ex_config 1) = 1" by (simp add: ex_config_def)
  have "nc_id (ex_config 1) \<in> {1, 2, 3}" unfolding i by simp
  from restart_never_refused [OF ex_leader_reachable this,
      of "sconst 5" "\<lambda>_ _. True" "sconst (Sync_error 0)" "\<lambda>_. 1"]
  show ?thesis unfolding i by blast
qed

text \<open>
  C5. A vote is durable before it is seen and is given once: every granted vote in the
  network is a hard state in the file of its sender, and two granted votes of one sender in
  one term name the same candidate.
\<close>

theorem granted_votes_are_final:
  assumes "reachable C" "m \<in> c_net C" "m_type m = MsgRequestVoteResponse" "m_vote_granted m"
  shows "(\<exists>h. RecHardState h \<in> set (file_of C (m_from m)) \<and> hs_term h = m_term m
        \<and> hs_vote h = m_to m)
     \<and> (\<forall>m' \<in> c_net C. m_type m' = MsgRequestVoteResponse \<and> m_vote_granted m'
          \<and> m_from m' = m_from m \<and> m_term m' = m_term m \<longrightarrow> m_to m' = m_to m)"
proof -
  have net: "vote_on_file C (m_from m) (m_term m) (m_to m)"
    if "m \<in> c_net C" "m_type m = MsgRequestVoteResponse" "m_vote_granted m" for m
    using reachable_ok [OF assms(1)] that by (auto simp: cluster_ok_def net_ok_def is_grant_def)
  have "m_to m' = m_to m" if "m' \<in> c_net C" "m_type m' = MsgRequestVoteResponse"
    "m_vote_granted m'" "m_from m' = m_from m" "m_term m' = m_term m" for m'
    using elections.one_vote [OF _ net [OF assms(2-4)]] net [OF that(1-3)] that(4,5) by simp
  with net [OF assms(2-4)] show ?thesis by (auto simp: vote_on_file_def voted_def)
qed

theorem granted_votes_are_final_witness:
  "ex_grant \<in> ex_net \<and> (\<exists>h. RecHardState h \<in> set (disk_of (ex_voter [])) \<and> hs_term h = 1
     \<and> hs_vote h = 1)"
proof -
  let ?C = "ex_cluster ex_leader (ex_voter []) (ex_node 3 0) ex_net"
  have g: "ex_grant \<in> c_net ?C" by (simp add: ex_fields ex_net_def)
  have e: "m_type ex_grant = MsgRequestVoteResponse" "m_vote_granted ex_grant"
    "m_from ex_grant = 2" "m_term ex_grant = 1" "m_to ex_grant = 1"
    by (simp_all add: ex_grant_def)
  have "file_of ?C 2 = disk_of (ex_voter [])" by (simp add: file_of_def ex_fields)
  with granted_votes_are_final [OF ex_leader_reachable g e(1,2)] e g show ?thesis
    by (simp add: ex_fields)
qed

end
